(* ===== verification/Effects.thy ===== *)
theory Effects
  imports Prelude
begin

text \<open>
  Exceptions and effects. An \<open>async\<close> function of the program is a value of type \<open>('w, 'a) io\<close>;
  the bundle's \<open>__awaiter\<close> helper, which drives a generator and resolves with its return value or
  rejects with what it throws, is sequencing in this monad.
  The theory also holds the interfaces several components share: event machines with an invariant,
  comparison functions for \<open>Array.prototype.sort\<close>, and character escapes.
\<close>

section \<open>Exceptions\<close>

text \<open>
  \<open>Error\<close>, \<open>TypeError\<close> and \<open>AssertionError\<close> are the language's and Node's, \<open>SysError\<close> is a file
  system error with its \<open>code\<close>, \<open>HTTPError\<close> is the class of \<open>tool-cache.js\<close> and
  \<open>HttpClientError\<close> the one of \<open>http-client\<close>; \<open>Thrown\<close> is a thrown value that is no \<open>Error\<close>.
\<close>

datatype exn =
    Error string
  | TypeError string
  | AssertionError string
  | SysError string string
  | HTTPError nat
  | HttpClientError string nat
  | Thrown string
  | Pending

fun is_error :: "exn \<Rightarrow> bool" where
  "is_error (Thrown _) = False"
| "is_error Pending = False"
| "is_error _ = True"

text \<open>\<open>err.message\<close> and \<open>err.toString()\<close>.\<close>

fun err_message :: "exn \<Rightarrow> string" where
  "err_message (Error m) = m"
| "err_message (TypeError m) = m"
| "err_message (AssertionError m) = m"
| "err_message (SysError c m) = m"
| "err_message (HTTPError n) = ''Unexpected HTTP response: '' @ show_nat n"
| "err_message (HttpClientError m n) = m"
| "err_message (Thrown v) = ''undefined''"
| "err_message Pending = []"

fun err_name :: "exn \<Rightarrow> string" where
  "err_name (TypeError m) = ''TypeError''"
| "err_name (AssertionError m) = ''AssertionError [ERR_ASSERTION]''"
| "err_name (HttpClientError m n) = ''HttpClientError''"
| "err_name e = ''Error''"

definition err_to_string :: "exn \<Rightarrow> string" where
  "err_to_string e = (case e of Thrown v \<Rightarrow> v
     | _ \<Rightarrow> if err_message e = [] then err_name e else err_name e @ '': '' @ err_message e)"

section \<open>State and exceptions\<close>

type_synonym 'a res = "exn + 'a"
type_synonym ('w, 'a) io = "'w \<Rightarrow> 'a res \<times> 'w"

definition retE :: "'a \<Rightarrow> ('w, 'a) io" where
  "retE x = (\<lambda>w. (Inr x, w))"

definition throwE :: "exn \<Rightarrow> ('w, 'a) io" where
  "throwE e = (\<lambda>w. (Inl e, w))"

definition bindE :: "('w, 'a) io \<Rightarrow> ('a \<Rightarrow> ('w, 'b) io) \<Rightarrow> ('w, 'b) io" where
  "bindE m f = (\<lambda>w. case m w of (Inl e, w') \<Rightarrow> (Inl e, w') | (Inr x, w') \<Rightarrow> f x w')"

definition thenE :: "('w, 'a) io \<Rightarrow> ('w, 'b) io \<Rightarrow> ('w, 'b) io" where
  "thenE m n = bindE m (\<lambda>_. n)"

definition catchE :: "('w, 'a) io \<Rightarrow> (exn \<Rightarrow> ('w, 'a) io) \<Rightarrow> ('w, 'a) io" where
  "catchE m h = (\<lambda>w. case m w of
       (Inl e, w') \<Rightarrow> (if e = Pending then (Inl e, w') else h e w')
     | (Inr x, w') \<Rightarrow> (Inr x, w'))"

definition getE :: "('w \<Rightarrow> 'a) \<Rightarrow> ('w, 'a) io" where
  "getE f = (\<lambda>w. (Inr (f w), w))"

definition modifyE :: "('w \<Rightarrow> 'w) \<Rightarrow> ('w, unit) io" where
  "modifyE f = (\<lambda>w. (Inr (), f w))"

definition liftE :: "'a res \<Rightarrow> ('w, 'a) io" where
  "liftE r = (\<lambda>w. (r, w))"

definition whenE :: "bool \<Rightarrow> ('w, unit) io \<Rightarrow> ('w, unit) io" where
  "whenE b m = (if b then m else retE ())"

fun forE :: "'a list \<Rightarrow> ('a \<Rightarrow> ('w, unit) io) \<Rightarrow> ('w, unit) io" where
  "forE [] f = retE ()"
| "forE (x # xs) f = thenE (f x) (forE xs f)"

text \<open>\<open>res_bind\<close> is sequencing without a state.\<close>

definition res_bind :: "'a res \<Rightarrow> ('a \<Rightarrow> 'b res) \<Rightarrow> 'b res" where
  "res_bind r f = (case r of Inl e \<Rightarrow> Inl e | Inr x \<Rightarrow> f x)"

lemma res_bind_simps [simp]: "res_bind (Inl e) f = Inl e" "res_bind (Inr x) f = f x"
  by (simp_all add: res_bind_def)

lemma res_bind_Inr: "res_bind r f = Inr y \<longleftrightarrow> (\<exists>x. r = Inr x \<and> f x = Inr y)"
  by (cases r) auto

lemma retE_apply [simp]: "retE x w = (Inr x, w)"
  by (simp add: retE_def)

lemma throwE_apply [simp]: "throwE e w = (Inl e, w)"
  by (simp add: throwE_def)

lemma getE_apply [simp]: "getE f w = (Inr (f w), w)"
  by (simp add: getE_def)

lemma modifyE_apply [simp]: "modifyE f w = (Inr (), f w)"
  by (simp add: modifyE_def)

lemma liftE_apply [simp]: "liftE r w = (r, w)"
  by (simp add: liftE_def)

lemma bindE_retE [simp]: "bindE (retE x) f = f x"
  by (auto simp: bindE_def fun_eq_iff)

lemma bindE_throwE [simp]: "bindE (throwE e) f = throwE e"
  by (auto simp: bindE_def fun_eq_iff)

lemma bindE_assoc: "bindE (bindE m f) g = bindE m (\<lambda>x. bindE (f x) g)"
  by (auto simp: bindE_def fun_eq_iff split: prod.splits sum.splits)

lemma bindE_retE_right [simp]: "bindE m retE = m"
  by (auto simp: bindE_def fun_eq_iff split: prod.splits sum.splits)

lemma whenE_simps [simp]: "whenE True m = m" "whenE False m = retE ()"
  by (simp_all add: whenE_def)

lemma bindE_Inr_iff:
  "bindE m f w = (Inr y, w') \<longleftrightarrow> (\<exists>x w1. m w = (Inr x, w1) \<and> f x w1 = (Inr y, w'))"
  by (cases "m w") (auto simp: bindE_def split: sum.splits)

lemma bindE_InrE:
  assumes "bindE m f w = (Inr y, w')"
  obtains x w1 where "m w = (Inr x, w1)" "f x w1 = (Inr y, w')"
  using assms unfolding bindE_Inr_iff by blast

section \<open>Frames: what an operation leaves alone\<close>

definition keeps :: "('w \<Rightarrow> 'v) \<Rightarrow> ('w, 'a) io \<Rightarrow> bool" where
  "keeps g m \<longleftrightarrow> (\<forall>w. g (snd (m w)) = g w)"

lemma keepsD: "keeps g m \<Longrightarrow> m w = (r, w') \<Longrightarrow> g w' = g w"
  by (auto simp: keeps_def dest: spec [of _ w])

lemma keeps_retE [keeps_rules, simp]: "keeps g (retE x)"
  and keeps_throwE [keeps_rules, simp]: "keeps g (throwE e)"
  and keeps_getE [keeps_rules, simp]: "keeps g (getE f)"
  and keeps_liftE [keeps_rules, simp]: "keeps g (liftE r)"
  by (simp_all add: keeps_def)

lemma keeps_modifyE [keeps_rules]: "(\<And>w. g (f w) = g w) \<Longrightarrow> keeps g (modifyE f)"
  by (simp add: keeps_def)

lemma keeps_bindE [keeps_rules]: "keeps g m \<Longrightarrow> (\<And>x. keeps g (f x)) \<Longrightarrow> keeps g (bindE m f)"
  unfolding keeps_def bindE_def
proof (intro allI)
  fix w assume m: "\<forall>w. g (snd (m w)) = g w" and f: "\<And>x. \<forall>w. g (snd (f x w)) = g w"
  obtain r w' where r: "m w = (r, w')" by (cases "m w")
  with m have "g w' = g w" by (metis snd_conv)
  with r f show "g (snd (case m w of (Inl e, w') \<Rightarrow> (Inl e, w') | (Inr x, w') \<Rightarrow> f x w')) = g w"
    by (cases r) auto
qed

lemma keeps_thenE [keeps_rules]: "keeps g m \<Longrightarrow> keeps g n \<Longrightarrow> keeps g (thenE m n)"
  by (simp add: thenE_def keeps_bindE)

lemma keeps_catchE [keeps_rules]:
  "keeps g m \<Longrightarrow> (\<And>e. keeps g (h e)) \<Longrightarrow> keeps g (catchE m h)"
  unfolding keeps_def catchE_def
proof (intro allI)
  fix w assume m: "\<forall>w. g (snd (m w)) = g w" and h: "\<And>e. \<forall>w. g (snd (h e w)) = g w"
  obtain r w' where r: "m w = (r, w')" by (cases "m w")
  with m have "g w' = g w" by (metis snd_conv)
  with r h show "g (snd (case m w of (Inl e, w') \<Rightarrow> if e = Pending then (Inl e, w') else h e w'
      | (Inr x, w') \<Rightarrow> (Inr x, w'))) = g w"
    by (cases r) auto
qed

lemma keeps_whenE [keeps_rules]: "(b \<Longrightarrow> keeps g m) \<Longrightarrow> keeps g (whenE b m)"
  by (simp add: whenE_def)

lemma keeps_if [keeps_rules]:
  "(b \<Longrightarrow> keeps g m) \<Longrightarrow> (\<not> b \<Longrightarrow> keeps g n) \<Longrightarrow> keeps g (if b then m else n)"
  by simp

lemma keeps_forE [keeps_rules]: "(\<And>x. x \<in> set xs \<Longrightarrow> keeps g (f x)) \<Longrightarrow> keeps g (forE xs f)"
  by (induction xs) (auto intro: keeps_thenE)

lemma keeps_case_option [keeps_rules]:
  "(v = None \<Longrightarrow> keeps g m) \<Longrightarrow> (\<And>x. v = Some x \<Longrightarrow> keeps g (f x)) \<Longrightarrow>
   keeps g (case v of None \<Rightarrow> m | Some x \<Rightarrow> f x)"
  by (cases v) auto

section \<open>Triples\<close>

text \<open>
  \<open>triple P m Q E\<close>: from a state with \<open>P\<close>, a normal exit of \<open>m\<close> satisfies \<open>Q\<close> of the result and the
  final state, an exceptional one \<open>E\<close> of the exception and the final state.
\<close>

definition triple ::
  "('w \<Rightarrow> bool) \<Rightarrow> ('w, 'a) io \<Rightarrow> ('a \<Rightarrow> 'w \<Rightarrow> bool) \<Rightarrow> (exn \<Rightarrow> 'w \<Rightarrow> bool) \<Rightarrow> bool" where
  "triple P m Q E \<longleftrightarrow> (\<forall>w. P w \<longrightarrow>
     (case m w of (Inl e, w') \<Rightarrow> E e w' | (Inr x, w') \<Rightarrow> Q x w'))"

lemma tripleD_Inr: "triple P m Q E \<Longrightarrow> P w \<Longrightarrow> m w = (Inr x, w') \<Longrightarrow> Q x w'"
  by (auto simp: triple_def dest: spec [of _ w])

lemma tripleD_Inl: "triple P m Q E \<Longrightarrow> P w \<Longrightarrow> m w = (Inl e, w') \<Longrightarrow> E e w'"
  by (auto simp: triple_def dest: spec [of _ w])

lemma triple_retE [triple_rules]: "(\<And>w. P w \<Longrightarrow> Q x w) \<Longrightarrow> triple P (retE x) Q E"
  by (simp add: triple_def)

lemma triple_throwE [triple_rules]: "(\<And>w. P w \<Longrightarrow> E e w) \<Longrightarrow> triple P (throwE e) Q E"
  by (simp add: triple_def)

lemma triple_getE [triple_rules]: "(\<And>w. P w \<Longrightarrow> Q (f w) w) \<Longrightarrow> triple P (getE f) Q E"
  by (simp add: triple_def)

lemma triple_modifyE [triple_rules]: "(\<And>w. P w \<Longrightarrow> Q () (f w)) \<Longrightarrow> triple P (modifyE f) Q E"
  by (simp add: triple_def)

lemma triple_bindE [triple_rules]:
  "triple P m R E \<Longrightarrow> (\<And>x. triple (R x) (f x) Q E) \<Longrightarrow> triple P (bindE m f) Q E"
  by (fastforce simp: triple_def bindE_def split: prod.splits sum.splits)

lemma triple_thenE [triple_rules]:
  "triple P m (\<lambda>_. R) E \<Longrightarrow> triple R n Q E \<Longrightarrow> triple P (thenE m n) Q E"
  by (auto simp: thenE_def intro: triple_bindE)

lemma triple_catchE [triple_rules]:
  assumes "triple P m Q F" and "\<And>e. e \<noteq> Pending \<Longrightarrow> triple (F e) (h e) Q E"
    and "\<And>w. F Pending w \<Longrightarrow> E Pending w"
  shows "triple P (catchE m h) Q E"
  unfolding triple_def catchE_def
proof (intro allI impI)
  fix w assume w: "P w"
  obtain r w' where m: "m w = (r, w')" by (cases "m w")
  show "case (case m w of (Inl e, w') \<Rightarrow> if e = Pending then (Inl e, w') else h e w'
          | (Inr x, w') \<Rightarrow> (Inr x, w')) of (Inl e, w') \<Rightarrow> E e w' | (Inr x, w') \<Rightarrow> Q x w'"
  proof (cases r)
    case (Inl e)
    with m have "F e w'" using tripleD_Inl [OF assms(1) w] by blast
    with m Inl assms(2,3) show ?thesis by (auto simp: triple_def)
  next
    case (Inr x)
    with m have "Q x w'" using tripleD_Inr [OF assms(1) w] by blast
    with m Inr show ?thesis by simp
  qed
qed

lemma triple_conseq:
  "triple P m Q E \<Longrightarrow> (\<And>w. P' w \<Longrightarrow> P w) \<Longrightarrow> (\<And>x w. Q x w \<Longrightarrow> Q' x w) \<Longrightarrow>
   (\<And>e w. E e w \<Longrightarrow> E' e w) \<Longrightarrow> triple P' m Q' E'"
  by (fastforce simp: triple_def split: prod.splits sum.splits)

text \<open>A kept part of the state stays in a triple.\<close>

lemma triple_keeps:
  assumes "keeps g m"
  shows "triple (\<lambda>w. I (g w)) m (\<lambda>_ w. I (g w)) (\<lambda>_ w. I (g w))"
  unfolding triple_def
proof (intro allI impI)
  fix w assume "I (g w)"
  then show "case m w of (Inl e, w') \<Rightarrow> I (g w') | (Inr x, w') \<Rightarrow> I (g w')"
    using keepsD [OF assms, of w] by (cases "m w") (auto split: sum.splits)
qed

section \<open>Interfaces\<close>

text \<open>An event machine with an invariant: every state reached by a sequence of events has it.\<close>

locale event_machine =
  fixes start :: "'s \<Rightarrow> bool" and step :: "'e \<Rightarrow> 's \<Rightarrow> 's" and inv :: "'s \<Rightarrow> bool"
  assumes start_inv: "start s \<Longrightarrow> inv s"
    and step_inv: "inv s \<Longrightarrow> inv (step e s)"
begin

lemma fold_inv: "inv s \<Longrightarrow> inv (fold step es s)"
  by (induction es arbitrary: s) (auto intro: step_inv)

lemma reach_inv: "start s \<Longrightarrow> inv (fold step es s)"
  by (rule fold_inv) (rule start_inv)

lemma prefix_inv: "start s \<Longrightarrow> inv (fold step (take n es) s)"
  by (rule reach_inv)

end

text \<open>
  A character escape: \<open>esc\<close> writes every character as a string that avoids the characters
  \<open>forbidden\<close>, and \<open>dec\<close> reads one escaped character off the front.
\<close>

locale char_escape =
  fixes esc :: "char \<Rightarrow> string" and dec :: "string \<Rightarrow> string" and forbidden :: "char set"
  assumes dec_Nil: "dec [] = []"
    and dec_esc: "dec (esc c @ s) = c # dec s"
    and esc_avoids: "set (esc c) \<inter> forbidden = {}"
begin

lemma dec_concat: "dec (concat (map esc s)) = s"
  by (induction s) (simp_all add: dec_Nil dec_esc)

lemma concat_inj: "concat (map esc s) = concat (map esc t) \<Longrightarrow> s = t"
  by (metis dec_concat)

lemma concat_avoids: "set (concat (map esc s)) \<inter> forbidden = {}"
  using esc_avoids by (induction s) auto

lemma concat_avoids_char: "c \<in> forbidden \<Longrightarrow> c \<notin> set (concat (map esc s))"
  using concat_avoids by blast

end

end
