(* ===== verification/Json.thy ===== *)
theory Json
  imports Effects
begin

text \<open>
  JSON values and \<open>JSON.stringify\<close>, as the program calls it: compact (workflow commands, the people
  service) and with an indentation (the releases file). An object is a list of its properties in
  insertion order; a JavaScript value that may be \<open>undefined\<close> is a \<open>json option\<close>. Numbers are the
  integers.
\<close>

datatype json =
    JNull
  | JBool bool
  | JNum int
  | JStr string
  | JArr "json list"
  | JObj "(string \<times> json) list"

text \<open>A JavaScript object whose values may be \<open>undefined\<close>.\<close>

type_synonym jsobj = "(string \<times> json option) list"

fun truthy :: "json option \<Rightarrow> bool" where
  "truthy None = False"
| "truthy (Some JNull) = False"
| "truthy (Some (JBool b)) = b"
| "truthy (Some (JNum n)) = (n \<noteq> 0)"
| "truthy (Some (JStr s)) = (s \<noteq> [])"
| "truthy (Some (JArr _)) = True"
| "truthy (Some (JObj _)) = True"

definition obj_get :: "(string \<times> 'a) list \<Rightarrow> string \<Rightarrow> 'a option" where
  "obj_get ob k = map_of ob k"

text \<open>\<open>ob[k] = v\<close>: an existing property keeps its place.\<close>

fun obj_put :: "(string \<times> 'a) list \<Rightarrow> string \<Rightarrow> 'a \<Rightarrow> (string \<times> 'a) list" where
  "obj_put [] k v = [(k, v)]"
| "obj_put ((a, b) # ob) k v = (if a = k then (k, v) # ob else (a, b) # obj_put ob k v)"

lemma obj_get_put: "obj_get (obj_put ob k v) = (obj_get ob)(k \<mapsto> v)"
  by (induction ob k v rule: obj_put.induct) (auto simp: obj_get_def)

lemma obj_get_put_same [simp]: "obj_get (obj_put ob k v) k = Some v"
  and obj_get_put_other: "j \<noteq> k \<Longrightarrow> obj_get (obj_put ob k v) j = obj_get ob j"
  by (simp_all add: obj_get_put)

lemma keys_obj_put: "map fst (obj_put ob k v) =
    (if k \<in> set (map fst ob) then map fst ob else map fst ob @ [k])"
  by (induction ob k v rule: obj_put.induct) auto

lemma distinct_obj_put: "distinct (map fst ob) \<Longrightarrow> distinct (map fst (obj_put ob k v))"
  by (simp add: keys_obj_put)

lemma obj_put_not_Nil [simp]: "obj_put ob k v \<noteq> []"
  by (cases ob) (auto split: if_splits)

section \<open>stringify\<close>

definition hex_digit :: "nat \<Rightarrow> char" where
  "hex_digit n = (if n < 10 then char_of (48 + n) else char_of (87 + n))"

definition json_quote_char :: "char \<Rightarrow> string" where
  "json_quote_char c =
     (let n = of_char c :: nat in
      if c = CHR 0x22 then [CHR 0x5C, CHR 0x22]
      else if c = CHR 0x5C then [CHR 0x5C, CHR 0x5C]
      else if n = 8 then [CHR 0x5C, CHR ''b'']
      else if n = 12 then [CHR 0x5C, CHR ''f'']
      else if n = 10 then [CHR 0x5C, CHR ''n'']
      else if n = 13 then [CHR 0x5C, CHR ''r'']
      else if n = 9 then [CHR 0x5C, CHR ''t'']
      else if n < 32 then [CHR 0x5C, CHR ''u'', CHR ''0'', CHR ''0'', hex_digit (n div 16), hex_digit (n mod 16)]
      else [c])"

definition json_quote :: "string \<Rightarrow> string" where
  "json_quote s = [CHR 0x22] @ concat (map json_quote_char s) @ [CHR 0x22]"

fun stringify :: "json \<Rightarrow> string" where
  "stringify JNull = ''null''"
| "stringify (JBool b) = (if b then ''true'' else ''false'')"
| "stringify (JNum n) = show_int n"
| "stringify (JStr s) = json_quote s"
| "stringify (JArr xs) = ''['' @ join '','' (map stringify xs) @ '']''"
| "stringify (JObj ps) =
     ''{'' @ join '','' (map (\<lambda>(k, v). json_quote k @ '':'' @ stringify v) ps) @ ''}''"

text \<open>\<open>JSON.stringify(v, null, n)\<close>, \<open>ind\<close> the indentation in force.\<close>

fun stringify_indent :: "nat \<Rightarrow> string \<Rightarrow> json \<Rightarrow> string" where
  "stringify_indent n ind (JArr (x # xs)) =
     (let step = ind @ replicate n CHR 0x20; nl = [CHR 0x0A] in
      ''['' @ nl @ step @ join ('','' @ nl @ step) (map (stringify_indent n step) (x # xs)) @ nl @ ind @ '']'')"
| "stringify_indent n ind (JObj (p # ps)) =
     (let step = ind @ replicate n CHR 0x20; nl = [CHR 0x0A] in
      ''{'' @ nl @ step @
      join ('','' @ nl @ step) (map (\<lambda>(k, v). json_quote k @ '': '' @ stringify_indent n step v) (p # ps))
      @ nl @ ind @ ''}'')"
| "stringify_indent n ind j = stringify j"

text \<open>Quoting a string is injective and never leaves a line break or another control character.\<close>

lemma of_char_eq_iff: "(of_char c = (of_char d :: nat)) = (c = d)"
  by simp

lemma json_quote_char_no_control:
  assumes "c \<in> set (json_quote_char d)" shows "32 \<le> (of_char c :: nat)"
proof -
  have hex: "32 \<le> (of_char (hex_digit (k mod 16)) :: nat)" for k
  proof (cases "k mod 16 < 10")
    case False
    then have "87 + k mod 16 < 256" by simp
    with False show ?thesis by (simp add: hex_digit_def of_char_of)
  qed (simp add: hex_digit_def of_char_of)
  have hex2: "32 \<le> (of_char (hex_digit (k div 16)) :: nat)" if "k < 32" for k
    using that hex [of "k div 16"] by (simp add: less_mult_imp_div_less)
  from assms show ?thesis
    by (auto simp: json_quote_char_def Let_def hex hex2 split: if_splits)
qed

lemma json_quote_no_newline: "CHR 0x0A \<notin> set (json_quote s)" "CHR 0x0D \<notin> set (json_quote s)"
  by (auto simp: json_quote_def dest!: json_quote_char_no_control)

end
