(* ===== verification/World.thy ===== *)
theory World
  imports Effects Json
begin

text \<open>
  What the setup-oras action sees of the machine it runs on.

  \<^item> \<open>world\<close> is the state: the process environment, what was written to standard output, the exit
    code, the file system, the HTTP requests sent, the child processes started, the timers slept on
    and how many random identifiers and random numbers were drawn.
  \<^item> \<open>host\<close> is everything the program's sources do not contain and only call: Node's \<open>os\<close>, \<open>path\<close>
    and \<open>URL\<close>, the remote HTTP servers, the child processes, SHA-256, the random sources, and the
    failures the operating system may report for a file system call. A host is an argument of every
    definition that depends on it, so each theorem holds for all hosts its hypotheses admit.

  Servers and child processes are functions of the history of requests or processes started, so
  they may answer the same request differently each time.
\<close>

section \<open>Files\<close>

datatype node = Dir | File (content: string) (mode: nat) (uid: nat) (gid: nat)

type_synonym fsys = "string \<Rightarrow> node option"

section \<open>HTTP requests and responses\<close>

record url =
  u_protocol :: string
  u_hostname :: string
  u_port :: string
  u_pathname :: string
  u_search :: string
  u_username :: string
  u_password :: string
  u_href :: string

text \<open>A header value of a request: a string, a number, or an array of strings.\<close>

datatype hval = HStr string | HNum nat | HArr "string list"

type_synonym headers = "(string \<times> hval) list"

text \<open>The agent a request is sent with: direct, or through a proxy.\<close>

datatype agent =
    DirectAgent bool  \<comment> \<open>\<open>True\<close>: \<open>https.Agent\<close>, \<open>False\<close>: \<open>http.Agent\<close>\<close>
  | TunnelAgent bool bool string string "string option"
      \<comment> \<open>target over TLS, proxy over TLS, proxy host, port and \<open>proxyAuth\<close>\<close>

record http_req =
  rq_ssl :: bool  \<comment> \<open>\<open>httpModule\<close> is \<open>https\<close>\<close>
  rq_host :: string
  rq_port :: nat
  rq_path :: string
  rq_method :: string
  rq_headers :: headers
  rq_agent :: agent
  rq_unverified :: bool  \<comment> \<open>\<open>rejectUnauthorized: false\<close>\<close>
  rq_data :: "string option"

text \<open>How a response body ends: \<open>end\<close> event, or the stream breaks off with an error.\<close>

datatype body_end = BodyEnd | BodyError exn

record response =
  rs_status :: nat
  rs_message :: string
  rs_headers :: "(string \<times> string) list"
  rs_chunks :: "string list"
  rs_end :: body_end

text \<open>What the request object emits, in order.\<close>

datatype req_event = RespEvent response | ErrorEvent exn | TimeoutEvent

section \<open>Child processes\<close>

record spawn =
  sp_file :: string
  sp_args :: "string list"
  sp_cwd :: "string option"
  sp_env :: "(string \<Rightarrow> string option) option"
  sp_verbatim :: bool
  sp_argv0 :: "string option"

datatype proc_event =
    Stdout string
  | Stderr string
  | ProcError string
  | ProcExit "int option"  \<comment> \<open>\<open>None\<close>: \<open>null\<close>, ended by a signal\<close>
  | ProcClose "int option"
  | TimerFires

section \<open>State and host\<close>

record world =
  w_env :: "string \<Rightarrow> string option"
  w_out :: string
  w_err :: string
  w_exitCode :: "nat option"
  w_fs :: fsys
  w_reqs :: "http_req list"
  w_spawns :: "spawn list"
  w_sleeps :: "nat list"
  w_uuids :: nat
  w_rands :: nat

record host =
  h_platform :: string
  h_arch :: string
  h_uid :: "nat option"
  h_gid :: "nat option"
  h_cwd :: string
  h_join :: "string \<Rightarrow> string \<Rightarrow> string"
  h_dirname :: "string \<Rightarrow> string"
  h_basename :: "string \<Rightarrow> string"
  h_extname :: "string \<Rightarrow> string"
  h_resolve :: "string list \<Rightarrow> string"
  h_readdir :: "fsys \<Rightarrow> string \<Rightarrow> string list"
  h_url :: "string \<Rightarrow> url option"
  h_decode_uri :: "string \<Rightarrow> string option"
  h_http :: "http_req list \<Rightarrow> req_event list"
  h_json :: "bool \<Rightarrow> string \<Rightarrow> json option"
  h_spawn :: "spawn list \<Rightarrow> proc_event list"
  h_spawn_fs :: "spawn list \<Rightarrow> fsys \<Rightarrow> fsys"
  h_fail :: "string \<Rightarrow> string \<Rightarrow> fsys \<Rightarrow> exn option"
  h_sha256 :: "string \<Rightarrow> string"
  h_uuid :: "nat \<Rightarrow> string"
  h_random :: "nat \<Rightarrow> nat"
  h_global :: "string \<Rightarrow> nat option"

type_synonym 'a action = "(world, 'a) io"

definition is_windows :: "host \<Rightarrow> bool" where
  "is_windows h \<longleftrightarrow> h_platform h = ''win32''"

text \<open>\<open>os.EOL\<close>, \<open>path.delimiter\<close> and \<open>path.sep\<close>.\<close>

definition eol :: "host \<Rightarrow> string" where
  "eol h = (if is_windows h then [CHR 0x0D, CHR 0x0A] else [CHR 0x0A])"

definition path_delimiter :: "host \<Rightarrow> char" where
  "path_delimiter h = (if is_windows h then CHR '';'' else CHR '':'')"

definition path_sep :: "host \<Rightarrow> char" where
  "path_sep h = (if is_windows h then CHR 0x5C else CHR ''/'')"

section \<open>Primitive operations\<close>

definition write_out :: "string \<Rightarrow> unit action" where
  "write_out s = modifyE (\<lambda>w. w\<lparr>w_out := w_out w @ s\<rparr>)"

text \<open>\<open>process.env[k]\<close>, and \<open>process.env[k] || ""\<close>.\<close>

definition get_env :: "string \<Rightarrow> world \<Rightarrow> string option" where
  "get_env k w = w_env w k"

definition env_or :: "string \<Rightarrow> world \<Rightarrow> string" where
  "env_or k w = (case w_env w k of None \<Rightarrow> [] | Some v \<Rightarrow> v)"

definition set_env :: "string \<Rightarrow> string \<Rightarrow> unit action" where
  "set_env k v = modifyE (\<lambda>w. w\<lparr>w_env := (w_env w)(k \<mapsto> v)\<rparr>)"

definition set_exit_code :: "nat \<Rightarrow> unit action" where
  "set_exit_code n = modifyE (\<lambda>w. w\<lparr>w_exitCode := Some n\<rparr>)"

definition write_err :: "string \<Rightarrow> unit action" where
  "write_err s = modifyE (\<lambda>w. w\<lparr>w_err := w_err w @ s\<rparr>)"

definition sleep_ms :: "nat \<Rightarrow> unit action" where
  "sleep_ms n = modifyE (\<lambda>w. w\<lparr>w_sleeps := w_sleeps w @ [n]\<rparr>)"

definition random_uuid :: "host \<Rightarrow> string action" where
  "random_uuid h = (\<lambda>w. (Inr (h_uuid h (w_uuids w)), w\<lparr>w_uuids := Suc (w_uuids w)\<rparr>))"

text \<open>A file system call the operating system refuses throws what the host says.\<close>

definition fs_check :: "host \<Rightarrow> string \<Rightarrow> string \<Rightarrow> unit action" where
  "fs_check h op p = (\<lambda>w. case h_fail h op p (w_fs w) of
       None \<Rightarrow> (Inr (), w) | Some e \<Rightarrow> (Inl e, w))"

definition fs_exists :: "string \<Rightarrow> world \<Rightarrow> bool" where
  "fs_exists p w \<longleftrightarrow> w_fs w p \<noteq> None"

definition fs_put :: "string \<Rightarrow> node option \<Rightarrow> unit action" where
  "fs_put p n = modifyE (\<lambda>w. w\<lparr>w_fs := (w_fs w)(p := n)\<rparr>)"

text \<open>
  The parts of the world the action is judged by: the environment and exit code it leaves to the
  job, the files, the requests sent and the processes started.
\<close>

lemma env_or_write [simp]: "env_or k (w\<lparr>w_out := x\<rparr>) = env_or k w"
  by (simp add: env_or_def)

lemma keeps_write_out [keeps_rules]:
  "(\<And>w x. g (w\<lparr>w_out := x\<rparr>) = g w) \<Longrightarrow> keeps g (write_out s)"
  by (simp add: write_out_def keeps_modifyE)

lemma keeps_write_err [keeps_rules]:
  "(\<And>w x. g (w\<lparr>w_err := x\<rparr>) = g w) \<Longrightarrow> keeps g (write_err s)"
  by (simp add: write_err_def keeps_modifyE)

lemma keeps_set_exit_code [keeps_rules]:
  "(\<And>w x. g (w\<lparr>w_exitCode := x\<rparr>) = g w) \<Longrightarrow> keeps g (set_exit_code n)"
  by (simp add: set_exit_code_def keeps_modifyE)

lemma keeps_set_env [keeps_rules]:
  "(\<And>w x. g (w\<lparr>w_env := x\<rparr>) = g w) \<Longrightarrow> keeps g (set_env k v)"
  by (simp add: set_env_def keeps_modifyE)

lemma keeps_sleep_ms [keeps_rules]:
  "(\<And>w x. g (w\<lparr>w_sleeps := x\<rparr>) = g w) \<Longrightarrow> keeps g (sleep_ms n)"
  by (simp add: sleep_ms_def keeps_modifyE)

lemma keeps_random_uuid [keeps_rules]:
  "(\<And>w x. g (w\<lparr>w_uuids := x\<rparr>) = g w) \<Longrightarrow> keeps g (random_uuid h)"
  by (simp add: random_uuid_def keeps_def)

lemma keeps_fs_check [keeps_rules]: "keeps g (fs_check h op p)"
  by (auto simp: fs_check_def keeps_def split: option.splits)

lemma keeps_fs_put [keeps_rules]:
  "(\<And>w x. g (w\<lparr>w_fs := x\<rparr>) = g w) \<Longrightarrow> keeps g (fs_put p n)"
  by (simp add: fs_put_def keeps_modifyE)

end
