(* ===== verification/Machine.thy ===== *)
theory Machine
  imports World
begin

text \<open>
  A concrete machine to evaluate operations on: a Linux runner with \<open>tar\<close> on its path, a URL reader for
  plain \<open>scheme://host/path\<close> URLs, and a server that serves one archive, redirects to it over TLS and
  in plain text, one overloaded and one missing page. The properties are applied to it where they
  have hypotheses.
\<close>

definition demo_url :: "string \<Rightarrow> url option" where
  "demo_url s =
     (let proto = (if starts_with s ''https://'' then ''https:'' else ''http:'');
          rest = drop (length proto + 2) s;
          hostname = takeWhile (\<lambda>c. c \<noteq> CHR ''/'') rest in
      if starts_with s ''https://'' \<or> starts_with s ''http://''
      then Some \<lparr>u_protocol = proto, u_hostname = hostname, u_port = [],
                 u_pathname = drop (length hostname) rest, u_search = [], u_username = [], u_password = [],
                 u_href = s\<rparr>
      else None)"

definition reply :: "nat \<Rightarrow> (string \<times> string) list \<Rightarrow> string list \<Rightarrow> req_event list" where
  "reply code hs chunks =
     [RespEvent \<lparr>rs_status = code, rs_message = [], rs_headers = hs, rs_chunks = chunks, rs_end = BodyEnd\<rparr>]"

definition demo_http :: "http_req list \<Rightarrow> req_event list" where
  "demo_http rs =
     (let r = last rs in
      if rq_path r = ''/oras.tgz'' then reply 200 [] [''oras'', ''-archive'']
      else if rq_path r = ''/moved'' then reply 302 [(''location'', ''https://cdn.test/oras.tgz'')] []
      else if rq_path r = ''/plain'' then reply 302 [(''location'', ''http://cdn.test/oras.tgz'')] []
      else if rq_path r = ''/busy'' then reply 503 [] []
      else reply 404 [] [''not found''])"

definition demo_host :: host where
  "demo_host =
     \<lparr>h_platform = ''linux'', h_arch = ''x64'', h_uid = Some 0, h_gid = Some 0, h_cwd = ''/work'',
      h_join = (\<lambda>a b. a @ ''/'' @ b),
      h_dirname = (\<lambda>p. rev (tl (dropWhile (\<lambda>c. c \<noteq> CHR ''/'') (rev p)))),
      h_basename = (\<lambda>p. rev (takeWhile (\<lambda>c. c \<noteq> CHR ''/'') (rev p))),
      h_extname = (\<lambda>p. []), h_resolve = last, h_readdir = (\<lambda>fs p. []),
      h_url = demo_url, h_decode_uri = Some, h_http = demo_http, h_json = (\<lambda>d s. None),
      h_spawn = (\<lambda>ps. [ProcExit (Some 0), ProcClose (Some 0)]), h_spawn_fs = (\<lambda>ps fs. fs),
      h_fail = (\<lambda>op p fs. None),
      h_sha256 = (\<lambda>c. if c = ''oras-archive'' then ''c0ffee'' else ''0''),
      h_uuid = (\<lambda>n. ''id'' @ show_nat n), h_random = (\<lambda>n. n), h_global = (\<lambda>k. None)\<rparr>"

definition demo_env :: "string \<Rightarrow> string \<Rightarrow> string \<Rightarrow> string option" where
  "demo_env url checksum =
     [''PATH'' \<mapsto> ''/bin'', ''RUNNER_TEMP'' \<mapsto> ''/tmp'', ''INPUT_VERSION'' \<mapsto> ''1.3.3'',
      ''INPUT_URL'' \<mapsto> url, ''INPUT_CHECKSUM'' \<mapsto> checksum]"

definition demo_world :: "string \<Rightarrow> string \<Rightarrow> world" where
  "demo_world url checksum =
     \<lparr>w_env = demo_env url checksum, w_out = [], w_err = [], w_exitCode = None,
      w_fs = [''/tmp'' \<mapsto> Dir, ''/bin'' \<mapsto> Dir, ''/bin/tar'' \<mapsto> File [] 493 0 0],
      w_reqs = [], w_spawns = [], w_sleeps = [], w_uuids = 0, w_rands = 0\<rparr>"

text \<open>A run with the right digest, one with a wrong digest, and one of the official release.\<close>

definition good_world :: world where
  "good_world = demo_world ''https://oras.test/oras.tgz'' ''C0FFEE''"

definition tampered_world :: world where
  "tampered_world = demo_world ''https://oras.test/oras.tgz'' ''beef''"

definition official_world :: world where
  "official_world = demo_world [] []"

end
