(* ===== verification/Proxy.thy ===== *)
theory Proxy
  imports World Machine
begin

text \<open>
  \<open>@actions/http-client/lib/proxy.js\<close>: whether a request goes through a proxy, and which. The
  environment is the world's; parsing a URL and \<open>decodeURIComponent\<close> are the host's.
\<close>

text \<open>\<open>process.env[a] || process.env[b] || ""\<close>.\<close>

definition env_either :: "string \<Rightarrow> string \<Rightarrow> world \<Rightarrow> string" where
  "env_either a b w = (if env_or a w \<noteq> [] then env_or a w else env_or b w)"

definition isLoopbackAddress :: "string \<Rightarrow> bool" where
  "isLoopbackAddress host =
     (let hostLower = to_lower host in
      hostLower = ''localhost'' \<or> starts_with hostLower ''127.'' \<or> starts_with hostLower ''[::1]'' \<or>
      starts_with hostLower ''[0:0:0:0:0:0:0:1]'')"

definition request_port :: "url \<Rightarrow> nat option" where
  "request_port reqUrl =
     (if u_port reqUrl \<noteq> [] then Some (nat_of_digits (u_port reqUrl))
      else if u_protocol reqUrl = ''http:'' then Some 80
      else if u_protocol reqUrl = ''https:'' then Some 443
      else None)"

definition upperReqHosts :: "url \<Rightarrow> string list" where
  "upperReqHosts reqUrl =
     (let u = to_upper (u_hostname reqUrl) in
      u # (case request_port reqUrl of Some p \<Rightarrow> [u @ '':'' @ show_nat p] | None \<Rightarrow> []))"

definition noProxyItems :: "string \<Rightarrow> string list" where
  "noProxyItems noProxy = filter (\<lambda>x. x \<noteq> []) (map (\<lambda>x. to_upper (js_trim x)) (split_char CHR '','' noProxy))"

definition bypass_match :: "string \<Rightarrow> string \<Rightarrow> bool" where
  "bypass_match item x \<longleftrightarrow>
     x = item \<or> ends_with x (''.'' @ item) \<or> (starts_with item ''.'' \<and> ends_with x item)"

definition checkBypass :: "world \<Rightarrow> url \<Rightarrow> bool" where
  "checkBypass w reqUrl =
     (if u_hostname reqUrl = [] then False
      else if isLoopbackAddress (u_hostname reqUrl) then True
      else (let noProxy = env_either ''no_proxy'' ''NO_PROXY'' w in
        if noProxy = [] then False
        else list_ex (\<lambda>item. item = ''*'' \<or> list_ex (bypass_match item) (upperReqHosts reqUrl))
               (noProxyItems noProxy)))"

text \<open>\<open>new DecodedURL(s)\<close>: an invalid URL or a malformed escape throws.\<close>

definition DecodedURL :: "host \<Rightarrow> string \<Rightarrow> url res" where
  "DecodedURL h s =
     (case h_url h s of
        None \<Rightarrow> Inl (TypeError ''Invalid URL'')
      | Some u \<Rightarrow>
          (case h_decode_uri h (u_username u) of
             None \<Rightarrow> Inl (Error ''URI malformed'')
           | Some name \<Rightarrow>
               (case h_decode_uri h (u_password u) of
                  None \<Rightarrow> Inl (Error ''URI malformed'')
                | Some pass \<Rightarrow> Inr (u\<lparr>u_username := name, u_password := pass\<rparr>))))"

definition getProxyUrl :: "host \<Rightarrow> world \<Rightarrow> url \<Rightarrow> url option res" where
  "getProxyUrl h w reqUrl =
     (let usingSsl = (u_protocol reqUrl = ''https:'') in
      if checkBypass w reqUrl then Inr None
      else
        (let proxyVar = (if usingSsl then env_either ''https_proxy'' ''HTTPS_PROXY'' w
                         else env_either ''http_proxy'' ''HTTP_PROXY'' w) in
         if proxyVar = [] then Inr None
         else (case DecodedURL h proxyVar of
                 Inr u \<Rightarrow> Inr (Some u)
               | Inl e \<Rightarrow>
                   if \<not> starts_with proxyVar ''http://'' \<and> \<not> starts_with proxyVar ''https://''
                   then res_bind (DecodedURL h (''http://'' @ proxyVar)) (\<lambda>u. Inr (Some u))
                   else Inr None)))"

section \<open>Facts\<close>

lemma getProxyUrl_bypass: "checkBypass w u \<Longrightarrow> getProxyUrl h w u = Inr None"
  by (simp add: getProxyUrl_def)

lemma checkBypass_loopback:
  "isLoopbackAddress (u_hostname u) \<Longrightarrow> checkBypass w u"
  by (auto simp: checkBypass_def isLoopbackAddress_def Let_def to_lower_def)

text \<open>A plain domain in \<open>no_proxy\<close> covers itself and its subdomains, and nothing else that ends like it.\<close>

lemma bypass_match_domain:
  assumes "\<not> starts_with d ''.''"
  shows "bypass_match d x \<longleftrightarrow> x = d \<or> (\<exists>sub. x = sub @ ''.'' @ d)"
  using assms by (simp add: bypass_match_def ends_with_append)

section \<open>Properties\<close>


definition proxied_world :: world where
  "proxied_world = good_world\<lparr>w_env := [''no_proxy'' \<mapsto> ''corp.test'', ''https_proxy'' \<mapsto> ''http://proxy.test'']\<rparr>"


end
