(* ===== verification/HttpClient.thy ===== *)
theory HttpClient
  imports Proxy
begin

text \<open>
  \<open>@actions/http-client/lib/index.js\<close>: the client that downloads the tool. The object's fields are
  the record \<open>http_client\<close>; operations that cache an agent in it return the new object. A request is
  one entry of the world's request log, answered by the host's events for the history so far.

  The loops of \<open>request\<close> are bounded by \<open>maxRedirects\<close> and \<open>maxRetries\<close>, so both are structural
  recursions. Theory \<open>HttpSafety\<close> holds what the client guarantees about the requests it sends.

  Not modelled: streams as request bodies, socket counts of the agents, and the undici dispatcher of
  \<open>getAgentDispatcher\<close>.
\<close>

section \<open>Constants\<close>

definition HttpRedirectCodes :: "nat list" where
  "HttpRedirectCodes = [301, 302, 303, 307, 308]"

definition HttpResponseRetryCodes :: "nat list" where
  "HttpResponseRetryCodes = [502, 503, 504]"

definition RetryableHttpVerbs :: "string list" where
  "RetryableHttpVerbs = [''OPTIONS'', ''GET'', ''DELETE'', ''HEAD'']"

definition ExponentialBackoffCeiling :: nat where "ExponentialBackoffCeiling = 10"

definition ExponentialBackoffTimeSlice :: nat where "ExponentialBackoffTimeSlice = 5"

section \<open>The client object\<close>

record handler =
  hd_canHandleAuthentication :: "response \<Rightarrow> bool"
  hd_handleAuthentication :: "http_req \<Rightarrow> response action"
  hd_prepareRequest :: "http_req \<Rightarrow> http_req"

record request_options =
  ro_headers :: "headers option"
  ro_ignoreSslError :: "bool option"
  ro_allowRedirects :: "bool option"
  ro_allowRedirectDowngrade :: "bool option"
  ro_maxRedirects :: "int option"
  ro_keepAlive :: "bool option"
  ro_allowRetries :: "bool option"
  ro_maxRetries :: "int option"
  ro_deserializeDates :: bool

record http_client =
  hc_userAgent :: string
  hc_handlers :: "handler list"
  hc_requestOptions :: "request_options option"
  hc_ignoreSslError :: bool
  hc_allowRedirects :: bool
  hc_allowRedirectDowngrade :: bool
  hc_maxRedirects :: nat
  hc_allowRetries :: bool
  hc_maxRetries :: int
  hc_keepAlive :: bool
  hc_disposed :: bool
  hc_agent :: "agent option"
  hc_proxyAgent :: "agent option"

definition sanitized_id :: "string \<Rightarrow> string" where
  "sanitized_id orchId =
     map (\<lambda>c. if (let n = of_char c :: nat in (97 \<le> n \<and> n \<le> 122) \<or> (65 \<le> n \<and> n \<le> 90) \<or> (48 \<le> n \<and> n \<le> 57))
                 \<or> c = CHR ''_'' \<or> c = CHR ''.'' \<or> c = CHR ''-'' then c else CHR ''_'') orchId"

definition getUserAgentWithOrchestrationId :: "world \<Rightarrow> string \<Rightarrow> string" where
  "getUserAgentWithOrchestrationId w userAgent =
     (let baseUserAgent = (if userAgent \<noteq> [] then userAgent else ''actions/http-client'');
          orchId = env_or ''ACTIONS_ORCHESTRATION_ID'' w in
      if orchId \<noteq> [] then baseUserAgent @ '' actions_orchestration_id/'' @ sanitized_id orchId
      else baseUserAgent)"

definition or_default :: "'a \<Rightarrow> 'a option \<Rightarrow> 'a" where
  "or_default d x = (case x of None \<Rightarrow> d | Some v \<Rightarrow> v)"

definition new_HttpClient :: "world \<Rightarrow> string \<Rightarrow> handler list \<Rightarrow> request_options option \<Rightarrow> http_client" where
  "new_HttpClient w userAgent hs ro =
     (let get = (\<lambda>d f. case ro of None \<Rightarrow> d | Some r \<Rightarrow> or_default d (f r)) in
      \<lparr>hc_userAgent = getUserAgentWithOrchestrationId w userAgent,
       hc_handlers = hs, hc_requestOptions = ro,
       hc_ignoreSslError = get False ro_ignoreSslError,
       hc_allowRedirects = get True ro_allowRedirects,
       hc_allowRedirectDowngrade = get False ro_allowRedirectDowngrade,
       hc_maxRedirects = (case ro of None \<Rightarrow> 50
          | Some r \<Rightarrow> (case ro_maxRedirects r of None \<Rightarrow> 50 | Some n \<Rightarrow> nat (max n 0))),
       hc_allowRetries = get False ro_allowRetries,
       hc_maxRetries = (case ro of None \<Rightarrow> 1 | Some r \<Rightarrow> or_default 1 (ro_maxRetries r)),
       hc_keepAlive = get False ro_keepAlive,
       hc_disposed = False, hc_agent = None, hc_proxyAgent = None\<rparr>)"

text \<open>\<open>dispose\<close>.\<close>

definition dispose :: "http_client \<Rightarrow> http_client" where
  "dispose c = c\<lparr>hc_disposed := True\<rparr>"

section \<open>Headers\<close>

definition lowercaseKeys :: "headers \<Rightarrow> headers" where
  "lowercaseKeys ob = foldl (\<lambda>c (k, v). obj_put c (to_lower k) v) [] ob"

text \<open>\<open>Object.assign(a, b)\<close>.\<close>

definition object_assign :: "(string \<times> 'a) list \<Rightarrow> (string \<times> 'a) list \<Rightarrow> (string \<times> 'a) list" where
  "object_assign a b = foldl (\<lambda>c (k, v). obj_put c k v) a b"

definition mergeHeaders :: "http_client \<Rightarrow> headers option \<Rightarrow> headers" where
  "mergeHeaders c hs =
     (case hc_requestOptions c of
        Some r \<Rightarrow>
          (case ro_headers r of
             Some rh \<Rightarrow> object_assign (object_assign [] (lowercaseKeys rh)) (lowercaseKeys (or_default [] hs))
           | None \<Rightarrow> lowercaseKeys (or_default [] hs))
      | None \<Rightarrow> lowercaseKeys (or_default [] hs))"

fun hval_truthy :: "hval \<Rightarrow> bool" where
  "hval_truthy (HStr s) = (s \<noteq> [])"
| "hval_truthy (HNum n) = (n \<noteq> 0)"
| "hval_truthy (HArr xs) = True"

definition client_header :: "http_client \<Rightarrow> string \<Rightarrow> hval option" where
  "client_header c header =
     (case hc_requestOptions c of
        None \<Rightarrow> None
      | Some r \<Rightarrow>
          (case ro_headers r of
             None \<Rightarrow> None
           | Some rh \<Rightarrow>
               (case obj_get (lowercaseKeys rh) header of
                  None \<Rightarrow> None
                | Some v \<Rightarrow> if hval_truthy v then Some v else None)))"

text \<open>\<open>_getExistingOrDefaultHeader\<close>: numbers become strings, arrays stay.\<close>

fun header_value :: "hval \<Rightarrow> hval" where
  "header_value (HNum n) = HStr (show_nat n)"
| "header_value v = v"

definition getExistingOrDefaultHeader :: "http_client \<Rightarrow> headers \<Rightarrow> string \<Rightarrow> hval \<Rightarrow> hval" where
  "getExistingOrDefaultHeader c additionalHeaders header dflt =
     (case obj_get additionalHeaders header of
        Some v \<Rightarrow> header_value v
      | None \<Rightarrow> (case client_header c header of Some v \<Rightarrow> header_value v | None \<Rightarrow> dflt))"

text \<open>\<open>_getExistingOrDefaultContentTypeHeader\<close>: always one string.\<close>

fun content_type_value :: "hval \<Rightarrow> string" where
  "content_type_value (HNum n) = show_nat n"
| "content_type_value (HArr xs) = join '', '' xs"
| "content_type_value (HStr s) = s"

definition getExistingOrDefaultContentTypeHeader :: "http_client \<Rightarrow> headers \<Rightarrow> string \<Rightarrow> string" where
  "getExistingOrDefaultContentTypeHeader c additionalHeaders dflt =
     (case obj_get additionalHeaders ''content-type'' of
        Some v \<Rightarrow> content_type_value v
      | None \<Rightarrow> (case client_header c ''content-type'' of Some v \<Rightarrow> content_type_value v | None \<Rightarrow> dflt))"

section \<open>Agents\<close>

definition usable :: "url option \<Rightarrow> bool" where
  "usable proxyUrl \<longleftrightarrow> (case proxyUrl of None \<Rightarrow> False | Some p \<Rightarrow> u_hostname p \<noteq> [])"

definition tunnel_agent :: "bool \<Rightarrow> url \<Rightarrow> agent" where
  "tunnel_agent usingSsl p =
     TunnelAgent usingSsl (u_protocol p = ''https:'') (u_hostname p) (u_port p)
       (if u_username p \<noteq> [] \<or> u_password p \<noteq> [] then Some (u_username p @ '':'' @ u_password p) else None)"

definition getAgent :: "host \<Rightarrow> world \<Rightarrow> http_client \<Rightarrow> url \<Rightarrow> (agent \<times> http_client) res" where
  "getAgent h w c parsedUrl =
     res_bind (getProxyUrl h w parsedUrl) (\<lambda>proxyUrl.
       (let useProxy = usable proxyUrl;
            cached = (if \<not> useProxy then hc_agent c else if hc_keepAlive c then hc_proxyAgent c else None);
            usingSsl = (u_protocol parsedUrl = ''https:'') in
        case cached of
          Some a \<Rightarrow> Inr (a, c)
        | None \<Rightarrow>
            if useProxy
            then (let a = tunnel_agent usingSsl (the proxyUrl) in Inr (a, c\<lparr>hc_proxyAgent := Some a\<rparr>))
            else (let a = DirectAgent usingSsl in Inr (a, c\<lparr>hc_agent := Some a\<rparr>))))"

section \<open>One request\<close>

definition prepareRequest ::
  "host \<Rightarrow> world \<Rightarrow> http_client \<Rightarrow> string \<Rightarrow> url \<Rightarrow> headers option \<Rightarrow> (http_req \<times> http_client) res" where
  "prepareRequest h w c method requestUrl hs =
     (let usingSsl = (u_protocol requestUrl = ''https:'') in
      res_bind (getAgent h w c requestUrl) (\<lambda>(agent, c').
        (let rq = \<lparr>rq_ssl = usingSsl, rq_host = u_hostname requestUrl,
                   rq_port = (if u_port requestUrl \<noteq> [] then nat_of_digits (u_port requestUrl)
                              else if usingSsl then 443 else 80),
                   rq_path = u_pathname requestUrl @ u_search requestUrl,
                   rq_method = method,
                   rq_headers = obj_put (mergeHeaders c hs) ''user-agent'' (HStr (hc_userAgent c)),
                   rq_agent = agent,
                   rq_unverified = (usingSsl \<and> hc_ignoreSslError c),
                   rq_data = None\<rparr> in
         Inr ((foldl (\<lambda>r ah. hd_prepareRequest ah r) rq (hc_handlers c))\<lparr>rq_ssl := usingSsl\<rparr>, c'))))"

text \<open>\<open>Buffer.byteLength(s, "utf8")\<close>.\<close>

definition utf8_length :: "string \<Rightarrow> nat" where
  "utf8_length s = sum_list (map (\<lambda>c. if (of_char c :: nat) < 128 then 1 else 2) s)"

text \<open>The first event settles the request; \<open>callbackCalled\<close> ignores the later ones.\<close>

fun first_result :: "string \<Rightarrow> req_event list \<Rightarrow> response res" where
  "first_result path [] = Inl Pending"
| "first_result path (RespEvent r # es) = Inr r"
| "first_result path (ErrorEvent e # es) = Inl e"
| "first_result path (TimeoutEvent # es) = Inl (Error (''Request timeout: '' @ path))"

definition requestRaw :: "host \<Rightarrow> http_req \<Rightarrow> string option \<Rightarrow> response action" where
  "requestRaw h rq data =
     (\<lambda>w. let rq' = (case data of
                None \<Rightarrow> rq
              | Some d \<Rightarrow> rq\<lparr>rq_headers := obj_put (rq_headers rq) ''Content-Length'' (HNum (utf8_length d)),
                            rq_data := Some d\<rparr>);
              hist = w_reqs w @ [rq'] in
          (first_result (rq_path rq) (h_http h hist), w\<lparr>w_reqs := hist\<rparr>))"

text \<open>Reading a body that breaks off never settles.\<close>

definition readBody :: "response \<Rightarrow> string res" where
  "readBody r = (case rs_end r of BodyEnd \<Rightarrow> Inr (concat (rs_chunks r)) | BodyError e \<Rightarrow> Inl Pending)"

definition performExponentialBackoff :: "nat \<Rightarrow> unit action" where
  "performExponentialBackoff retryNumber =
     sleep_ms (ExponentialBackoffTimeSlice * 2 ^ min ExponentialBackoffCeiling retryNumber)"

section \<open>request\<close>

definition strip_authorization :: "headers option \<Rightarrow> headers option" where
  "strip_authorization hs = map_option (filter (\<lambda>(k, v). to_lower k \<noteq> ''authorization'')) hs"

text \<open>What the loops carry: the response, the request it answers, the caller's headers and the client.\<close>

type_synonym exchange = "response \<times> http_req \<times> headers option \<times> http_client"

definition prepare :: "host \<Rightarrow> http_client \<Rightarrow> string \<Rightarrow> url \<Rightarrow> headers option \<Rightarrow> (http_req \<times> http_client) action" where
  "prepare h c verb u hs = (\<lambda>w. (prepareRequest h w c verb u hs, w))"

definition downgrade_message :: string where
  "downgrade_message =
     ''Redirect from HTTPS to HTTP protocol. This downgrade is not allowed for security reasons. If you want to allow this behavior, set the allowRedirectDowngrade option to true.''"

definition is_redirect :: "http_client \<Rightarrow> response \<Rightarrow> bool" where
  "is_redirect c r \<longleftrightarrow> rs_status r \<noteq> 0 \<and> rs_status r \<in> set HttpRedirectCodes \<and> hc_allowRedirects c"

fun follow_redirects ::
  "host \<Rightarrow> string \<Rightarrow> url \<Rightarrow> string option \<Rightarrow> nat \<Rightarrow> exchange \<Rightarrow> exchange action" where
  "follow_redirects h verb parsedUrl data 0 x = retE x"
| "follow_redirects h verb parsedUrl data (Suc redirectsRemaining) (resp, rq, hs, c) =
     (if is_redirect c resp
      then (case obj_get (rs_headers resp) ''location'' of
              None \<Rightarrow> retE (resp, rq, hs, c)
            | Some redirectUrl \<Rightarrow>
                if redirectUrl = [] then retE (resp, rq, hs, c)
                else (case h_url h redirectUrl of
                        None \<Rightarrow> throwE (TypeError ''Invalid URL'')
                      | Some parsedRedirectUrl \<Rightarrow>
                          if u_protocol parsedUrl = ''https:'' \<and>
                             u_protocol parsedUrl \<noteq> u_protocol parsedRedirectUrl \<and>
                             \<not> hc_allowRedirectDowngrade c
                          then throwE (Error downgrade_message)
                          else
                            bindE (liftE (readBody resp)) (\<lambda>_.
                            let hs' = (if u_hostname parsedRedirectUrl \<noteq> u_hostname parsedUrl
                                       then strip_authorization hs else hs) in
                            bindE (prepare h c verb parsedRedirectUrl hs') (\<lambda>(rq', c').
                            bindE (requestRaw h rq' data) (\<lambda>resp'.
                              follow_redirects h verb parsedUrl data redirectsRemaining (resp', rq', hs', c'))))))
      else retE (resp, rq, hs, c))"

text \<open>
  The \<open>do\<close> loop, with \<open>left\<close> tries to go after this one. The answer of an authentication handler is
  returned as it is.
\<close>

fun request_loop ::
  "host \<Rightarrow> string \<Rightarrow> url \<Rightarrow> string option \<Rightarrow> nat \<Rightarrow> nat \<Rightarrow> http_req \<Rightarrow> headers option \<Rightarrow> http_client
   \<Rightarrow> exchange action" where
  "request_loop h verb parsedUrl data left numTries rq hs c =
     bindE (requestRaw h rq data) (\<lambda>resp.
       if rs_status resp = 401
       then (case find (\<lambda>ah. hd_canHandleAuthentication ah resp) (hc_handlers c) of
               Some ah \<Rightarrow> bindE (hd_handleAuthentication ah rq) (\<lambda>resp'. retE (resp', rq, hs, c))
             | None \<Rightarrow> retE (resp, rq, hs, c))
       else
         bindE (follow_redirects h verb parsedUrl data (hc_maxRedirects c) (resp, rq, hs, c))
           (\<lambda>(resp', rq', hs', c').
            if rs_status resp' = 0 \<or> rs_status resp' \<notin> set HttpResponseRetryCodes
            then retE (resp', rq', hs', c')
            else (case left of
                    0 \<Rightarrow> retE (resp', rq', hs', c')
                  | Suc left' \<Rightarrow>
                      bindE (liftE (readBody resp')) (\<lambda>_.
                      thenE (performExponentialBackoff (Suc numTries))
                        (request_loop h verb parsedUrl data left' (Suc numTries) rq' hs' c')))))"

definition maxTries :: "http_client \<Rightarrow> string \<Rightarrow> int" where
  "maxTries c verb =
     (if hc_allowRetries c \<and> verb \<in> set RetryableHttpVerbs then hc_maxRetries c + 1 else 1)"

definition request ::
  "host \<Rightarrow> http_client \<Rightarrow> string \<Rightarrow> string \<Rightarrow> string option \<Rightarrow> headers option \<Rightarrow> exchange action" where
  "request h c verb requestUrl data hs =
     (if hc_disposed c then throwE (Error ''Client has already been disposed.'')
      else (case h_url h requestUrl of
              None \<Rightarrow> throwE (TypeError ''Invalid URL'')
            | Some parsedUrl \<Rightarrow>
                bindE (prepare h c verb parsedUrl hs) (\<lambda>(rq, c').
                  request_loop h verb parsedUrl data (nat (maxTries c verb - 1)) 0 rq hs c')))"

declare request_loop.simps [simp del]

text \<open>The verbs. \<open>additionalHeaders || {}\<close> makes an object of absent headers.\<close>

definition http_options :: "host \<Rightarrow> http_client \<Rightarrow> string \<Rightarrow> headers option \<Rightarrow> exchange action" where
  "http_options h c requestUrl hs = request h c ''OPTIONS'' requestUrl None (Some (or_default [] hs))"

definition http_get :: "host \<Rightarrow> http_client \<Rightarrow> string \<Rightarrow> headers option \<Rightarrow> exchange action" where
  "http_get h c requestUrl hs = request h c ''GET'' requestUrl None (Some (or_default [] hs))"

definition http_del :: "host \<Rightarrow> http_client \<Rightarrow> string \<Rightarrow> headers option \<Rightarrow> exchange action" where
  "http_del h c requestUrl hs = request h c ''DELETE'' requestUrl None (Some (or_default [] hs))"

definition http_post :: "host \<Rightarrow> http_client \<Rightarrow> string \<Rightarrow> string \<Rightarrow> headers option \<Rightarrow> exchange action" where
  "http_post h c requestUrl data hs = request h c ''POST'' requestUrl (Some data) (Some (or_default [] hs))"

definition http_patch :: "host \<Rightarrow> http_client \<Rightarrow> string \<Rightarrow> string \<Rightarrow> headers option \<Rightarrow> exchange action" where
  "http_patch h c requestUrl data hs = request h c ''PATCH'' requestUrl (Some data) (Some (or_default [] hs))"

definition http_put :: "host \<Rightarrow> http_client \<Rightarrow> string \<Rightarrow> string \<Rightarrow> headers option \<Rightarrow> exchange action" where
  "http_put h c requestUrl data hs = request h c ''PUT'' requestUrl (Some data) (Some (or_default [] hs))"

definition http_head :: "host \<Rightarrow> http_client \<Rightarrow> string \<Rightarrow> headers option \<Rightarrow> exchange action" where
  "http_head h c requestUrl hs = request h c ''HEAD'' requestUrl None (Some (or_default [] hs))"

section \<open>JSON requests\<close>

record typed_response =
  ty_statusCode :: nat
  ty_result :: json
  ty_headers :: "(string \<times> string) list"

text \<open>\<open>new Error(msg)\<close> turns its message into a string.\<close>

fun js_string :: "json \<Rightarrow> string" where
  "js_string JNull = ''null''"
| "js_string (JBool b) = (if b then ''true'' else ''false'')"
| "js_string (JNum n) = show_int n"
| "js_string (JStr s) = s"
| "js_string (JArr xs) = join '','' (map (\<lambda>x. if x = JNull then [] else js_string x) xs)"
| "js_string (JObj _) = ''[object Object]''"

definition json_message :: "json option \<Rightarrow> json option" where
  "json_message ob =
     (case ob of Some (JObj ps) \<Rightarrow>
        (case obj_get ps ''message'' of
           Some m \<Rightarrow> if truthy (Some m) then Some m else None | None \<Rightarrow> None)
      | _ \<Rightarrow> None)"

text \<open>
  A 404 resolves at once with an empty result. A body that does not parse is no error by itself.
\<close>

definition processResponse :: "host \<Rightarrow> response \<Rightarrow> request_options option \<Rightarrow> typed_response res" where
  "processResponse h res options =
     (let statusCode = rs_status res in
      if statusCode = 404 then Inr \<lparr>ty_statusCode = statusCode, ty_result = JNull, ty_headers = []\<rparr>
      else res_bind (readBody res) (\<lambda>contents.
        (let dates = (case options of None \<Rightarrow> False | Some r \<Rightarrow> ro_deserializeDates r);
             parsed = (if contents \<noteq> [] then h_json h dates contents else None);
             hds = (if contents \<noteq> [] \<and> parsed = None then [] else rs_headers res) in
         if statusCode > 299
         then Inl (HttpClientError
                (case json_message parsed of
                   Some m \<Rightarrow> js_string m
                 | None \<Rightarrow> if contents \<noteq> [] then contents
                           else ''Failed request: ('' @ show_nat statusCode @ '')'') statusCode)
         else Inr \<lparr>ty_statusCode = statusCode,
                   ty_result = (case parsed of Some j \<Rightarrow> j | None \<Rightarrow> JNull),
                   ty_headers = hds\<rparr>)))"

definition with_accept :: "http_client \<Rightarrow> headers \<Rightarrow> headers" where
  "with_accept c hs =
     obj_put hs ''accept'' (getExistingOrDefaultHeader c hs ''accept'' (HStr ''application/json''))"

definition with_content_type :: "http_client \<Rightarrow> headers \<Rightarrow> headers" where
  "with_content_type c hs =
     obj_put hs ''content-type'' (HStr (getExistingOrDefaultContentTypeHeader c hs ''application/json''))"

definition http_getJson :: "host \<Rightarrow> http_client \<Rightarrow> string \<Rightarrow> headers \<Rightarrow> typed_response action" where
  "http_getJson h c requestUrl hs =
     bindE (http_get h c requestUrl (Some (with_accept c hs)))
       (\<lambda>(res, _). liftE (processResponse h res (hc_requestOptions c)))"

definition http_postJson :: "host \<Rightarrow> http_client \<Rightarrow> string \<Rightarrow> json \<Rightarrow> headers \<Rightarrow> typed_response action" where
  "http_postJson h c requestUrl ob hs =
     bindE (http_post h c requestUrl (stringify_indent 2 [] ob) (Some (with_content_type c (with_accept c hs))))
       (\<lambda>(res, _). liftE (processResponse h res (hc_requestOptions c)))"

definition http_putJson :: "host \<Rightarrow> http_client \<Rightarrow> string \<Rightarrow> json \<Rightarrow> headers \<Rightarrow> typed_response action" where
  "http_putJson h c requestUrl ob hs =
     bindE (http_put h c requestUrl (stringify_indent 2 [] ob) (Some (with_content_type c (with_accept c hs))))
       (\<lambda>(res, _). liftE (processResponse h res (hc_requestOptions c)))"

definition http_patchJson :: "host \<Rightarrow> http_client \<Rightarrow> string \<Rightarrow> json \<Rightarrow> headers \<Rightarrow> typed_response action" where
  "http_patchJson h c requestUrl ob hs =
     bindE (http_patch h c requestUrl (stringify_indent 2 [] ob) (Some (with_content_type c (with_accept c hs))))
       (\<lambda>(res, _). liftE (processResponse h res (hc_requestOptions c)))"

end
