(* ===== verification/Command.thy ===== *)
theory Command
  imports World Json
begin

text \<open>
  The workflow command layer of the action: \<open>@actions/core\<close>'s \<open>utils.js\<close>, \<open>command.js\<close>,
  \<open>file-command.js\<close> and \<open>core.js\<close>, as bundled into \<open>dist/index.js\<close>. A command is one line
  \<open>::name key=value,...::message\<close> on standard output, which the runner parses.

  \<open>parse_command\<close> is the abstract side, the documented reading of such a line. The lemmas show that
  escaping keeps a command on one line and that what the runner reads back is the name, the
  properties and the message the program passed.
\<close>

section \<open>utils.js\<close>

fun toCommandValue :: "json option \<Rightarrow> string" where
  "toCommandValue None = []"
| "toCommandValue (Some JNull) = []"
| "toCommandValue (Some (JStr s)) = s"
| "toCommandValue (Some j) = stringify j"

definition toCommandProperties :: "jsobj \<Rightarrow> jsobj" where
  "toCommandProperties ps =
     (if ps = [] then []
      else (let get = (\<lambda>k. case obj_get ps k of None \<Rightarrow> None | Some v \<Rightarrow> v) in
        [(''title'', get ''title''),
         (''file'', get ''file''),
         (''line'', get ''startLine''),
         (''endLine'', get ''endLine''),
         (''col'', get ''startColumn''),
         (''endColumn'', get ''endColumn'')]))"

section \<open>command.js\<close>

definition CMD_STRING :: string where
  "CMD_STRING = ''::''"

record command =
  cmd_command :: string
  cmd_properties :: jsobj
  cmd_message :: "json option"

definition new_Command :: "string \<Rightarrow> jsobj \<Rightarrow> json option \<Rightarrow> command" where
  "new_Command command properties message =
     \<lparr>cmd_command = (if command = [] then ''missing.command'' else command),
      cmd_properties = properties, cmd_message = message\<rparr>"

definition escapeData :: "json option \<Rightarrow> string" where
  "escapeData s =
     replace_all (CHR 0x0A) ''%0A'' (replace_all (CHR 0x0D) ''%0D''
       (replace_all (CHR ''%'') ''%25'' (toCommandValue s)))"

definition escapeProperty :: "json option \<Rightarrow> string" where
  "escapeProperty s =
     replace_all (CHR '','') ''%2C'' (replace_all (CHR '':'') ''%3A''
       (replace_all (CHR 0x0A) ''%0A'' (replace_all (CHR 0x0D) ''%0D''
         (replace_all (CHR ''%'') ''%25'' (toCommandValue s)))))"

text \<open>The loop over the properties, with its \<open>first\<close> flag.\<close>

fun command_props :: "bool \<Rightarrow> jsobj \<Rightarrow> string" where
  "command_props first [] = []"
| "command_props first ((key, val) # ps) =
     (if truthy val
      then (if first then [] else '','') @ key @ ''='' @ escapeProperty val @ command_props False ps
      else command_props first ps)"

definition command_toString :: "command \<Rightarrow> string" where
  "command_toString c =
     CMD_STRING @ cmd_command c @
     (if cmd_properties c \<noteq> [] then '' '' @ command_props True (cmd_properties c) else []) @
     CMD_STRING @ escapeData (cmd_message c)"

definition issueCommand :: "host \<Rightarrow> string \<Rightarrow> jsobj \<Rightarrow> json option \<Rightarrow> unit action" where
  "issueCommand h command properties message =
     write_out (command_toString (new_Command command properties message) @ eol h)"

section \<open>file-command.js\<close>

text \<open>Appending to a path that is no regular file throws \<open>EISDIR\<close>.\<close>

definition append_file :: "host \<Rightarrow> string \<Rightarrow> string \<Rightarrow> unit action" where
  "append_file h p s =
     thenE (fs_check h ''appendFile'' p)
       (\<lambda>w. case w_fs w p of
          Some (File d m u g) \<Rightarrow> (Inr (), w\<lparr>w_fs := (w_fs w)(p \<mapsto> File (d @ s) m u g)\<rparr>)
        | Some Dir \<Rightarrow> (Inl (SysError ''EISDIR'' ''EISDIR: illegal operation on a directory, open''), w)
        | None \<Rightarrow> (Inr (), w\<lparr>w_fs := (w_fs w)(p \<mapsto> File s 438 0 0)\<rparr>))"

definition issueFileCommand :: "host \<Rightarrow> string \<Rightarrow> json option \<Rightarrow> unit action" where
  "issueFileCommand h command message =
     bindE (getE (env_or (''GITHUB_'' @ command))) (\<lambda>filePath.
       if filePath = []
       then throwE (Error (''Unable to find environment variable for file command '' @ command))
       else bindE (getE (fs_exists filePath)) (\<lambda>ex.
         if \<not> ex then throwE (Error (''Missing file at path: '' @ filePath))
         else append_file h filePath (toCommandValue message @ eol h)))"

section \<open>core.js\<close>

text \<open>\<open>ExitCode.Failure\<close>.\<close>

definition ExitCode_Failure :: nat where
  "ExitCode_Failure = 1"

text \<open>An unset \<open>PATH\<close> is interpolated as the text \<open>undefined\<close>.\<close>

definition addPath :: "host \<Rightarrow> string \<Rightarrow> unit action" where
  "addPath h inputPath =
     bindE (getE (env_or ''GITHUB_PATH'')) (\<lambda>filePath.
       thenE (if filePath \<noteq> [] then issueFileCommand h ''PATH'' (Some (JStr inputPath))
              else issueCommand h ''add-path'' [] (Some (JStr inputPath)))
         (bindE (getE (get_env ''PATH'')) (\<lambda>old.
            set_env ''PATH'' (inputPath @ [path_delimiter h] @
              (case old of None \<Rightarrow> ''undefined'' | Some v \<Rightarrow> v)))))"

record input_options =
  io_required :: bool
  io_trimWhitespace :: "bool option"

definition getInput :: "string \<Rightarrow> input_options option \<Rightarrow> string action" where
  "getInput name options =
     bindE (getE (env_or (''INPUT_'' @ to_upper (replace_all CHR '' '' ''_'' name)))) (\<lambda>val.
       case options of
         None \<Rightarrow> retE (js_trim val)
       | Some r \<Rightarrow>
           if io_required r \<and> val = []
           then throwE (Error (''Input required and not supplied: '' @ name))
           else if io_trimWhitespace r = Some False then retE val
           else retE (js_trim val))"

text \<open>\<open>message\<close> of \<open>error\<close> and \<open>setFailed\<close>: an \<open>Error\<close>, shown by \<open>toString\<close>, or a string.\<close>

datatype failure = FailError exn | FailText string

fun failure_text :: "failure \<Rightarrow> string" where
  "failure_text (FailError e) = err_to_string e"
| "failure_text (FailText s) = s"

definition core_error :: "host \<Rightarrow> failure \<Rightarrow> jsobj \<Rightarrow> unit action" where
  "core_error h message properties =
     issueCommand h ''error'' (toCommandProperties properties) (Some (JStr (failure_text message)))"

definition setFailed :: "host \<Rightarrow> failure \<Rightarrow> unit action" where
  "setFailed h message = thenE (set_exit_code ExitCode_Failure) (core_error h message [])"

definition isDebug :: "world \<Rightarrow> bool" where
  "isDebug w \<longleftrightarrow> get_env ''RUNNER_DEBUG'' w = Some ''1''"

definition debug :: "host \<Rightarrow> string \<Rightarrow> unit action" where
  "debug h message = issueCommand h ''debug'' [] (Some (JStr message))"

definition info :: "host \<Rightarrow> string \<Rightarrow> unit action" where
  "info h message = write_out (message @ eol h)"

text \<open>\<open>console.log\<close> ends its line with a line feed on every platform.\<close>

definition console_log :: "string \<Rightarrow> unit action" where
  "console_log message = write_out (message @ [CHR 0x0A])"

section \<open>Escaping\<close>

definition esc_data_char :: "char \<Rightarrow> string" where
  "esc_data_char c =
     (if c = CHR ''%'' then ''%25'' else if c = CHR 0x0D then ''%0D''
      else if c = CHR 0x0A then ''%0A'' else [c])"

definition esc_property_char :: "char \<Rightarrow> string" where
  "esc_property_char c =
     (if c = CHR '':'' then ''%3A'' else if c = CHR '','' then ''%2C'' else esc_data_char c)"

text \<open>The runner's side: a \<open>%\<close> followed by a known code stands for one character.\<close>

fun unescape :: "(string \<times> char) list \<Rightarrow> string \<Rightarrow> string" where
  "unescape t (a # b # c # s) =
     (if a = CHR ''%''
      then (case map_of t [b, c] of
              Some d \<Rightarrow> d # unescape t s
            | None \<Rightarrow> a # unescape t (b # c # s))
      else a # unescape t (b # c # s))"
| "unescape t s = s"

definition data_codes :: "(string \<times> char) list" where
  "data_codes = [(''25'', CHR ''%''), (''0D'', CHR 0x0D), (''0A'', CHR 0x0A)]"

definition property_codes :: "(string \<times> char) list" where
  "property_codes = data_codes @ [(''3A'', CHR '':''), (''2C'', CHR '','')]"

lemma unescape_plain: "c \<noteq> CHR ''%'' \<Longrightarrow> unescape t (c # s) = c # unescape t s"
  by (cases "(t, c # s)" rule: unescape.cases) auto

lemma escapeData_chars: "escapeData v = concat (map esc_data_char (toCommandValue v))"
proof -
  have "replace_all (CHR 0x0A) ''%0A'' (replace_all (CHR 0x0D) ''%0D''
       (replace_all (CHR ''%'') ''%25'' s)) = concat (map esc_data_char s)" for s
    by (induction s) (auto simp: esc_data_char_def)
  then show ?thesis by (simp add: escapeData_def)
qed

lemma escapeProperty_chars: "escapeProperty v = concat (map esc_property_char (toCommandValue v))"
proof -
  have "replace_all (CHR '','') ''%2C'' (replace_all (CHR '':'') ''%3A''
       (replace_all (CHR 0x0A) ''%0A'' (replace_all (CHR 0x0D) ''%0D''
         (replace_all (CHR ''%'') ''%25'' s)))) = concat (map esc_property_char s)" for s
    by (induction s) (auto simp: esc_property_char_def esc_data_char_def)
  then show ?thesis by (simp add: escapeProperty_def)
qed

interpretation esc_data: char_escape esc_data_char "unescape data_codes" "{CHR 0x0A, CHR 0x0D}"
  by unfold_locales (auto simp: esc_data_char_def data_codes_def unescape_plain)

interpretation esc_prop: char_escape esc_property_char "unescape property_codes"
    "{CHR 0x0A, CHR 0x0D, CHR '':'', CHR '',''}"
  by unfold_locales
     (auto simp: esc_property_char_def esc_data_char_def property_codes_def data_codes_def unescape_plain)

lemma unescape_escapeData [simp]: "unescape data_codes (escapeData v) = toCommandValue v"
  by (simp add: escapeData_chars esc_data.dec_concat)

lemma unescape_escapeProperty [simp]: "unescape property_codes (escapeProperty v) = toCommandValue v"
  by (simp add: escapeProperty_chars esc_prop.dec_concat)

lemma escapeData_one_line: "CHR 0x0A \<notin> set (escapeData v)" "CHR 0x0D \<notin> set (escapeData v)"
  unfolding escapeData_chars by (rule esc_data.concat_avoids_char, simp)+

lemma escapeProperty_plain:
  "CHR 0x0A \<notin> set (escapeProperty v)" "CHR 0x0D \<notin> set (escapeProperty v)"
  "CHR '':'' \<notin> set (escapeProperty v)" "CHR '','' \<notin> set (escapeProperty v)"
  unfolding escapeProperty_chars by (rule esc_prop.concat_avoids_char, simp)+

section \<open>Reading a command back\<close>

definition parse_property :: "string \<Rightarrow> string \<times> string" where
  "parse_property kv =
     (takeWhile (\<lambda>c. c \<noteq> CHR ''='') kv,
      unescape property_codes (drop 1 (dropWhile (\<lambda>c. c \<noteq> CHR ''='') kv)))"

definition parse_command :: "string \<Rightarrow> (string \<times> (string \<times> string) list \<times> string) option" where
  "parse_command s =
     (if \<not> starts_with s ''::'' then None
      else (case index_of (drop 2 s) ''::'' of
              None \<Rightarrow> None
            | Some i \<Rightarrow>
                (let head = take i (drop 2 s); data = drop (i + 2) (drop 2 s) in
                 Some (takeWhile (\<lambda>c. c \<noteq> CHR '' '') head,
                       map parse_property (filter (\<lambda>p. p \<noteq> [])
                         (split_char CHR '','' (drop 1 (dropWhile (\<lambda>c. c \<noteq> CHR '' '') head)))),
                       unescape data_codes data))))"

text \<open>The names the program uses: no separators in the command name or in a property name.\<close>

definition plain_command :: "command \<Rightarrow> bool" where
  "plain_command c \<longleftrightarrow>
     (\<forall>x \<in> set (cmd_command c). x \<notin> {CHR '' '', CHR '':'', CHR 0x0A, CHR 0x0D}) \<and>
     (\<forall>k \<in> set (map fst (cmd_properties c)).
        \<forall>x \<in> set k. x \<notin> {CHR ''='', CHR '','', CHR '':'', CHR 0x0A, CHR 0x0D})"

text \<open>What the line carries: the properties with a truthy value.\<close>

definition carried :: "jsobj \<Rightarrow> (string \<times> string) list" where
  "carried ps = map (\<lambda>(k, v). (k, toCommandValue v)) (filter (\<lambda>(k, v). truthy v) ps)"

definition prop_text :: "string \<times> json option \<Rightarrow> string" where
  "prop_text p = fst p @ ''='' @ escapeProperty (snd p)"

lemma prop_text_pair: "prop_text (k, v) = k @ ''='' @ escapeProperty v"
  by (simp add: prop_text_def)

lemma join_Cons_concat: "join sep (x # xs) = x @ concat (map (\<lambda>y. sep @ y) xs)"
  by (induction xs arbitrary: x) auto

lemma command_props_False:
  "command_props False ps =
     concat (map (\<lambda>y. '','' @ y) (map prop_text (filter (\<lambda>p. truthy (snd p)) ps)))"
  by (induction False ps rule: command_props.induct) (auto simp: prop_text_def)

lemma command_props_True:
  "command_props True ps = join '','' (map prop_text (filter (\<lambda>p. truthy (snd p)) ps))"
proof (induction ps)
  case Nil
  then show ?case by simp
next
  case (Cons p ps)
  then show ?case
    by (cases p) (simp add: join_Cons_concat command_props_False prop_text_pair)
qed

lemma index_of_sep: "CHR '':'' \<notin> set a \<Longrightarrow> index_of (a @ ''::'' @ b) ''::'' = Some (length a)"
  by (induction a) auto

lemma parse_property_text:
  "CHR ''='' \<notin> set (fst p) \<Longrightarrow> parse_property (prop_text p) = (fst p, toCommandValue (snd p))"
proof -
  assume k: "CHR ''='' \<notin> set (fst p)"
  then have "takeWhile (\<lambda>c. c \<noteq> CHR ''='') (prop_text p) = fst p"
    and "dropWhile (\<lambda>c. c \<noteq> CHR ''='') (prop_text p) = ''='' @ escapeProperty (snd p)"
    by (auto simp: prop_text_def takeWhile_append dropWhile_append intro!: takeWhile_eq_all_conv [THEN iffD2])
  then show ?thesis by (simp add: parse_property_def)
qed

lemma prop_text_avoids:
  assumes "\<forall>x \<in> set (fst p). x \<notin> {CHR ''='', CHR '','', CHR '':'', CHR 0x0A, CHR 0x0D}"
  shows "CHR '','' \<notin> set (prop_text p)" "CHR '':'' \<notin> set (prop_text p)"
    "CHR 0x0A \<notin> set (prop_text p)" "CHR 0x0D \<notin> set (prop_text p)"
  using assms escapeProperty_plain [of "snd p"] by (auto simp: prop_text_def)

lemma prop_text_not_Nil [simp]: "prop_text p \<noteq> []"
  by (simp add: prop_text_def)

lemma set_join: "x \<in> set (join sep xs) \<Longrightarrow> x \<in> set sep \<or> (\<exists>y \<in> set xs. x \<in> set y)"
  by (induction sep xs rule: join.induct) auto

lemma command_props_avoids:
  assumes "\<forall>k \<in> set (map fst ps). \<forall>x \<in> set k. x \<notin> {CHR ''='', CHR '','', CHR '':'', CHR 0x0A, CHR 0x0D}"
    and "c \<in> {CHR '':'', CHR 0x0A, CHR 0x0D}"
  shows "c \<notin> set (command_props True ps)"
proof
  assume "c \<in> set (command_props True ps)"
  then have "c = CHR '','' \<or> (\<exists>p \<in> set ps. c \<in> set (prop_text p))"
    unfolding command_props_True by (auto dest!: set_join)
  with assms prop_text_avoids show False by fastforce
qed

lemma parse_props:
  assumes "\<forall>k \<in> set (map fst ps). \<forall>x \<in> set k. x \<notin> {CHR ''='', CHR '','', CHR '':'', CHR 0x0A, CHR 0x0D}"
  shows "map parse_property (filter (\<lambda>p. p \<noteq> []) (split_char CHR '','' (command_props True ps))) = carried ps"
proof -
  let ?qs = "filter (\<lambda>p. truthy (snd p)) ps"
  have key: "\<forall>x \<in> set (fst p). x \<notin> {CHR ''='', CHR '','', CHR '':'', CHR 0x0A, CHR 0x0D}" if "p \<in> set ?qs" for p
    using assms that by auto
  have "parse_property (prop_text p) = (fst p, toCommandValue (snd p))" if "p \<in> set ?qs" for p
    using key [OF that] by (intro parse_property_text) auto
  then have "map parse_property (map prop_text ?qs) = map (\<lambda>p. (fst p, toCommandValue (snd p))) ?qs"
    by simp
  then have eq: "map parse_property (map prop_text ?qs) = carried ps"
    by (simp add: carried_def case_prod_unfold)
  show ?thesis
  proof (cases "?qs = []")
    case True
    then show ?thesis by (simp add: command_props_True carried_def case_prod_unfold)
  next
    case False
    then have "split_char CHR '','' (command_props True ps) = map prop_text ?qs"
      unfolding command_props_True using key prop_text_avoids(1)
      by (intro split_join) auto
    with eq show ?thesis by (simp add: filter_id_conv [THEN iffD2])
  qed
qed

lemma parse_command_toString:
  assumes "plain_command c"
  shows "parse_command (command_toString c) =
     Some (cmd_command c, carried (cmd_properties c), toCommandValue (cmd_message c))"
proof -
  let ?p = "command_props True (cmd_properties c)"
  let ?mid = "if cmd_properties c \<noteq> [] then '' '' @ ?p else []"
  let ?head = "cmd_command c @ ?mid"
  have keys: "\<forall>k \<in> set (map fst (cmd_properties c)).
      \<forall>x \<in> set k. x \<notin> {CHR ''='', CHR '','', CHR '':'', CHR 0x0A, CHR 0x0D}"
    and name: "CHR '' '' \<notin> set (cmd_command c)" "CHR '':'' \<notin> set (cmd_command c)"
    using assms by (auto simp: plain_command_def)
  have str: "command_toString c = ''::'' @ ?head @ ''::'' @ escapeData (cmd_message c)"
    by (simp add: command_toString_def CMD_STRING_def)
  have colon: "CHR '':'' \<notin> set ?head"
    using command_props_avoids [OF keys, of "CHR '':''"] name by auto
  have nm: "takeWhile (\<lambda>x. x \<noteq> CHR '' '') ?head = cmd_command c"
    using name(1) by (auto simp: takeWhile_append intro!: takeWhile_eq_all_conv [THEN iffD2])
  have ps: "drop 1 (dropWhile (\<lambda>x. x \<noteq> CHR '' '') ?head) = ?p"
    using name(1) by (auto simp: dropWhile_append)
  show ?thesis
    using index_of_sep [OF colon, of "escapeData (cmd_message c)"] parse_props [OF keys] nm ps
    unfolding parse_command_def str by simp
qed

lemma command_one_line:
  assumes "plain_command c" and "x = CHR 0x0A \<or> x = CHR 0x0D"
  shows "x \<notin> set (command_toString c)"
proof -
  have keys: "\<forall>k \<in> set (map fst (cmd_properties c)).
      \<forall>x \<in> set k. x \<notin> {CHR ''='', CHR '','', CHR '':'', CHR 0x0A, CHR 0x0D}"
    using assms by (auto simp: plain_command_def)
  show ?thesis
    using assms escapeData_one_line [of "cmd_message c"] command_props_avoids [OF keys, of x]
    by (auto simp: command_toString_def CMD_STRING_def plain_command_def)
qed

section \<open>What the operations of core.js do to the world\<close>

lemma issueCommand_apply:
  "issueCommand h c ps m w =
     (Inr (), w\<lparr>w_out := w_out w @ command_toString (new_Command c ps m) @ eol h\<rparr>)"
  by (simp add: issueCommand_def write_out_def)

lemma keeps_issueCommand [keeps_rules]:
  "(\<And>w x. g (w\<lparr>w_out := x\<rparr>) = g w) \<Longrightarrow> keeps g (issueCommand h c ps m)"
  by (simp add: issueCommand_def keeps_write_out)

lemma keeps_debug [keeps_rules]: "(\<And>w x. g (w\<lparr>w_out := x\<rparr>) = g w) \<Longrightarrow> keeps g (debug h m)"
  by (simp add: debug_def keeps_issueCommand)

lemma keeps_info [keeps_rules]: "(\<And>w x. g (w\<lparr>w_out := x\<rparr>) = g w) \<Longrightarrow> keeps g (info h m)"
  by (simp add: info_def keeps_write_out)

lemma keeps_console_log [keeps_rules]:
  "(\<And>w x. g (w\<lparr>w_out := x\<rparr>) = g w) \<Longrightarrow> keeps g (console_log m)"
  by (simp add: console_log_def keeps_write_out)

lemma debug_apply: "debug h m w =
    (Inr (), w\<lparr>w_out := w_out w @ command_toString (new_Command ''debug'' [] (Some (JStr m))) @ eol h\<rparr>)"
  by (simp add: debug_def issueCommand_apply)

lemma setFailed_apply: "setFailed h m w =
    (Inr (), w\<lparr>w_exitCode := Some 1,
       w_out := w_out w @ command_toString (new_Command ''error'' [] (Some (JStr (failure_text m)))) @ eol h\<rparr>)"
  by (simp add: setFailed_def thenE_def bindE_def set_exit_code_def core_error_def
      toCommandProperties_def issueCommand_apply ExitCode_Failure_def)

lemma keeps_getInput [keeps_rules]: "keeps g (getInput n ops)"
  unfolding getInput_def by (intro keeps_rules)

lemma getInput_default: "getInput name None w =
    (Inr (js_trim (env_or (''INPUT_'' @ to_upper (replace_all CHR '' '' ''_'' name)) w)), w)"
  by (simp add: getInput_def bindE_def)

lemma keeps_append_file [keeps_rules]:
  "(\<And>w x. g (w\<lparr>w_fs := x\<rparr>) = g w) \<Longrightarrow> keeps g (append_file h p s)"
  unfolding append_file_def
  by (intro keeps_thenE keeps_fs_check) (auto simp: keeps_def split: option.splits node.splits)

lemma keeps_issueFileCommand [keeps_rules]:
  "(\<And>w x. g (w\<lparr>w_fs := x\<rparr>) = g w) \<Longrightarrow> keeps g (issueFileCommand h c m)"
  unfolding issueFileCommand_def by (intro keeps_rules)

text \<open>\<open>addPath\<close> that returns has put the directory in front of this process's \<open>PATH\<close>.\<close>

lemma addPath_env:
  assumes "addPath h p w = (Inr (), w')"
  shows "w_env w' = (w_env w)(''PATH'' \<mapsto> p @ [path_delimiter h] @
           (case w_env w ''PATH'' of None \<Rightarrow> ''undefined'' | Some v \<Rightarrow> v))"
proof -
  let ?first = "if env_or ''GITHUB_PATH'' w \<noteq> [] then issueFileCommand h ''PATH'' (Some (JStr p))
      else issueCommand h ''add-path'' [] (Some (JStr p))"
  obtain r w1 where f: "?first w = (r, w1)" by (cases "?first w")
  have "keeps w_env ?first" by (intro keeps_rules) simp_all
  from keepsD [OF this f] have env: "w_env w1 = w_env w" .
  from assms f env show ?thesis
    by (cases r) (auto simp: addPath_def bindE_def thenE_def set_env_def get_env_def)
qed

section \<open>Properties\<close>



text \<open>
  A command is written as one line: no value passed as a property or as the message can end the
  line and start another command.
\<close>

theorem issued_command_is_one_line:
  assumes "plain_command (new_Command command properties message)"
  shows "\<exists>line. issueCommand h command properties message w = (Inr (), w\<lparr>w_out := w_out w @ line @ eol h\<rparr>) \<and>
     CHR 0x0A \<notin> set line \<and> CHR 0x0D \<notin> set line"
  using command_one_line [OF assms] by (auto simp: issueCommand_apply)

theorem issued_command_is_one_line_witness:
  "\<forall>h w. \<exists>line. issueCommand h ''error'' [] (Some (JStr [CHR 0x0A, CHR '':'', CHR '':''])) w =
      (Inr (), w\<lparr>w_out := w_out w @ line @ eol h\<rparr>) \<and> CHR 0x0A \<notin> set line \<and> CHR 0x0D \<notin> set line"
  by (intro allI issued_command_is_one_line) (simp add: plain_command_def new_Command_def)

end
