(* ===== verification/IoUtil.thy ===== *)
theory IoUtil
  imports Command Machine
begin

text \<open>
  \<open>@actions/io\<close>: \<open>io-util.js\<close> (stat-based probing for executables) and \<open>io.js\<close> (\<open>rmRF\<close>, \<open>mkdirP\<close>,
  \<open>which\<close>, \<open>findInPath\<close>). The file system is the map of the world; a call the host refuses
  (\<open>h_fail\<close>) throws.

  The lemmas show that probing changes nothing but the log, and on a Unix host what \<open>which\<close> finds:
  the first directory of \<open>PATH\<close> in which the tool is an executable regular file.
\<close>

fun err_code :: "exn \<Rightarrow> string option" where
  "err_code (SysError c m) = Some c"
| "err_code e = None"

section \<open>File system calls\<close>

definition fs_stat :: "host \<Rightarrow> string \<Rightarrow> node action" where
  "fs_stat h p = thenE (fs_check h ''stat'' p)
     (\<lambda>w. case w_fs w p of
        None \<Rightarrow> (Inl (SysError ''ENOENT'' (''ENOENT: no such file or directory, stat '' @ p)), w)
      | Some n \<Rightarrow> (Inr n, w))"

definition fs_readdir :: "host \<Rightarrow> string \<Rightarrow> string list action" where
  "fs_readdir h p = thenE (fs_check h ''readdir'' p) (getE (\<lambda>w. h_readdir h (w_fs w) p))"

text \<open>The directories above \<open>p\<close>: its prefixes that end before a separator.\<close>

definition ancestors :: "char \<Rightarrow> string \<Rightarrow> string list" where
  "ancestors sep p = map (\<lambda>i. take i p) (filter (\<lambda>i. p ! i = sep) [1..<length p])"

fun is_file :: "node option \<Rightarrow> bool" where
  "is_file (Some (File _ _ _ _)) = True"
| "is_file _ = False"

text \<open>\<open>mkdir(p, {recursive: true})\<close> and \<open>rm(p, {recursive: true, force: true})\<close>.\<close>

definition fs_mkdir :: "host \<Rightarrow> string \<Rightarrow> unit action" where
  "fs_mkdir h p = thenE (fs_check h ''mkdir'' p)
     (\<lambda>w. if list_ex (\<lambda>q. is_file (w_fs w q)) (p # ancestors (path_sep h) p)
          then (Inl (SysError ''EEXIST'' (''EEXIST: file already exists, mkdir '' @ p)), w)
          else (Inr (), w\<lparr>w_fs := (\<lambda>q. if q \<in> set (p # ancestors (path_sep h) p) then Some Dir
                                       else w_fs w q)\<rparr>))"

definition fs_rm :: "host \<Rightarrow> string \<Rightarrow> unit action" where
  "fs_rm h p = thenE (fs_check h ''rm'' p)
     (modifyE (\<lambda>w. w\<lparr>w_fs := (\<lambda>q. if q = p \<or> starts_with q (p @ [path_sep h]) then None
                                  else w_fs w q)\<rparr>))"

section \<open>io-util.js\<close>

definition io_exists :: "host \<Rightarrow> string \<Rightarrow> bool action" where
  "io_exists h fsPath =
     catchE (thenE (fs_stat h fsPath) (retE True))
       (\<lambda>err. if err_code err = Some ''ENOENT'' then retE False else throwE err)"

text \<open>A run of two or more separators becomes one.\<close>

fun collapse :: "char \<Rightarrow> string \<Rightarrow> string" where
  "collapse c (a # b # s) = (if a = c \<and> b = c then collapse c (b # s) else a # collapse c (b # s))"
| "collapse c s = s"

definition normalizeSeparators :: "host \<Rightarrow> string \<Rightarrow> string" where
  "normalizeSeparators h p =
     (if is_windows h then collapse CHR 0x5C (replace_all CHR ''/'' [CHR 0x5C] p)
      else collapse CHR ''/'' p)"

definition is_letter :: "char \<Rightarrow> bool" where
  "is_letter c \<longleftrightarrow> (let n = of_char c :: nat in (65 \<le> n \<and> n \<le> 90) \<or> (97 \<le> n \<and> n \<le> 122))"

definition drive_prefix :: "string \<Rightarrow> bool" where
  "drive_prefix p = (case p of a # b # _ \<Rightarrow> is_letter a \<and> b = CHR '':'' | _ \<Rightarrow> False)"

definition isRooted :: "host \<Rightarrow> string \<Rightarrow> bool res" where
  "isRooted h p0 =
     (let p = normalizeSeparators h p0 in
      if p = [] then Inl (Error (''isRooted() parameter '' @ [CHR 0x22] @ ''p'' @ [CHR 0x22] @ '' cannot be empty''))
      else if is_windows h then Inr (starts_with p [CHR 0x5C] \<or> drive_prefix p)
      else Inr (starts_with p ''/''))"

text \<open>\<open>mode & 1\<close>, \<open>mode & 8\<close> and \<open>mode & 64\<close> are the execute bits of other, group and owner.\<close>

fun isUnixExecutable :: "host \<Rightarrow> node \<Rightarrow> bool" where
  "isUnixExecutable h Dir = False"
| "isUnixExecutable h (File d m u g) \<longleftrightarrow>
     bit m 0 \<or> (bit m 3 \<and> h_gid h \<noteq> None \<and> h_gid h = Some g)
     \<or> (bit m 6 \<and> h_uid h \<noteq> None \<and> h_uid h = Some u)"

definition stat_failed :: "string \<Rightarrow> exn \<Rightarrow> string" where
  "stat_failed filePath err =
     ''Unexpected error attempting to determine if executable file exists '' @ [CHR 0x27] @ filePath @
     [CHR 0x27] @ '': '' @ err_to_string err"

definition try_stat :: "host \<Rightarrow> string \<Rightarrow> node option action" where
  "try_stat h filePath =
     catchE (bindE (fs_stat h filePath) (\<lambda>n. retE (Some n)))
       (\<lambda>err. thenE (whenE (err_code err \<noteq> Some ''ENOENT'') (console_log (stat_failed filePath err)))
                (retE None))"

text \<open>On Windows the result takes the case the directory lists the file with.\<close>

definition actual_case :: "host \<Rightarrow> string \<Rightarrow> string action" where
  "actual_case h filePath =
     catchE
       (let directory = h_dirname h filePath; upperName = to_upper (h_basename h filePath) in
        bindE (fs_readdir h directory) (\<lambda>names.
          retE (case find (\<lambda>actualName. upperName = to_upper actualName) names of
                  Some actualName \<Rightarrow> h_join h directory actualName
                | None \<Rightarrow> filePath)))
       (\<lambda>err. thenE (console_log (''Unexpected error attempting to determine the actual case of the file '' @
           [CHR 0x27] @ filePath @ [CHR 0x27] @ '': '' @ err_to_string err)) (retE filePath))"

fun try_extensions :: "host \<Rightarrow> string \<Rightarrow> string list \<Rightarrow> string action" where
  "try_extensions h originalFilePath [] = retE []"
| "try_extensions h originalFilePath (extension # exts) =
     (let filePath = originalFilePath @ extension in
      bindE (try_stat h filePath) (\<lambda>stats.
        if is_file stats
        then (if is_windows h then actual_case h filePath
              else if isUnixExecutable h (the stats) then retE filePath
              else try_extensions h originalFilePath exts)
        else try_extensions h originalFilePath exts))"

definition tryGetExecutablePath :: "host \<Rightarrow> string \<Rightarrow> string list \<Rightarrow> string action" where
  "tryGetExecutablePath h filePath extensions =
     bindE (try_stat h filePath) (\<lambda>stats.
       if is_file stats \<and>
          (if is_windows h
           then list_ex (\<lambda>validExt. to_upper validExt = to_upper (h_extname h filePath)) extensions
           else isUnixExecutable h (the stats))
       then retE filePath
       else try_extensions h filePath extensions)"

section \<open>io.js\<close>

definition rmRF :: "host \<Rightarrow> string \<Rightarrow> unit action" where
  "rmRF h inputPath =
     (if is_windows h \<and> list_ex (\<lambda>c. c \<in> set [CHR ''*'', CHR 0x22, CHR ''<'', CHR ''>'', CHR ''|'']) inputPath
      then throwE (Error (''File path must not contain `*`, `'' @ [CHR 0x22] @ ''`, `<`, `>` or `|` on Windows''))
      else catchE (fs_rm h inputPath)
             (\<lambda>err. throwE (Error (''File was unable to be removed '' @ err_to_string err))))"

definition mkdirP :: "host \<Rightarrow> string \<Rightarrow> unit action" where
  "mkdirP h fsPath =
     (if fsPath = [] then throwE (AssertionError ''a path argument must be provided'')
      else fs_mkdir h fsPath)"

definition nonempty_parts :: "char \<Rightarrow> string \<Rightarrow> string list" where
  "nonempty_parts d s = filter (\<lambda>p. p \<noteq> []) (split_char d s)"

fun search_dirs :: "host \<Rightarrow> string \<Rightarrow> string list \<Rightarrow> string list \<Rightarrow> string list \<Rightarrow> string list action" where
  "search_dirs h tool extensions [] ms = retE ms"
| "search_dirs h tool extensions (directory # ds) ms =
     bindE (tryGetExecutablePath h (h_join h directory tool) extensions) (\<lambda>filePath.
       search_dirs h tool extensions ds (if filePath \<noteq> [] then ms @ [filePath] else ms))"

definition findInPath :: "host \<Rightarrow> string \<Rightarrow> string list action" where
  "findInPath h tool =
     (if tool = [] then throwE (Error (''parameter '' @ [CHR 0x27] @ ''tool'' @ [CHR 0x27] @ '' is required''))
      else bindE (getE (\<lambda>w. if is_windows h \<and> env_or ''PATHEXT'' w \<noteq> []
                           then nonempty_parts (path_delimiter h) (env_or ''PATHEXT'' w) else [])) (\<lambda>extensions.
        bindE (liftE (isRooted h tool)) (\<lambda>rooted.
          if rooted
          then bindE (tryGetExecutablePath h tool extensions) (\<lambda>filePath.
                 retE (if filePath \<noteq> [] then [filePath] else []))
          else if path_sep h \<in> set tool then retE []
          else bindE (getE (\<lambda>w. nonempty_parts (path_delimiter h) (env_or ''PATH'' w))) (\<lambda>directories.
            search_dirs h tool extensions directories []))))"

definition not_located :: "host \<Rightarrow> string \<Rightarrow> string" where
  "not_located h tool =
     ''Unable to locate executable file: '' @ tool @
     ''. Please verify either the file path exists or the file can be found within a directory specified by the PATH environment variable. '' @
     (if is_windows h then ''Also verify the file has a valid extension for an executable file.''
      else ''Also check the file mode to verify the file is executable.'')"

definition which :: "host \<Rightarrow> string \<Rightarrow> bool \<Rightarrow> string action" where
  "which h tool check =
     (if tool = [] then throwE (Error (''parameter '' @ [CHR 0x27] @ ''tool'' @ [CHR 0x27] @ '' is required''))
      else bindE (findInPath h tool) (\<lambda>ms.
        (let result = (case ms of [] \<Rightarrow> [] | m # _ \<Rightarrow> m) in
         if check \<and> result = [] then throwE (Error (not_located h tool)) else retE result)))"

section \<open>Frames\<close>

lemma keeps_fs_stat [keeps_rules]: "keeps g (fs_stat h p)"
  unfolding fs_stat_def
  by (intro keeps_thenE keeps_fs_check) (auto simp: keeps_def split: option.splits)

lemma keeps_fs_readdir [keeps_rules]: "keeps g (fs_readdir h p)"
  unfolding fs_readdir_def by (intro keeps_rules)

lemma keeps_fs_mkdir [keeps_rules]:
  "(\<And>w x. g (w\<lparr>w_fs := x\<rparr>) = g w) \<Longrightarrow> keeps g (fs_mkdir h p)"
  unfolding fs_mkdir_def by (intro keeps_thenE keeps_fs_check) (simp add: keeps_def)

lemma keeps_fs_rm [keeps_rules]:
  "(\<And>w x. g (w\<lparr>w_fs := x\<rparr>) = g w) \<Longrightarrow> keeps g (fs_rm h p)"
  unfolding fs_rm_def by (intro keeps_rules)

lemma keeps_io_exists [keeps_rules]: "keeps g (io_exists h p)"
  unfolding io_exists_def by (intro keeps_rules)

lemma keeps_try_stat [keeps_rules]:
  "(\<And>w x. g (w\<lparr>w_out := x\<rparr>) = g w) \<Longrightarrow> keeps g (try_stat h p)"
  unfolding try_stat_def by (intro keeps_rules)

lemma keeps_actual_case [keeps_rules]:
  "(\<And>w x. g (w\<lparr>w_out := x\<rparr>) = g w) \<Longrightarrow> keeps g (actual_case h p)"
  unfolding actual_case_def Let_def by (intro keeps_rules)

lemma keeps_try_extensions [keeps_rules]:
  "(\<And>w x. g (w\<lparr>w_out := x\<rparr>) = g w) \<Longrightarrow> keeps g (try_extensions h p es)"
  by (induction h p es rule: try_extensions.induct) (auto simp: Let_def intro!: keeps_rules)

lemma keeps_tryGetExecutablePath [keeps_rules]:
  "(\<And>w x. g (w\<lparr>w_out := x\<rparr>) = g w) \<Longrightarrow> keeps g (tryGetExecutablePath h p es)"
  unfolding tryGetExecutablePath_def by (intro keeps_rules)

lemma keeps_search_dirs [keeps_rules]:
  "(\<And>w x. g (w\<lparr>w_out := x\<rparr>) = g w) \<Longrightarrow> keeps g (search_dirs h t es ds ms)"
  by (induction ds arbitrary: ms) (auto intro!: keeps_rules)

lemma keeps_findInPath [keeps_rules]:
  "(\<And>w x. g (w\<lparr>w_out := x\<rparr>) = g w) \<Longrightarrow> keeps g (findInPath h t)"
  unfolding findInPath_def by (intro keeps_rules)

lemma keeps_which [keeps_rules]:
  "(\<And>w x. g (w\<lparr>w_out := x\<rparr>) = g w) \<Longrightarrow> keeps g (which h t c)"
  unfolding which_def Let_def by (intro keeps_rules)

lemma keeps_rmRF [keeps_rules]:
  "(\<And>w x. g (w\<lparr>w_fs := x\<rparr>) = g w) \<Longrightarrow> keeps g (rmRF h p)"
  unfolding rmRF_def by (intro keeps_rules)

lemma keeps_mkdirP [keeps_rules]:
  "(\<And>w x. g (w\<lparr>w_fs := x\<rparr>) = g w) \<Longrightarrow> keeps g (mkdirP h p)"
  unfolding mkdirP_def by (intro keeps_rules)

section \<open>What which finds on a Unix host\<close>

definition executable_at :: "host \<Rightarrow> fsys \<Rightarrow> string \<Rightarrow> bool" where
  "executable_at h fs p \<longleftrightarrow>
     p \<noteq> [] \<and> h_fail h ''stat'' p fs = None \<and> is_file (fs p) \<and> isUnixExecutable h (the (fs p))"

definition candidates :: "host \<Rightarrow> string \<Rightarrow> world \<Rightarrow> string list" where
  "candidates h tool w =
     (if isRooted h tool = Inr True then [tool]
      else if path_sep h \<in> set tool then []
      else map (\<lambda>d. h_join h d tool) (nonempty_parts (path_delimiter h) (env_or ''PATH'' w)))"

lemma try_stat_Inr:
  assumes "try_stat h p w = (Inr r, w')"
  shows "r = (if h_fail h ''stat'' p (w_fs w) = None then w_fs w p else None)"
  using assms
  by (auto simp: try_stat_def fs_stat_def thenE_def bindE_def catchE_def fs_check_def whenE_def
      console_log_def write_out_def split: option.splits if_splits)

lemma try_stat_fs: "try_stat h p w = (r, w') \<Longrightarrow> w_fs w' = w_fs w"
  by (rule keepsD [where g = w_fs and m = "try_stat h p"]) (auto intro!: keeps_rules)

lemma tryGetExecutablePath_unix:
  assumes "\<not> is_windows h" and "tryGetExecutablePath h p [] w = (Inr r, w')"
  shows "r = (if executable_at h (w_fs w) p then p else [])"
    and "w_fs w' = w_fs w"
proof -
  from assms(2) obtain st w1 where st: "try_stat h p w = (Inr st, w1)"
    by (auto simp: tryGetExecutablePath_def bindE_Inr_iff)
  from assms st show "r = (if executable_at h (w_fs w) p then p else [])"
    by (auto simp: tryGetExecutablePath_def bindE_Inr_iff executable_at_def
        dest!: try_stat_Inr split: if_splits)
  have "keeps w_fs (tryGetExecutablePath h p [])" by (intro keeps_rules) simp
  from keepsD [OF this assms(2)] show "w_fs w' = w_fs w" .
qed

lemma search_dirs_unix:
  assumes "\<not> is_windows h" and "search_dirs h tool [] ds ms w = (Inr r, w')"
  shows "r = ms @ filter (executable_at h (w_fs w)) (map (\<lambda>d. h_join h d tool) ds)"
  using assms(2)
proof (induction ds arbitrary: ms w)
  case Nil
  then show ?case by simp
next
  case (Cons d ds)
  from Cons.prems obtain fp w1 where a: "tryGetExecutablePath h (h_join h d tool) [] w = (Inr fp, w1)"
    and b: "search_dirs h tool [] ds (if fp \<noteq> [] then ms @ [fp] else ms) w1 = (Inr r, w')"
    by (auto simp: bindE_Inr_iff)
  note fp = tryGetExecutablePath_unix [OF assms(1) a]
  show ?case using Cons.IH [OF b] fp by (auto simp: executable_at_def)
qed

lemma findInPath_unix:
  assumes "\<not> is_windows h" and "findInPath h tool w = (Inr r, w')"
  shows "r = filter (executable_at h (w_fs w)) (candidates h tool w)"
proof -
  from assms obtain b where tool: "tool \<noteq> []" and b: "isRooted h tool = Inr b"
    by (auto simp: findInPath_def bindE_Inr_iff split: if_splits)
  consider "b" | "\<not> b" "path_sep h \<in> set tool" | "\<not> b" "path_sep h \<notin> set tool" by blast
  then show ?thesis
  proof cases
    case 1
    with assms tool b obtain fp w1 where "tryGetExecutablePath h tool [] w = (Inr fp, w1)"
      and r: "r = (if fp \<noteq> [] then [fp] else [])"
      by (auto simp: findInPath_def bindE_Inr_iff)
    with tryGetExecutablePath_unix(1) [OF assms(1)] have "fp = (if executable_at h (w_fs w) tool then tool else [])"
      by blast
    with r b 1 tool show ?thesis by (simp add: candidates_def)
  next
    case 2
    with assms tool b show ?thesis by (auto simp: findInPath_def bindE_Inr_iff candidates_def)
  next
    case 3
    with assms tool b have "search_dirs h tool [] (nonempty_parts (path_delimiter h) (env_or ''PATH'' w)) [] w = (Inr r, w')"
      by (auto simp: findInPath_def bindE_Inr_iff)
    from search_dirs_unix [OF assms(1) this] 3 b show ?thesis by (simp add: candidates_def)
  qed
qed

lemma which_unix:
  assumes "\<not> is_windows h" and "which h tool check w = (Inr p, w')"
  shows "p = (case find (executable_at h (w_fs w)) (candidates h tool w) of Some q \<Rightarrow> q | None \<Rightarrow> [])"
    and "check \<Longrightarrow> p \<noteq> []"
proof -
  from assms(2) obtain ms w1 where ms: "findInPath h tool w = (Inr ms, w1)"
    and p: "p = (case ms of [] \<Rightarrow> [] | m # _ \<Rightarrow> m)" "check \<Longrightarrow> p \<noteq> []"
    by (auto simp: which_def bindE_Inr_iff Let_def split: if_splits)
  have "(case filter P xs of [] \<Rightarrow> [] | m # _ \<Rightarrow> m) = (case find P xs of Some q \<Rightarrow> q | None \<Rightarrow> [])"
    for P :: "string \<Rightarrow> bool" and xs
    by (induction xs) auto
  with p(1) findInPath_unix [OF assms(1) ms]
  show "p = (case find (executable_at h (w_fs w)) (candidates h tool w) of Some q \<Rightarrow> q | None \<Rightarrow> [])"
    by simp
  show "check \<Longrightarrow> p \<noteq> []" by (rule p(2))
qed

section \<open>Properties\<close>

text \<open>
  C38: on a system that is not Windows, \<open>which\<close> returns the first of the candidate paths (the tool itself
  if it is rooted, else one per directory of \<open>PATH\<close>, in order) that is a file the process may execute,
  and the empty string if there is none; with \<open>check\<close> it never returns the empty string.
\<close>

theorem which_finds_first_executable:
  assumes "\<not> is_windows h" and "which h tool check w = (Inr p, w')"
  shows "p = (case find (executable_at h (w_fs w)) (candidates h tool w) of Some q \<Rightarrow> q | None \<Rightarrow> []) \<and>
    (check \<longrightarrow> p \<noteq> [])"
  using which_unix [OF assms] by blast

theorem which_finds_first_executable_witness:
  "''/bin/tar'' = (case find (executable_at demo_host (w_fs good_world)) (candidates demo_host ''tar'' good_world) of
     Some q \<Rightarrow> q | None \<Rightarrow> [])"
proof -
  have "fst (which demo_host ''tar'' True good_world) = Inr ''/bin/tar''" by code_simp
  then have "which demo_host ''tar'' True good_world = (Inr ''/bin/tar'', snd (which demo_host ''tar'' True good_world))"
    by (simp add: prod_eq_iff)
  moreover have "\<not> is_windows demo_host" by code_simp
  ultimately show ?thesis using which_finds_first_executable by blast
qed

end
