(* ===== verification/HttpSafety.thy ===== *)
theory HttpSafety
  imports HttpClient IoUtil Machine
begin

text \<open>
  What \<open>HttpClient.request\<close> guarantees about the requests it sends. The locale \<open>request_policy\<close>
  is the interface: a policy on requests that the preparation of the first request and of every
  redirect \<open>request\<close> follows establish, and that attaching the body keeps. Whatever satisfies it
  holds of all requests sent. It is interpreted on the client twice: for transport security and for
  the authorization header. The rest of the theory bounds the requests and the time slept.
\<close>

section \<open>Requests sent since a point of the history\<close>

definition sent :: "nat \<Rightarrow> (http_req \<Rightarrow> bool) \<Rightarrow> world \<Rightarrow> bool" where
  "sent n Q w \<longleftrightarrow> n \<le> length (w_reqs w) \<and> (\<forall>r\<in>set (drop n (w_reqs w)). Q r)"

lemma sent_now: "n = length (w_reqs w) \<Longrightarrow> sent n Q w"
  by (simp add: sent_def)

definition with_body :: "http_req \<Rightarrow> string option \<Rightarrow> http_req" where
  "with_body rq data = (case data of None \<Rightarrow> rq
     | Some d \<Rightarrow> rq\<lparr>rq_headers := obj_put (rq_headers rq) ''Content-Length'' (HNum (utf8_length d)),
                   rq_data := Some d\<rparr>)"

lemma requestRaw_reqs: "w_reqs (snd (requestRaw h rq data w)) = w_reqs w @ [with_body rq data]"
  by (simp add: requestRaw_def with_body_def Let_def)

lemma requestRaw_sleeps: "keeps w_sleeps (requestRaw h rq data)"
  by (simp add: requestRaw_def keeps_def Let_def)

lemma requestRaw_triple:
  assumes "\<And>w. P w \<Longrightarrow> Q (w\<lparr>w_reqs := w_reqs w @ [with_body rq data]\<rparr>)"
  shows "triple P (requestRaw h rq data) (\<lambda>_. Q) (\<lambda>_. Q)"
  unfolding triple_def requestRaw_def Let_def
  using assms by (auto simp: with_body_def split: sum.splits option.splits)

lemma requestRaw_sent:
  assumes "Q (with_body rq data)"
  shows "triple (sent n Q) (requestRaw h rq data) (\<lambda>_. sent n Q) (\<lambda>_. sent n Q)"
  by (rule requestRaw_triple) (use assms in \<open>auto simp: sent_def\<close>)

text \<open>Preparing a request touches nothing but the client's agent cache.\<close>

definition same_config :: "http_client \<Rightarrow> http_client \<Rightarrow> bool" where
  "same_config c c' \<longleftrightarrow> c' = c\<lparr>hc_agent := hc_agent c', hc_proxyAgent := hc_proxyAgent c'\<rparr>"

lemma getAgent_config: "getAgent h w c u = Inr (a, c') \<Longrightarrow> same_config c c'"
  by (auto simp: getAgent_def Let_def res_bind_Inr same_config_def split: if_splits option.splits)

lemma prepareRequest_config: "prepareRequest h w c m u hs = Inr (rq, c') \<Longrightarrow> same_config c c'"
  by (auto simp: prepareRequest_def Let_def res_bind_Inr split: prod.splits dest!: getAgent_config)

lemma same_config_refl [simp]: "same_config c c"
  by (simp add: same_config_def)

lemma same_configD: "same_config c c' \<Longrightarrow> \<exists>a b. c' = c\<lparr>hc_agent := a, hc_proxyAgent := b\<rparr>"
  unfolding same_config_def by blast

lemma same_config_fields:
  "same_config c c' \<Longrightarrow> hc_handlers c' = hc_handlers c"
  "same_config c c' \<Longrightarrow> hc_maxRedirects c' = hc_maxRedirects c"
  "same_config c c' \<Longrightarrow> hc_requestOptions c' = hc_requestOptions c"
  "same_config c c' \<Longrightarrow> hc_allowRedirectDowngrade c' = hc_allowRedirectDowngrade c"
  by (auto dest!: same_configD)

lemma prepare_triple:
  assumes "\<And>w rq c'. P w \<Longrightarrow> prepareRequest h w c v u hs = Inr (rq, c') \<Longrightarrow> Q (rq, c') w"
    and "\<And>w. P w \<Longrightarrow> E w"
  shows "triple P (prepare h c v u hs) Q (\<lambda>_. E)"
  unfolding triple_def prepare_def using assms by (auto split: sum.splits)

lemma triple_pull: "(b \<Longrightarrow> triple P m Q E) \<Longrightarrow> triple (\<lambda>w. P w \<and> b) m Q E"
  by (auto simp: triple_def)

lemma liftE_triple: "(\<And>w. P w \<Longrightarrow> Q w) \<Longrightarrow> triple P (liftE r) (\<lambda>_. Q) (\<lambda>_. Q)"
  by (auto simp: triple_def split: sum.splits)

lemma triple_sleep: "(\<And>w. P w \<Longrightarrow> Q (w\<lparr>w_sleeps := w_sleeps w @ [n]\<rparr>)) \<Longrightarrow> triple P (sleep_ms n) (\<lambda>_. Q) E"
  by (auto simp: triple_def sleep_ms_def)

definition redirect_permitted :: "http_client \<Rightarrow> url \<Rightarrow> url \<Rightarrow> bool" where
  "redirect_permitted c u u' \<longleftrightarrow>
     \<not> (u_protocol u = ''https:'' \<and> u_protocol u \<noteq> u_protocol u' \<and> \<not> hc_allowRedirectDowngrade c)"

definition redirect_headers :: "url \<Rightarrow> url \<Rightarrow> headers option \<Rightarrow> headers option" where
  "redirect_headers u u' hs = (if u_hostname u' \<noteq> u_hostname u then strip_authorization hs else hs)"

text \<open>One redirect: stay, refuse, or prepare and send the next request.\<close>

lemma follow_redirects_Suc:
  "follow_redirects h verb u data (Suc k) (resp, rq, hs, c) =
     (if is_redirect c resp
      then (case obj_get (rs_headers resp) ''location'' of
              None \<Rightarrow> retE (resp, rq, hs, c)
            | Some l \<Rightarrow>
                if l = [] then retE (resp, rq, hs, c)
                else (case h_url h l of
                        None \<Rightarrow> throwE (TypeError ''Invalid URL'')
                      | Some u' \<Rightarrow>
                          if \<not> redirect_permitted c u u' then throwE (Error downgrade_message)
                          else bindE (liftE (readBody resp)) (\<lambda>_.
                            bindE (prepare h c verb u' (redirect_headers u u' hs)) (\<lambda>(rq', c').
                            bindE (requestRaw h rq' data) (\<lambda>resp'.
                              follow_redirects h verb u data k (resp', rq', redirect_headers u u' hs, c'))))))
      else retE (resp, rq, hs, c))"
  by (auto simp: redirect_permitted_def redirect_headers_def Let_def split: option.split)

declare follow_redirects.simps(2) [simp del]

section \<open>Policies\<close>

locale request_policy =
  fixes h :: host and policy :: "url \<Rightarrow> http_req \<Rightarrow> bool" and origin :: "url \<Rightarrow> bool"
    and client :: "http_client \<Rightarrow> bool"
  assumes first: "client c \<Longrightarrow> origin u \<Longrightarrow> prepareRequest h w c v u hs = Inr (rq, c') \<Longrightarrow> policy u rq"
    and next_request: "client c \<Longrightarrow> origin u \<Longrightarrow> redirect_permitted c u u' \<Longrightarrow>
        prepareRequest h w c v u' (redirect_headers u u' hs) = Inr (rq, c') \<Longrightarrow> policy u rq"
    and body: "policy u rq \<Longrightarrow> policy u (with_body rq data)"
    and config: "client c \<Longrightarrow> same_config c c' \<Longrightarrow> client c'"
    and no_handlers: "client c \<Longrightarrow> hc_handlers c = []"
begin

definition holds :: "url \<Rightarrow> nat \<Rightarrow> exchange \<Rightarrow> world \<Rightarrow> bool" where
  "holds u n x w \<longleftrightarrow> sent n (policy u) w \<and> (case x of (resp, rq, hs, c) \<Rightarrow> client c \<and> policy u rq)"

lemma redirects_sent:
  "origin u \<Longrightarrow> triple (holds u n x) (follow_redirects h v u data k x) (holds u n) (\<lambda>_. sent n (policy u))"
proof (induction k arbitrary: x)
  case 0
  show ?case by (simp add: triple_def)
next
  case (Suc k)
  obtain resp rq hs c where x: "x = (resp, rq, hs, c)" by (cases x)
  have step: "triple (holds u n x)
      (bindE (liftE (readBody resp)) (\<lambda>_. bindE (prepare h c v u' (redirect_headers u u' hs)) (\<lambda>(rq', c').
        bindE (requestRaw h rq' data) (\<lambda>resp'.
          follow_redirects h v u data k (resp', rq', redirect_headers u u' hs, c')))))
      (holds u n) (\<lambda>_. sent n (policy u))"
    if p: "redirect_permitted c u u'" for u'
  proof (rule triple_bindE)
    show "triple (holds u n x) (liftE (readBody resp)) (\<lambda>_. holds u n x) (\<lambda>_. sent n (policy u))"
      by (auto simp: triple_def holds_def split: sum.splits)
    fix b
    show "triple (holds u n x) (bindE (prepare h c v u' (redirect_headers u u' hs)) (\<lambda>(rq', c').
        bindE (requestRaw h rq' data) (\<lambda>resp'.
          follow_redirects h v u data k (resp', rq', redirect_headers u u' hs, c'))))
        (holds u n) (\<lambda>_. sent n (policy u))"
    proof (rule triple_bindE)
      show "triple (holds u n x) (prepare h c v u' (redirect_headers u u' hs))
          (\<lambda>(rq', c') w. sent n (policy u) w \<and> client c' \<and> policy u rq') (\<lambda>_. sent n (policy u))"
        by (rule prepare_triple)
          (use p Suc.prems x in \<open>auto simp: holds_def dest: next_request config [OF _ prepareRequest_config]\<close>)
      fix y :: "http_req \<times> http_client" obtain rq' c' where y: "y = (rq', c')" by (cases y)
      have "triple (\<lambda>w. sent n (policy u) w) (requestRaw h rq' data)
          (\<lambda>resp'. holds u n (resp', rq', redirect_headers u u' hs, c')) (\<lambda>_. sent n (policy u))"
        if "client c'" "policy u rq'"
        by (rule triple_conseq [OF requestRaw_sent [where Q = "policy u", OF body [OF that(2)]]])
          (use that in \<open>auto simp: holds_def\<close>)
      then show "triple (case y of (rq', c') \<Rightarrow> \<lambda>w. sent n (policy u) w \<and> client c' \<and> policy u rq')
          (case y of (rq', c') \<Rightarrow> bindE (requestRaw h rq' data) (\<lambda>resp'.
             follow_redirects h v u data k (resp', rq', redirect_headers u u' hs, c')))
          (holds u n) (\<lambda>_. sent n (policy u))"
        unfolding y prod.case
        by (intro triple_pull triple_bindE [OF _ Suc.IH [OF Suc.prems]]) blast
    qed
  qed
  have "triple (holds u n x) (retE x) (holds u n) (\<lambda>_. sent n (policy u))"
    and "triple (holds u n x) (throwE e) (holds u n) (\<lambda>_. sent n (policy u))" for e
    by (simp_all add: triple_def holds_def)
  then show ?case unfolding x follow_redirects_Suc
    using step x by (auto split: option.splits)
qed

text \<open>One try, given what is done with an answer that may be retried.\<close>

lemma try_sent:
  assumes o: "origin u" and c: "client c" and p: "policy u rq"
    and again: "\<And>resp' rq' hs' c'. client c' \<Longrightarrow> policy u rq' \<Longrightarrow>
      triple (sent n (policy u)) (again resp' rq' hs' c') (holds u n) (\<lambda>_. sent n (policy u))"
  shows "triple (sent n (policy u)) (bindE (requestRaw h rq data) (\<lambda>resp.
       if rs_status resp = 401
       then (case find (\<lambda>ah. hd_canHandleAuthentication ah resp) (hc_handlers c) of
               Some ah \<Rightarrow> bindE (hd_handleAuthentication ah rq) (\<lambda>resp'. retE (resp', rq, hs, c))
             | None \<Rightarrow> retE (resp, rq, hs, c))
       else
         bindE (follow_redirects h v u data (hc_maxRedirects c) (resp, rq, hs, c))
           (\<lambda>(resp', rq', hs', c').
            if rs_status resp' = 0 \<or> rs_status resp' \<notin> set HttpResponseRetryCodes
            then retE (resp', rq', hs', c') else again resp' rq' hs' c')))
     (holds u n) (\<lambda>_. sent n (policy u))"
proof (rule triple_bindE [OF requestRaw_sent [where Q = "policy u", OF body [OF p]]])
  fix resp
  have "triple (holds u n x) (case x of (resp', rq', hs', c') \<Rightarrow>
            if rs_status resp' = 0 \<or> rs_status resp' \<notin> set HttpResponseRetryCodes
            then retE (resp', rq', hs', c') else again resp' rq' hs' c') (holds u n) (\<lambda>_. sent n (policy u))" for x
    using again by (cases x) (auto simp: triple_def holds_def)
  from triple_bindE [OF redirects_sent [OF o] this]
  have "triple (holds u n (resp, rq, hs, c))
      (bindE (follow_redirects h v u data (hc_maxRedirects c) (resp, rq, hs, c))
           (\<lambda>(resp', rq', hs', c').
            if rs_status resp' = 0 \<or> rs_status resp' \<notin> set HttpResponseRetryCodes
            then retE (resp', rq', hs', c') else again resp' rq' hs' c')) (holds u n) (\<lambda>_. sent n (policy u))"
    by simp
  then show "triple (sent n (policy u)) (if rs_status resp = 401
       then (case find (\<lambda>ah. hd_canHandleAuthentication ah resp) (hc_handlers c) of
               Some ah \<Rightarrow> bindE (hd_handleAuthentication ah rq) (\<lambda>resp'. retE (resp', rq, hs, c))
             | None \<Rightarrow> retE (resp, rq, hs, c))
       else
         bindE (follow_redirects h v u data (hc_maxRedirects c) (resp, rq, hs, c))
           (\<lambda>(resp', rq', hs', c').
            if rs_status resp' = 0 \<or> rs_status resp' \<notin> set HttpResponseRetryCodes
            then retE (resp', rq', hs', c') else again resp' rq' hs' c'))
     (holds u n) (\<lambda>_. sent n (policy u))"
    using c p no_handlers [OF c] by (simp add: triple_def holds_def)
qed

lemma loop_sent:
  "origin u \<Longrightarrow> client c \<Longrightarrow> policy u rq \<Longrightarrow>
   triple (sent n (policy u)) (request_loop h v u data left t rq hs c) (holds u n) (\<lambda>_. sent n (policy u))"
proof (induction left arbitrary: t rq hs c)
  case (0 t rq hs c)
  show ?case unfolding request_loop.simps [of _ _ _ _ 0] nat.case
    by (rule try_sent [OF 0]) (simp add: triple_def holds_def)
next
  case (Suc left t rq hs c)
  show ?case unfolding request_loop.simps [of _ _ _ _ "Suc left"] nat.case
  proof (rule try_sent [OF Suc.prems])
    fix resp' rq' hs' c' assume *: "client c'" "policy u rq'"
    show "triple (sent n (policy u))
      (bindE (liftE (readBody resp')) (\<lambda>_. thenE (performExponentialBackoff (Suc t))
        (request_loop h v u data left (Suc t) rq' hs' c'))) (holds u n) (\<lambda>_. sent n (policy u))"
      unfolding performExponentialBackoff_def
      by (rule triple_bindE [OF liftE_triple [where Q = "sent n (policy u)"]], assumption,
          rule triple_thenE [OF triple_sleep Suc.IH [OF Suc.prems(1) *]]) (simp add: sent_def)
  qed
qed

lemma request_triple:
  assumes "client c" and url: "h_url h requestUrl = Some u" and "origin u"
  shows "triple (sent n (policy u)) (request h c v requestUrl data hs)
    (\<lambda>_. sent n (policy u)) (\<lambda>_. sent n (policy u))"
proof -
  have "triple (sent n (policy u)) (bindE (prepare h c v u hs) (\<lambda>(rq, c').
      request_loop h v u data (nat (maxTries c v - 1)) 0 rq hs c')) (holds u n) (\<lambda>_. sent n (policy u))"
  proof (rule triple_bindE)
    show "triple (sent n (policy u)) (prepare h c v u hs)
        (\<lambda>(rq, c') w. sent n (policy u) w \<and> client c' \<and> policy u rq) (\<lambda>_. sent n (policy u))"
      by (rule prepare_triple)
        (use assms in \<open>auto dest: first config [OF _ prepareRequest_config]\<close>)
    fix y :: "http_req \<times> http_client"
    show "triple (case y of (rq, c') \<Rightarrow> \<lambda>w. sent n (policy u) w \<and> client c' \<and> policy u rq)
        (case y of (rq, c') \<Rightarrow> request_loop h v u data (nat (maxTries c v - 1)) 0 rq hs c')
        (holds u n) (\<lambda>_. sent n (policy u))"
      using loop_sent [OF assms(3), of _ _ n v data "nat (maxTries c v - 1)" 0 hs]
      by (cases y) (auto simp: triple_def)
  qed
  then have "triple (sent n (policy u)) (request h c v requestUrl data hs) (holds u n) (\<lambda>_. sent n (policy u))"
    unfolding request_def by (auto simp: url intro: triple_throwE)
  then show ?thesis by (rule triple_conseq) (simp_all add: holds_def)
qed

lemma request_sent:
  assumes "client c" and "h_url h requestUrl = Some u" and "origin u"
    and "request h c v requestUrl data hs w = (r, w')"
  shows "sent (length (w_reqs w)) (policy u) w'"
  using request_triple [OF assms(1-3), of "length (w_reqs w)" v data hs] assms(4) sent_now [OF refl]
  unfolding triple_def by (cases r) fastforce+

end

lemma request_invalid:
  "h_url h requestUrl = None \<Longrightarrow> triple P (request h c v requestUrl data hs) (\<lambda>_. P) (\<lambda>_. P)"
  by (simp add: request_def triple_def)

section \<open>Transport security\<close>

lemma prepareRequest_plain:
  assumes "prepareRequest h w c m u hs = Inr (rq, c')" and "hc_handlers c = []"
  shows "rq_ssl rq = (u_protocol u = ''https:'')" "rq_host rq = u_hostname u"
    "rq_unverified rq = (rq_ssl rq \<and> hc_ignoreSslError c)"
    "rq_headers rq = obj_put (mergeHeaders c hs) ''user-agent'' (HStr (hc_userAgent c))"
    "rq_method rq = m" "rq_data rq = None"
  using assms by (auto simp: prepareRequest_def Let_def res_bind_Inr split: prod.splits)

lemma with_body_fields [simp]:
  "rq_ssl (with_body rq d) = rq_ssl rq" "rq_host (with_body rq d) = rq_host rq"
  "rq_unverified (with_body rq d) = rq_unverified rq" "rq_method (with_body rq d) = rq_method rq"
  by (simp_all add: with_body_def split: option.splits)

definition strict_client :: "http_client \<Rightarrow> bool" where
  "strict_client c \<longleftrightarrow> hc_handlers c = [] \<and> \<not> hc_allowRedirectDowngrade c \<and> \<not> hc_ignoreSslError c"

definition secure_request :: "http_req \<Rightarrow> bool" where
  "secure_request rq \<longleftrightarrow> rq_ssl rq \<and> \<not> rq_unverified rq"

interpretation https_only: request_policy h "\<lambda>_. secure_request" "\<lambda>u. u_protocol u = ''https:''" strict_client for h
proof
  fix c :: http_client and u u' :: url and w v hs rq c'
  assume c: "strict_client c" and u: "u_protocol u = ''https:''"
  show "secure_request rq" if "prepareRequest h w c v u hs = Inr (rq, c')"
    using prepareRequest_plain [OF that] c u by (simp add: secure_request_def strict_client_def)
  show "secure_request rq" if "redirect_permitted c u u'"
    and "prepareRequest h w c v u' (redirect_headers u u' hs) = Inr (rq, c')"
    using prepareRequest_plain [OF that(2)] that(1) c u
    by (simp add: secure_request_def strict_client_def redirect_permitted_def)
next
  show "strict_client c'" if "strict_client c" "same_config c c'" for c c'
    using that by (auto simp: strict_client_def dest!: same_configD)
qed (auto simp: secure_request_def strict_client_def)

section \<open>Credentials\<close>

definition has_authorization :: "headers \<Rightarrow> bool" where
  "has_authorization hs \<longleftrightarrow> ''authorization'' \<in> to_lower ` fst ` set hs"

lemma obj_put_keys: "fst ` set (obj_put ps k v) = insert k (fst ` set ps)"
  by (induction ps k v rule: obj_put.induct) (simp_all add: insert_commute)

lemma lowercaseKeys_keys: "fst ` set (lowercaseKeys hs) = to_lower ` fst ` set hs"
proof -
  have "fst ` set (foldl (\<lambda>c (k, v). obj_put c (to_lower k) v) d hs) = fst ` set d \<union> to_lower ` fst ` set hs" for d
    by (induction hs arbitrary: d) (simp_all add: obj_put_keys case_prod_beta)
  then show ?thesis by (simp add: lowercaseKeys_def)
qed

lemma strip_no_authorization: "strip_authorization hs = Some hs' \<Longrightarrow> \<not> has_authorization hs'"
  by (auto simp: strip_authorization_def has_authorization_def)

lemma lower_names [simp]: "to_lower ''user-agent'' \<noteq> ''authorization''" "to_lower ''Content-Length'' \<noteq> ''authorization''"
  by code_simp+

lemma has_authorization_put:
  "to_lower k \<noteq> ''authorization'' \<Longrightarrow> has_authorization (obj_put hs k v) \<longleftrightarrow> has_authorization hs"
  unfolding has_authorization_def obj_put_keys by auto

definition anonymous_client :: "http_client \<Rightarrow> bool" where
  "anonymous_client c \<longleftrightarrow> hc_handlers c = [] \<and>
     (case hc_requestOptions c of None \<Rightarrow> True | Some r \<Rightarrow> ro_headers r = None)"

definition authorization_stays :: "url \<Rightarrow> http_req \<Rightarrow> bool" where
  "authorization_stays u rq \<longleftrightarrow> rq_host rq = u_hostname u \<or> \<not> has_authorization (rq_headers rq)"

lemma stripped_request:
  assumes "anonymous_client c" and "prepareRequest h w c v u (strip_authorization hs) = Inr (rq, c')"
  shows "\<not> has_authorization (rq_headers rq)"
proof -
  have c: "hc_handlers c = []"
    and m: "mergeHeaders c (strip_authorization hs) = lowercaseKeys (or_default [] (strip_authorization hs))"
    using assms(1) by (auto simp: anonymous_client_def mergeHeaders_def split: option.splits)
  have "\<not> has_authorization (or_default [] (strip_authorization hs))"
    using strip_no_authorization [of hs]
    by (cases "strip_authorization hs") (auto simp: or_default_def has_authorization_def)
  then show ?thesis
    unfolding prepareRequest_plain(4) [OF assms(2) c] m has_authorization_put [OF lower_names(1)]
    by (simp add: has_authorization_def lowercaseKeys_keys image_image to_lower_idem)
qed

interpretation own_credentials: request_policy h authorization_stays "\<lambda>_. True" anonymous_client for h
proof
  fix c :: http_client and u u' :: url and w v hs rq c'
  assume c: "anonymous_client c"
  then have nh: "hc_handlers c = []" by (simp add: anonymous_client_def)
  show "hc_handlers c = []" by (rule nh)
  show "authorization_stays u rq" if "prepareRequest h w c v u hs = Inr (rq, c')"
    using prepareRequest_plain [OF that nh] by (simp add: authorization_stays_def)
  show "authorization_stays u rq" if "redirect_permitted c u u'"
    and p: "prepareRequest h w c v u' (redirect_headers u u' hs) = Inr (rq, c')"
  proof (cases "u_hostname u' = u_hostname u")
    case True
    then show ?thesis using prepareRequest_plain(2) [OF p nh] by (simp add: authorization_stays_def)
  next
    case False
    then show ?thesis using stripped_request [OF c] p
      by (auto simp: authorization_stays_def redirect_headers_def)
  qed
next
  show "anonymous_client c'" if "anonymous_client c" "same_config c c'" for c c'
    using that by (auto simp: anonymous_client_def dest!: same_configD)
  show "authorization_stays u (with_body rq data)" if "authorization_stays u rq" for u rq data
    using that by (auto simp: authorization_stays_def with_body_def has_authorization_put split: option.splits)
qed

section \<open>How many requests, how long the waits\<close>

definition backoffs :: "nat \<Rightarrow> nat \<Rightarrow> nat list" where
  "backoffs t k = map (\<lambda>i. 5 * 2 ^ min 10 i) [Suc t..<Suc (t + k)]"

lemma backoffs_Suc: "5 * 2 ^ min 10 (Suc t) # backoffs (Suc t) k = backoffs t (Suc k)"
  by (simp add: backoffs_def upt_conv_Cons del: upt_Suc)

lemma backoffs_0 [simp]: "backoffs t 0 = []"
  by (simp add: backoffs_def)

lemma backoffs_le: "n \<in> set (backoffs t k) \<Longrightarrow> n \<le> 5120"
proof -
  have "(2::nat) ^ min 10 i \<le> 2 ^ 10" for i by (rule power_increasing) auto
  then show "n \<in> set (backoffs t k) \<Longrightarrow> n \<le> 5120" by (fastforce simp: backoffs_def)
qed

text \<open>\<open>spent\<close>: at most \<open>n\<close> requests are logged and the waits are \<open>s\<close>.\<close>

definition spent :: "nat \<Rightarrow> nat list \<Rightarrow> world \<Rightarrow> bool" where
  "spent n s w \<longleftrightarrow> length (w_reqs w) \<le> n \<and> w_sleeps w = s"

lemma spent_mono: "spent n s w \<Longrightarrow> n \<le> m \<Longrightarrow> spent m s w"
  by (simp add: spent_def)

lemma requestRaw_spent:
  "triple (spent n s) (requestRaw h rq data) (\<lambda>_. spent (Suc n) s) (\<lambda>_. spent (Suc n) s)"
  by (rule requestRaw_triple) (simp add: spent_def)

lemma same_config_trans: "same_config a b \<Longrightarrow> same_config b c \<Longrightarrow> same_config a c"
  by (drule same_configD, drule same_configD) (auto simp: same_config_def)

definition spends :: "http_client \<Rightarrow> nat \<Rightarrow> nat list \<Rightarrow> exchange \<Rightarrow> world \<Rightarrow> bool" where
  "spends c0 n s x w \<longleftrightarrow> spent n s w \<and> (case x of (resp, rq, hs, c) \<Rightarrow> same_config c0 c)"

lemma redirects_spent:
  "n + k \<le> m \<Longrightarrow>
   triple (spends c0 n s x) (follow_redirects h v u data k x) (spends c0 m s) (\<lambda>_. spent m s)"
proof (induction k arbitrary: n x)
  case 0
  then show ?case by (auto simp: triple_def spends_def intro: spent_mono)
next
  case (Suc k)
  obtain resp rq hs c where x: "x = (resp, rq, hs, c)" by (cases x)
  have n: "n \<le> m" using Suc.prems by simp
  have step: "triple (spends c0 n s x)
      (bindE (liftE (readBody resp)) (\<lambda>_. bindE (prepare h c v u' (redirect_headers u u' hs)) (\<lambda>(rq', c').
        bindE (requestRaw h rq' data) (\<lambda>resp'.
          follow_redirects h v u data k (resp', rq', redirect_headers u u' hs, c')))))
      (spends c0 m s) (\<lambda>_. spent m s)" for u'
  proof (rule triple_bindE)
    show "triple (spends c0 n s x) (liftE (readBody resp)) (\<lambda>_. spends c0 n s x) (\<lambda>_. spent m s)"
      using n by (auto simp: triple_def spends_def intro: spent_mono split: sum.splits)
    fix b
    show "triple (spends c0 n s x) (bindE (prepare h c v u' (redirect_headers u u' hs)) (\<lambda>(rq', c').
        bindE (requestRaw h rq' data) (\<lambda>resp'.
          follow_redirects h v u data k (resp', rq', redirect_headers u u' hs, c'))))
        (spends c0 m s) (\<lambda>_. spent m s)"
    proof (rule triple_bindE)
      show "triple (spends c0 n s x) (prepare h c v u' (redirect_headers u u' hs))
          (\<lambda>(rq', c') w. spent n s w \<and> same_config c0 c') (\<lambda>_. spent m s)"
        by (rule prepare_triple)
          (use x n in \<open>auto simp: spends_def intro: spent_mono same_config_trans dest: prepareRequest_config\<close>)
      fix y :: "http_req \<times> http_client" obtain rq' c' where y: "y = (rq', c')" by (cases y)
      have "triple (spent n s) (requestRaw h rq' data)
          (\<lambda>resp'. spends c0 (Suc n) s (resp', rq', redirect_headers u u' hs, c')) (\<lambda>_. spent m s)"
        if "same_config c0 c'"
        by (rule triple_conseq [OF requestRaw_spent])
          (use that Suc.prems in \<open>auto simp: spends_def intro: spent_mono\<close>)
      then show "triple (case y of (rq', c') \<Rightarrow> \<lambda>w. spent n s w \<and> same_config c0 c')
          (case y of (rq', c') \<Rightarrow> bindE (requestRaw h rq' data) (\<lambda>resp'.
             follow_redirects h v u data k (resp', rq', redirect_headers u u' hs, c')))
          (spends c0 m s) (\<lambda>_. spent m s)"
        unfolding y prod.case using Suc.prems
        by (intro triple_pull triple_bindE [OF _ Suc.IH [of "Suc n"]]) auto
    qed
  qed
  have "triple (spends c0 n s x) (retE x) (spends c0 m s) (\<lambda>_. spent m s)"
    and "triple (spends c0 n s x) (throwE e) (spends c0 m s) (\<lambda>_. spent m s)" for e
    using n by (auto simp: triple_def spends_def intro: spent_mono)
  then show ?case unfolding x follow_redirects_Suc
    using step x by (auto split: option.splits)
qed

text \<open>The waits of a run of the loop are a prefix of the backoff sequence.\<close>

definition waited :: "nat \<Rightarrow> nat list \<Rightarrow> nat \<Rightarrow> nat \<Rightarrow> world \<Rightarrow> bool" where
  "waited n s t left w \<longleftrightarrow> (\<exists>k\<le>left. spent n (s @ backoffs t k) w)"

lemma waited_0: "spent n s w \<Longrightarrow> n \<le> m \<Longrightarrow> waited m s t left w"
  by (auto simp: waited_def spent_def intro: exI [of _ 0])

lemma waited_Suc:
  "waited m (s @ [5 * 2 ^ min 10 (Suc t)]) (Suc t) left w \<Longrightarrow> waited m s t (Suc left) w"
  unfolding waited_def using backoffs_Suc by (metis Suc_le_mono append.assoc append_Cons append_Nil)

lemma loop_spent:
  assumes "hc_handlers c = []" and "n + (left + 1) * (hc_maxRedirects c + 1) \<le> m"
  shows "triple (spent n s) (request_loop h v u data left t rq hs c)
    (\<lambda>_. waited m s t left) (\<lambda>_. waited m s t left)"
  using assms
proof (induction left arbitrary: t rq hs c n s)
  case (0 t rq hs c n s)
  let ?n = "Suc n + hc_maxRedirects c"
  have n: "?n \<le> m" "Suc n \<le> m" using 0 by auto
  show ?case unfolding request_loop.simps [of _ _ _ _ 0] nat.case
  proof (rule triple_bindE)
    show "triple (spent n s) (requestRaw h rq data) (\<lambda>_. spent (Suc n) s) (\<lambda>_. waited m s t 0)"
      by (rule triple_conseq [OF requestRaw_spent]) (use n in \<open>auto intro: waited_0\<close>)
    fix resp
    have "triple (spent (Suc n) s) (bindE (follow_redirects h v u data (hc_maxRedirects c) (resp, rq, hs, c))
        (\<lambda>(resp', rq', hs', c'). retE (resp', rq', hs', c'))) (\<lambda>_. waited m s t 0) (\<lambda>_. waited m s t 0)"
      using redirects_spent [of "Suc n" "hc_maxRedirects c" ?n c s "(resp, rq, hs, c)"] n
      by (auto intro!: triple_conseq [OF redirects_spent [of "Suc n" "hc_maxRedirects c" ?n c s]]
          simp: spends_def same_config_def intro: waited_0)
    then show "triple (spent (Suc n) s) (if rs_status resp = 401
       then (case find (\<lambda>ah. hd_canHandleAuthentication ah resp) (hc_handlers c) of
               Some ah \<Rightarrow> bindE (hd_handleAuthentication ah rq) (\<lambda>resp'. retE (resp', rq, hs, c))
             | None \<Rightarrow> retE (resp, rq, hs, c))
       else
         bindE (follow_redirects h v u data (hc_maxRedirects c) (resp, rq, hs, c))
           (\<lambda>(resp', rq', hs', c').
            if rs_status resp' = 0 \<or> rs_status resp' \<notin> set HttpResponseRetryCodes
            then retE (resp', rq', hs', c') else retE (resp', rq', hs', c')))
       (\<lambda>_. waited m s t 0) (\<lambda>_. waited m s t 0)"
      using 0(1) n by (auto simp: triple_def intro: waited_0 split: if_splits)
  qed
next
  case (Suc left t rq hs c n s)
  let ?n = "Suc n + hc_maxRedirects c" and ?W = "waited m s t (Suc left)"
  let ?again = "\<lambda>resp' rq' hs' c'. bindE (liftE (readBody resp')) (\<lambda>_. thenE (performExponentialBackoff (Suc t))
        (request_loop h v u data left (Suc t) rq' hs' c'))"
  have n: "?n \<le> m" "Suc n \<le> m" using Suc.prems by auto
  have again: "triple (spends c ?n s (resp', rq', hs', c')) (?again resp' rq' hs' c') (\<lambda>_. ?W) (\<lambda>_. ?W)"
    for resp' rq' hs' c'
  proof -
    have "triple (spent ?n s) (?again resp' rq' hs' c') (\<lambda>_. ?W) (\<lambda>_. ?W)" if c: "same_config c c'"
    proof (rule triple_bindE)
      show "triple (spent ?n s) (liftE (readBody resp')) (\<lambda>_. spent ?n s) (\<lambda>_. ?W)"
        using n by (auto simp: triple_def intro: waited_0 split: sum.splits)
      fix b
      have "triple (spent ?n (s @ [5 * 2 ^ min 10 (Suc t)])) (request_loop h v u data left (Suc t) rq' hs' c')
          (\<lambda>_. ?W) (\<lambda>_. ?W)"
        by (rule triple_conseq [OF Suc.IH]) (use Suc.prems c in \<open>auto simp: same_config_fields [OF c] intro: waited_Suc\<close>)
      then show "triple (spent ?n s) (thenE (performExponentialBackoff (Suc t))
        (request_loop h v u data left (Suc t) rq' hs' c')) (\<lambda>_. ?W) (\<lambda>_. ?W)"
        unfolding performExponentialBackoff_def
        by (intro triple_thenE [OF triple_sleep])
          (simp_all add: spent_def ExponentialBackoffTimeSlice_def ExponentialBackoffCeiling_def)
    qed
    then show ?thesis by (auto simp: triple_def spends_def)
  qed
  show ?case unfolding request_loop.simps [of _ _ _ _ "Suc left"] nat.case
  proof (rule triple_bindE)
    show "triple (spent n s) (requestRaw h rq data) (\<lambda>_. spent (Suc n) s) (\<lambda>_. ?W)"
      by (rule triple_conseq [OF requestRaw_spent]) (use n in \<open>auto intro: waited_0\<close>)
    fix resp
    have "triple (spends c (Suc n) s (resp, rq, hs, c))
        (bindE (follow_redirects h v u data (hc_maxRedirects c) (resp, rq, hs, c))
        (\<lambda>(resp', rq', hs', c').
            if rs_status resp' = 0 \<or> rs_status resp' \<notin> set HttpResponseRetryCodes
            then retE (resp', rq', hs', c') else ?again resp' rq' hs' c')) (\<lambda>_. ?W) (\<lambda>_. ?W)"
    proof (rule triple_bindE)
      show "triple (spends c (Suc n) s (resp, rq, hs, c))
          (follow_redirects h v u data (hc_maxRedirects c) (resp, rq, hs, c)) (spends c ?n s) (\<lambda>_. ?W)"
        by (rule triple_conseq [OF redirects_spent [of "Suc n" "hc_maxRedirects c" ?n c s]])
          (use n in \<open>auto intro: waited_0\<close>)
      fix x :: exchange
      show "triple (spends c ?n s x) (case x of (resp', rq', hs', c') \<Rightarrow>
            if rs_status resp' = 0 \<or> rs_status resp' \<notin> set HttpResponseRetryCodes
            then retE (resp', rq', hs', c') else ?again resp' rq' hs' c') (\<lambda>_. ?W) (\<lambda>_. ?W)"
        using again n by (cases x) (auto simp: triple_def [of _ "retE _"] spends_def [of c _ s _ w for w] intro: waited_0)
    qed
    then show "triple (spent (Suc n) s) (if rs_status resp = 401
       then (case find (\<lambda>ah. hd_canHandleAuthentication ah resp) (hc_handlers c) of
               Some ah \<Rightarrow> bindE (hd_handleAuthentication ah rq) (\<lambda>resp'. retE (resp', rq, hs, c))
             | None \<Rightarrow> retE (resp, rq, hs, c))
       else
         bindE (follow_redirects h v u data (hc_maxRedirects c) (resp, rq, hs, c))
           (\<lambda>(resp', rq', hs', c').
            if rs_status resp' = 0 \<or> rs_status resp' \<notin> set HttpResponseRetryCodes
            then retE (resp', rq', hs', c') else ?again resp' rq' hs' c'))
       (\<lambda>_. ?W) (\<lambda>_. ?W)"
      using Suc.prems(1) n by (auto simp: triple_def spends_def same_config_def intro: waited_0 split: if_splits)
  qed
qed

lemma request_spent:
  assumes "hc_handlers c = []" and "request h c v requestUrl data hs w = (r, w')"
  shows "waited (length (w_reqs w) + nat (max 1 (maxTries c v)) * (hc_maxRedirects c + 1)) (w_sleeps w) 0
           (nat (maxTries c v - 1)) w'"
proof -
  let ?l = "nat (maxTries c v - 1)" and ?n = "length (w_reqs w)"
  let ?m = "?n + nat (max 1 (maxTries c v)) * (hc_maxRedirects c + 1)"
  let ?W = "waited ?m (w_sleeps w) 0 ?l"
  have l: "nat (max 1 (maxTries c v)) = ?l + 1" by linarith
  have "triple (spent ?n (w_sleeps w)) (request h c v requestUrl data hs) (\<lambda>_. ?W) (\<lambda>_. ?W)"
  proof -
    have "triple (spent ?n (w_sleeps w)) (bindE (prepare h c v u hs) (\<lambda>(rq, c').
        request_loop h v u data ?l 0 rq hs c')) (\<lambda>_. ?W) (\<lambda>_. ?W)" for u
    proof (rule triple_bindE)
      show "triple (spent ?n (w_sleeps w)) (prepare h c v u hs)
          (\<lambda>(rq, c') w'. spent ?n (w_sleeps w) w' \<and> same_config c c') (\<lambda>_. ?W)"
        by (rule prepare_triple) (auto dest: prepareRequest_config intro: waited_0)
      fix y :: "http_req \<times> http_client"
      have "triple (spent ?n (w_sleeps w)) (request_loop h v u data ?l 0 rq hs c') (\<lambda>_. ?W) (\<lambda>_. ?W)"
        if "same_config c c'" for rq c'
        by (rule loop_spent) (simp_all add: same_config_fields [OF that] assms(1) l)
      then show "triple (case y of (rq, c') \<Rightarrow> \<lambda>w'. spent ?n (w_sleeps w) w' \<and> same_config c c')
          (case y of (rq, c') \<Rightarrow> request_loop h v u data ?l 0 rq hs c') (\<lambda>_. ?W) (\<lambda>_. ?W)"
        by (cases y) (auto intro: triple_pull)
    qed
    moreover have "triple (spent ?n (w_sleeps w)) (throwE e) (\<lambda>_. ?W) (\<lambda>_. ?W)" for e
      by (auto simp: triple_def intro: waited_0)
    ultimately show ?thesis by (auto simp: request_def split: option.splits)
  qed
  moreover have "spent ?n (w_sleeps w) w" by (simp add: spent_def)
  ultimately show ?thesis using assms(2) by (cases r) (fastforce simp: triple_def)+
qed

section \<open>The answer and the frame\<close>

text \<open>The response returned is the server's answer to the last request of the log.\<close>

definition answers :: "host \<Rightarrow> exchange \<Rightarrow> world \<Rightarrow> bool" where
  "answers h x w \<longleftrightarrow> (case x of (resp, rq, hs, c) \<Rightarrow>
     w_reqs w \<noteq> [] \<and> first_result (rq_path rq) (h_http h (w_reqs w)) = Inr resp)"

lemma requestRaw_answers: "requestRaw h rq data w = (Inr resp, w') \<Longrightarrow> answers h (resp, rq, hs, c) w'"
  by (auto simp: requestRaw_def Let_def answers_def)

lemma prepare_Inr: "prepare h c v u hs w = (Inr y, w') \<Longrightarrow> w' = w \<and> same_config c (snd y)"
  by (cases y) (auto simp: prepare_def dest: prepareRequest_config)

lemma follow_redirects_Inr:
  "follow_redirects h v u data k (resp, rq, hs, c) w = (Inr y, w') \<Longrightarrow> answers h (resp, rq, hs, c) w \<Longrightarrow>
   answers h y w' \<and> same_config c (snd (snd (snd y)))"
proof (induction k arbitrary: resp rq hs c w)
  case 0
  then show ?case by auto
next
  case (Suc k)
  have again: ?case
    if "bindE (liftE (readBody resp)) (\<lambda>_. bindE (prepare h c v u' hs1) (\<lambda>(rq', c').
          bindE (requestRaw h rq' data) (\<lambda>resp'. follow_redirects h v u data k (resp', rq', hs2, c')))) w = (Inr y, w')"
    for u' hs1 hs2
  proof -
    note step = that
    obtain q w1 where p: "prepare h c v u' hs1 w = (Inr q, w1)"
      and q: "(case q of (rq', c') \<Rightarrow> bindE (requestRaw h rq' data)
          (\<lambda>resp'. follow_redirects h v u data k (resp', rq', hs2, c'))) w1 = (Inr y, w')"
      using step by (elim bindE_InrE) simp
    obtain rq' c' where qq: "q = (rq', c')" by (cases q)
    with q obtain resp' w2 where *: "requestRaw h rq' data w1 = (Inr resp', w2)"
        "follow_redirects h v u data k (resp', rq', hs2, c') w2 = (Inr y, w')"
      unfolding qq prod.case by (elim bindE_InrE) blast
    from Suc.IH [OF *(2) requestRaw_answers [OF *(1)]] prepare_Inr [OF p] qq show ?thesis
      by (auto intro: same_config_trans)
  qed
  show ?case
    using Suc.prems again
    by (auto simp: follow_redirects_Suc split: if_splits option.splits)
qed

lemma loop_Suc:
  "hc_handlers c = [] \<Longrightarrow> request_loop h v u data (Suc left) t rq hs c =
     bindE (requestRaw h rq data) (\<lambda>resp. if rs_status resp = 401 then retE (resp, rq, hs, c)
       else bindE (follow_redirects h v u data (hc_maxRedirects c) (resp, rq, hs, c))
         (\<lambda>(resp', rq', hs', c').
            if rs_status resp' = 0 \<or> rs_status resp' \<notin> set HttpResponseRetryCodes
            then retE (resp', rq', hs', c')
            else bindE (liftE (readBody resp')) (\<lambda>_. thenE (performExponentialBackoff (Suc t))
                   (request_loop h v u data left (Suc t) rq' hs' c'))))"
  by (subst request_loop.simps) (simp cong: if_cong)

text \<open>One try: what it returns answers the last request, or it starts the next one.\<close>

lemma loop_Inr:
  "request_loop h v u data left t rq hs c w = (Inr y, w') \<Longrightarrow> hc_handlers c = [] \<Longrightarrow> answers h y w'"
proof (induction left arbitrary: t rq hs c w)
  case (0 t rq hs c w)
  from 0(1) show ?case
    unfolding request_loop.simps [of _ _ _ _ 0] nat.case bindE_Inr_iff
    using 0(2) by (fastforce dest: requestRaw_answers [of _ _ _ _ _ _ hs c] follow_redirects_Inr split: if_splits)
next
  case (Suc left t rq hs c w)
  from Suc.prems(1) obtain resp w1 where raw: "requestRaw h rq data w = (Inr resp, w1)"
    and rest: "(if rs_status resp = 401 then retE (resp, rq, hs, c)
       else bindE (follow_redirects h v u data (hc_maxRedirects c) (resp, rq, hs, c))
         (\<lambda>(resp', rq', hs', c').
            if rs_status resp' = 0 \<or> rs_status resp' \<notin> set HttpResponseRetryCodes
            then retE (resp', rq', hs', c')
            else bindE (liftE (readBody resp')) (\<lambda>_. thenE (performExponentialBackoff (Suc t))
                   (request_loop h v u data left (Suc t) rq' hs' c')))) w1 = (Inr y, w')"
    by (auto simp: loop_Suc [OF Suc.prems(2)] bindE_Inr_iff)
  note a = requestRaw_answers [OF raw, of hs c]
  show ?case
  proof (cases "rs_status resp = 401")
    case True
    with rest a show ?thesis by auto
  next
    case False
    with rest obtain resp' rq' hs' c' w2
      where f: "follow_redirects h v u data (hc_maxRedirects c) (resp, rq, hs, c) w1 = (Inr (resp', rq', hs', c'), w2)"
        and g: "(if rs_status resp' = 0 \<or> rs_status resp' \<notin> set HttpResponseRetryCodes
            then retE (resp', rq', hs', c')
            else bindE (liftE (readBody resp')) (\<lambda>_. thenE (performExponentialBackoff (Suc t))
                   (request_loop h v u data left (Suc t) rq' hs' c'))) w2 = (Inr y, w')"
      by (fastforce simp: bindE_Inr_iff)
    from follow_redirects_Inr [OF f a] have b: "answers h (resp', rq', hs', c') w2" "hc_handlers c' = []"
      using Suc.prems(2) by (auto simp: same_config_fields)
    show ?thesis
      using g b Suc.IH [OF _ b(2)] by (auto simp: bindE_Inr_iff thenE_def split: if_splits)
  qed
qed

lemma request_Inr:
  assumes "request h c v requestUrl data hs w = (Inr y, w')" and "hc_handlers c = []"
  shows "answers h y w'"
  using assms
  by (fastforce simp: request_def bindE_Inr_iff same_config_fields dest!: prepare_Inr
      intro: loop_Inr split: if_splits option.splits)

lemma keeps_bindE_strong:
  assumes "keeps g m" and "\<And>x w w'. m w = (Inr x, w') \<Longrightarrow> keeps g (f x)"
  shows "keeps g (bindE m f)"
  unfolding keeps_def
proof
  fix w obtain r w' where r: "m w = (r, w')" by (cases "m w")
  from keepsD [OF assms(1) r] r show "g (snd (bindE m f w)) = g w"
    using assms(2) by (cases r) (auto simp: bindE_def keeps_def)
qed

lemma keeps_requestRaw [keeps_rules]:
  "(\<And>w x. g (w\<lparr>w_reqs := x\<rparr>) = g w) \<Longrightarrow> keeps g (requestRaw h rq data)"
  by (simp add: keeps_def requestRaw_def Let_def)

lemma keeps_prepare [keeps_rules]: "keeps g (prepare h c v u hs)"
  by (simp add: keeps_def prepare_def)

lemma keeps_follow_redirects:
  assumes "\<And>w x. g (w\<lparr>w_reqs := x\<rparr>) = g w"
  shows "keeps g (follow_redirects h v u data k x)"
proof (induction k arbitrary: x)
  case (Suc k)
  obtain resp rq hs c where "x = (resp, rq, hs, c)" by (cases x)
  then show ?case
    by (auto simp: follow_redirects_Suc intro!: keeps_rules assms Suc.IH split: option.splits)
qed simp

lemma follow_redirects_config:
  assumes "follow_redirects h v u data k (resp, rq, hs, c) w = (Inr (resp', rq', hs', c'), w')"
  shows "same_config c c'"
proof -
  let ?n = "length (w_reqs w)"
  have "spends c ?n (w_sleeps w) (resp, rq, hs, c) w" by (simp add: spends_def spent_def)
  from tripleD_Inr [OF redirects_spent [OF order_refl] this assms] show ?thesis by (simp add: spends_def)
qed

lemma keeps_loop:
  assumes "\<And>w x. g (w\<lparr>w_reqs := x\<rparr>) = g w" and "\<And>w x. g (w\<lparr>w_sleeps := x\<rparr>) = g w"
  shows "hc_handlers c = [] \<Longrightarrow> keeps g (request_loop h v u data left t rq hs c)"
proof (induction left arbitrary: t rq hs c)
  case (0 t rq hs c)
  then show ?case
    unfolding request_loop.simps [of _ _ _ _ 0] nat.case
    by (auto intro!: keeps_rules assms keeps_follow_redirects)
next
  case (Suc left t rq hs c)
  have "keeps g (request_loop h v u data left (Suc t) rq' hs' c')"
    if "follow_redirects h v u data k (resp, rq, hs, c) w = (Inr (resp', rq', hs', c'), w')"
    for k resp w resp' rq' hs' c' w'
    using follow_redirects_config [OF that] Suc by (simp add: same_config_fields)
  then show ?case
    unfolding loop_Suc [OF Suc.prems]
    by (auto intro!: keeps_rules assms keeps_bindE_strong [OF keeps_follow_redirects [OF assms(1)]]
        simp: performExponentialBackoff_def)
qed

lemma keeps_request:
  assumes "hc_handlers c = []" and "\<And>w x. g (w\<lparr>w_reqs := x\<rparr>) = g w"
    and "\<And>w x. g (w\<lparr>w_sleeps := x\<rparr>) = g w"
  shows "keeps g (request h c v requestUrl data hs)"
  unfolding request_def
  by (auto intro!: keeps_rules keeps_bindE_strong keeps_loop assms
      dest!: prepare_Inr simp: same_config_fields split: option.splits)

section \<open>Properties\<close>

text \<open>A client with default options.\<close>

definition plain_client :: http_client where
  "plain_client = new_HttpClient good_world ''demo'' [] None"

lemma plain_client_fields [simp]:
  "hc_handlers plain_client = []" "\<not> hc_allowRedirectDowngrade plain_client" "\<not> hc_ignoreSslError plain_client"
  "hc_requestOptions plain_client = None" "hc_maxRedirects plain_client = 50" "\<not> hc_allowRetries plain_client"
  by (simp_all add: plain_client_def new_HttpClient_def)

lemma demo_urls:
  "h_url demo_host ''https://oras.test/plain'' = Some \<lparr>u_protocol = ''https:'', u_hostname = ''oras.test'', u_port = [],
     u_pathname = ''/plain'', u_search = [], u_username = [], u_password = [], u_href = ''https://oras.test/plain''\<rparr>"
  by code_simp





text \<open>
  C35: the number of requests and the waits of one call are bounded: at most (tries times (redirects
  plus 1)) requests are sent, at most tries - 1 waits happen, and they are the first terms of the
  backoff sequence 10, 20, 40, ... milliseconds, none of which is above 5120.
\<close>

theorem request_is_bounded:
  assumes "hc_handlers c = []" and "request h c verb requestUrl data hs w = (r, w')"
  shows "length (w_reqs w') \<le> length (w_reqs w) + nat (max 1 (maxTries c verb)) * (hc_maxRedirects c + 1) \<and>
    (\<exists>k \<le> nat (maxTries c verb - 1). w_sleeps w' = w_sleeps w @ map (\<lambda>i. 5 * 2 ^ min 10 i) [1..<Suc k] \<and>
       (\<forall>t \<in> set (map (\<lambda>i. 5 * 2 ^ min 10 i) [1..<Suc k]). t \<le> (5120::nat)))"
proof -
  from request_spent [OF assms] obtain k where k: "k \<le> nat (maxTries c verb - 1)"
    and s: "w_sleeps w' = w_sleeps w @ backoffs 0 k"
      "length (w_reqs w') \<le> length (w_reqs w) + nat (max 1 (maxTries c verb)) * (hc_maxRedirects c + 1)"
    by (auto simp: waited_def spent_def)
  have b: "backoffs 0 k = map (\<lambda>i. 5 * 2 ^ min 10 i) [1..<Suc k]" by (simp add: backoffs_def)
  have "\<forall>t \<in> set (map (\<lambda>i. 5 * 2 ^ min 10 i) [1..<Suc k]). t \<le> (5120::nat)"
    unfolding b [symmetric] using backoffs_le by blast
  with k s(2) s(1) [unfolded b] show ?thesis by blast
qed

theorem request_is_bounded_witness:
  "length (w_reqs (snd (request demo_host plain_client ''GET'' ''https://oras.test/busy'' None None good_world))) \<le> 51"
proof -
  let ?req = "request demo_host plain_client ''GET'' ''https://oras.test/busy'' None None good_world"
  from request_is_bounded [of plain_client demo_host "''GET''" "''https://oras.test/busy''" None None good_world "fst ?req" "snd ?req"]
  show ?thesis by (simp add: maxTries_def good_world_def demo_world_def)
qed

end
