(* ===== verification/CmdLine.thy ===== *)
theory CmdLine
  imports World Machine
begin

text \<open>
  Command lines: \<open>argStringToArray\<close> and the string-building methods of \<open>ToolRunner\<close> in
  \<open>@actions/exec/lib/toolrunner.js\<close>.

  The two quoting routines build their result backwards; the lemmas relate them to the reading of a
  quoted argument that Windows documents (\<open>unquote_argv\<close>: the C runtime's backslash rules,
  \<open>unquote_cmd\<close>: the variant where a doubled quote is a quote), and the line buffer to the lines of
  the whole output.
\<close>

abbreviation (input) QUOTE :: char where "QUOTE \<equiv> CHR 0x22"
abbreviation (input) BSLASH :: char where "BSLASH \<equiv> CHR 0x5C"

section \<open>argStringToArray\<close>

record arg_state =
  as_args :: "string list"
  as_inQuotes :: bool
  as_escaped :: bool
  as_arg :: string

definition arg_init :: arg_state where
  "arg_init = \<lparr>as_args = [], as_inQuotes = False, as_escaped = False, as_arg = []\<rparr>"

definition arg_append :: "char \<Rightarrow> arg_state \<Rightarrow> arg_state" where
  "arg_append c st = st\<lparr>
     as_arg := as_arg st @ (if as_escaped st \<and> c \<noteq> QUOTE then [BSLASH] else []) @ [c],
     as_escaped := False\<rparr>"

definition arg_step :: "char \<Rightarrow> arg_state \<Rightarrow> arg_state" where
  "arg_step c st =
     (if c = QUOTE
      then (if \<not> as_escaped st then st\<lparr>as_inQuotes := \<not> as_inQuotes st\<rparr> else arg_append c st)
      else if c = BSLASH \<and> as_escaped st then arg_append c st
      else if c = BSLASH \<and> as_inQuotes st then st\<lparr>as_escaped := True\<rparr>
      else if c = CHR '' '' \<and> \<not> as_inQuotes st
      then (if as_arg st \<noteq> [] then st\<lparr>as_args := as_args st @ [as_arg st], as_arg := []\<rparr> else st)
      else arg_append c st)"

definition argStringToArray :: "string \<Rightarrow> string list" where
  "argStringToArray argString =
     (let st = fold arg_step argString arg_init in
      if as_arg st \<noteq> [] then as_args st @ [js_trim (as_arg st)] else as_args st)"

section \<open>Options\<close>

record exec_options =
  eo_cwd :: "string option"
  eo_env :: "(string \<Rightarrow> string option) option"
  eo_silent :: bool
  eo_windowsVerbatimArguments :: bool
  eo_failOnStdErr :: bool
  eo_ignoreReturnCode :: bool
  eo_delay :: "nat option"

definition no_options :: exec_options where
  "no_options = \<lparr>eo_cwd = None, eo_env = None, eo_silent = False, eo_windowsVerbatimArguments = False,
     eo_failOnStdErr = False, eo_ignoreReturnCode = False, eo_delay = None\<rparr>"

record tool_runner =
  tr_toolPath :: string
  tr_args :: "string list"
  tr_options :: exec_options

definition new_ToolRunner :: "string \<Rightarrow> string list \<Rightarrow> exec_options \<Rightarrow> tool_runner res" where
  "new_ToolRunner toolPath args options =
     (if toolPath = [] then Inl (Error (''Parameter '' @ [CHR 0x27] @ ''toolPath'' @ [CHR 0x27] @ '' cannot be null or empty.''))
      else Inr \<lparr>tr_toolPath = toolPath, tr_args = args, tr_options = options\<rparr>)"

text \<open>
  The options with every default filled in. A falsy \<open>cwd\<close> or \<open>delay\<close> (the empty string, zero) counts
  as absent.
\<close>

record full_options =
  fo_cwd :: string
  fo_env :: "string \<Rightarrow> string option"
  fo_silent :: bool
  fo_windowsVerbatimArguments :: bool
  fo_failOnStdErr :: bool
  fo_ignoreReturnCode :: bool
  fo_delay :: nat

definition cloneExecOptions :: "host \<Rightarrow> world \<Rightarrow> exec_options \<Rightarrow> full_options" where
  "cloneExecOptions h w options =
     \<lparr>fo_cwd = (case eo_cwd options of Some d \<Rightarrow> if d = [] then h_cwd h else d | None \<Rightarrow> h_cwd h),
      fo_env = (case eo_env options of Some e \<Rightarrow> e | None \<Rightarrow> w_env w),
      fo_silent = eo_silent options,
      fo_windowsVerbatimArguments = eo_windowsVerbatimArguments options,
      fo_failOnStdErr = eo_failOnStdErr options,
      fo_ignoreReturnCode = eo_ignoreReturnCode options,
      fo_delay = (case eo_delay options of Some d \<Rightarrow> if d = 0 then 10000 else d | None \<Rightarrow> 10000)\<rparr>"

section \<open>Quoting\<close>

definition isCmdFile :: "string \<Rightarrow> bool" where
  "isCmdFile toolPath =
     (let upperToolPath = to_upper toolPath in
      ends_with upperToolPath ''.CMD'' \<or> ends_with upperToolPath ''.BAT'')"

definition getSpawnOptions :: "exec_options \<Rightarrow> string \<Rightarrow> string \<Rightarrow> string \<Rightarrow> string list \<Rightarrow> spawn" where
  "getSpawnOptions options runnerPath toolPath file args =
     \<lparr>sp_file = file, sp_args = args, sp_cwd = eo_cwd options, sp_env = eo_env options,
      sp_verbatim = (eo_windowsVerbatimArguments options \<or> isCmdFile runnerPath),
      sp_argv0 = (if eo_windowsVerbatimArguments options
                  then Some ([QUOTE] @ toolPath @ [QUOTE]) else None)\<rparr>"

text \<open>
  The backward loops. The second argument is the reversed rest of the argument, the result what is
  appended to \<open>reverse\<close>.
\<close>

fun uv_quote_loop :: "bool \<Rightarrow> string \<Rightarrow> string" where
  "uv_quote_loop quoteHit [] = []"
| "uv_quote_loop quoteHit (c # cs) =
     c # (if quoteHit \<and> c = BSLASH then BSLASH # uv_quote_loop quoteHit cs
          else if c = QUOTE then BSLASH # uv_quote_loop True cs
          else uv_quote_loop False cs)"

definition uvQuoteCmdArg :: "string \<Rightarrow> string" where
  "uvQuoteCmdArg arg =
     (if arg = [] then [QUOTE, QUOTE]
      else if CHR '' '' \<notin> set arg \<and> CHR 0x09 \<notin> set arg \<and> QUOTE \<notin> set arg then arg
      else if QUOTE \<notin> set arg \<and> BSLASH \<notin> set arg then [QUOTE] @ arg @ [QUOTE]
      else rev ([QUOTE] @ uv_quote_loop True (rev arg) @ [QUOTE]))"

definition cmdSpecialChars :: "char list" where
  "cmdSpecialChars =
     [CHR '' '', CHR 0x09, CHR ''&'', CHR ''('', CHR '')'', CHR ''['', CHR '']'', CHR ''{'', CHR ''}'',
      CHR ''^'', CHR ''='', CHR '';'', CHR ''!'', CHR 0x27, CHR ''+'', CHR '','', CHR 0x60, CHR ''~'',
      CHR ''|'', CHR ''<'', CHR ''>'', QUOTE]"

fun cmd_quote_loop :: "bool \<Rightarrow> string \<Rightarrow> string" where
  "cmd_quote_loop quoteHit [] = []"
| "cmd_quote_loop quoteHit (c # cs) =
     c # (if quoteHit \<and> c = BSLASH then BSLASH # cmd_quote_loop quoteHit cs
          else if c = QUOTE then QUOTE # cmd_quote_loop True cs
          else cmd_quote_loop False cs)"

definition windowsQuoteCmdArg :: "string \<Rightarrow> string \<Rightarrow> string" where
  "windowsQuoteCmdArg toolPath arg =
     (if \<not> isCmdFile toolPath then uvQuoteCmdArg arg
      else if arg = [] then [QUOTE, QUOTE]
      else if \<not> list_ex (\<lambda>c. c \<in> set cmdSpecialChars) arg then arg
      else rev ([QUOTE] @ cmd_quote_loop True (rev arg) @ [QUOTE]))"

definition getSpawnFileName :: "host \<Rightarrow> world \<Rightarrow> tool_runner \<Rightarrow> string" where
  "getSpawnFileName h w r =
     (if is_windows h \<and> isCmdFile (tr_toolPath r)
      then (if env_or ''COMSPEC'' w \<noteq> [] then env_or ''COMSPEC'' w else ''cmd.exe'')
      else tr_toolPath r)"

definition getSpawnArgs :: "host \<Rightarrow> tool_runner \<Rightarrow> bool \<Rightarrow> string list" where
  "getSpawnArgs h r verbatim =
     (if is_windows h \<and> isCmdFile (tr_toolPath r)
      then [''/D /S /C '' @ [QUOTE] @ windowsQuoteCmdArg (tr_toolPath r) (tr_toolPath r) @
            concat (map (\<lambda>a. '' '' @ (if verbatim then a else windowsQuoteCmdArg (tr_toolPath r) a)) (tr_args r)) @
            [QUOTE]]
      else tr_args r)"

definition getCommandString :: "host \<Rightarrow> world \<Rightarrow> tool_runner \<Rightarrow> bool \<Rightarrow> bool \<Rightarrow> string" where
  "getCommandString h w r verbatim noPrefix =
     (let toolPath = getSpawnFileName h w r; args = getSpawnArgs h r verbatim;
          cmd = (if noPrefix then [] else ''[command]'') in
      if is_windows h
      then (if isCmdFile (tr_toolPath r)
            then cmd @ toolPath @ concat (map (\<lambda>a. '' '' @ a) args)
            else if verbatim
            then cmd @ [QUOTE] @ toolPath @ [QUOTE] @ concat (map (\<lambda>a. '' '' @ a) args)
            else cmd @ windowsQuoteCmdArg (tr_toolPath r) toolPath @
                 concat (map (\<lambda>a. '' '' @ windowsQuoteCmdArg (tr_toolPath r) a) args))
      else cmd @ toolPath @ concat (map (\<lambda>a. '' '' @ a) args))"

section \<open>The line buffer\<close>

lemma eol_not_Nil [simp]: "eol h \<noteq> []"
  by (simp add: eol_def)

text \<open>
  \<open>_processLineBuffer\<close>: the lines handed to the callback, and the text left in the buffer. A
  callback that throws (\<open>bad\<close>) ends the loop with an empty buffer.
\<close>

function line_loop :: "host \<Rightarrow> (string \<Rightarrow> bool) \<Rightarrow> string \<Rightarrow> string list \<times> string" where
  "line_loop h bad s =
     (case index_of s (eol h) of
        None \<Rightarrow> ([], s)
      | Some n \<Rightarrow>
          (let line = take n s in
           if bad line then ([line], [])
           else (case line_loop h bad (drop (n + length (eol h)) s) of (ls, r) \<Rightarrow> (line # ls, r))))"
  by pat_completeness auto
termination
proof (relation "measure (\<lambda>(h, bad, s). length s)", goal_cases)
  case (2 h bad s n line)
  then have "length (eol h) \<le> length s" using index_of_Some by fastforce
  moreover have "0 < length (eol h)" unfolding length_greater_0_conv by (rule eol_not_Nil)
  ultimately have "0 < length s" by linarith
  with \<open>0 < length (eol h)\<close> show ?case
    unfolding in_measure prod.case length_drop by linarith
qed simp

declare line_loop.simps [simp del]

definition processLineBuffer ::
  "host \<Rightarrow> (string \<Rightarrow> bool) \<Rightarrow> string \<Rightarrow> string \<Rightarrow> string list \<times> string" where
  "processLineBuffer h bad data strBuffer = line_loop h bad (strBuffer @ data)"

section \<open>Facts on argStringToArray\<close>

text \<open>
  Inside quotes, what has been collected plus a pending backslash is the text read: nothing is lost
  and nothing is added, as long as no quote is met.
\<close>

definition collected :: "arg_state \<Rightarrow> string" where
  "collected st = as_arg st @ (if as_escaped st then [BSLASH] else [])"

lemma arg_step_in_quotes:
  assumes "as_inQuotes st" and "c \<noteq> QUOTE"
  shows "as_inQuotes (arg_step c st)" "as_args (arg_step c st) = as_args st"
    "collected (arg_step c st) = collected st @ [c]"
    "c \<noteq> BSLASH \<Longrightarrow> \<not> as_escaped (arg_step c st)"
  using assms by (auto simp: arg_step_def arg_append_def collected_def)

lemma fold_in_quotes:
  assumes "as_inQuotes st" and "QUOTE \<notin> set p"
  shows "as_inQuotes (fold arg_step p st) \<and> as_args (fold arg_step p st) = as_args st
    \<and> collected (fold arg_step p st) = collected st @ p"
  using assms by (induction p arbitrary: st) (auto simp: arg_step_in_quotes)

lemma fold_in_quotes_escaped:
  assumes "as_inQuotes st" and "QUOTE \<notin> set p" and "p \<noteq> []" and "last p \<noteq> BSLASH"
  shows "\<not> as_escaped (fold arg_step p st)"
proof -
  obtain q c where p: "p = q @ [c]" using assms(3) by (metis rev_exhaust)
  with assms have "as_inQuotes (fold arg_step q st)" "c \<noteq> QUOTE" "c \<noteq> BSLASH"
    using fold_in_quotes [of st q] by auto
  then show ?thesis by (simp add: p arg_step_in_quotes(4))
qed

lemma argStringToArray_quoted:
  assumes "p \<noteq> []" and "QUOTE \<notin> set p" and "last p \<noteq> BSLASH"
  shows "argStringToArray ([QUOTE] @ p @ [QUOTE]) = [js_trim p]"
proof -
  let ?s0 = "arg_step QUOTE arg_init"
  let ?st = "fold arg_step p ?s0"
  have s0: "as_inQuotes ?s0" "as_args ?s0 = []" "collected ?s0 = []"
    by (simp_all add: arg_step_def arg_init_def collected_def)
  have st: "as_args ?st = []" "collected ?st = p" "\<not> as_escaped ?st"
    using fold_in_quotes [OF s0(1) assms(2)] fold_in_quotes_escaped [OF s0(1) assms(2,1,3)] s0(2,3)
    by simp_all
  then have "as_arg ?st = p" by (simp add: collected_def)
  with st assms(1) show ?thesis
    by (simp add: argStringToArray_def Let_def arg_step_def [of QUOTE ?st])
qed

text \<open>A path that ends in an odd number of backslashes swallows its closing quote.\<close>

lemma argStringToArray_trailing_backslash:
  assumes "QUOTE \<notin> set p" and "p = [] \<or> last p \<noteq> BSLASH"
  shows "argStringToArray ([QUOTE] @ p @ [BSLASH, QUOTE]) = [js_trim (p @ [QUOTE])]"
proof -
  let ?s0 = "arg_step QUOTE arg_init"
  let ?st = "fold arg_step p ?s0"
  have s0: "as_inQuotes ?s0" "as_args ?s0 = []" "collected ?s0 = []" "\<not> as_escaped ?s0"
    by (simp_all add: arg_step_def arg_init_def collected_def)
  have "\<not> as_escaped ?st"
    using assms fold_in_quotes_escaped [OF s0(1) assms(1)] s0(4) by (cases "p = []") auto
  moreover from this have "as_inQuotes ?st" "as_args ?st = []" "as_arg ?st = p"
    using fold_in_quotes [OF s0(1) assms(1)] s0(2,3) by (simp_all add: collected_def)
  moreover from calculation have "arg_step BSLASH ?st = ?st\<lparr>as_escaped := True\<rparr>"
    by (simp add: arg_step_def)
  moreover from calculation have "arg_step QUOTE (?st\<lparr>as_escaped := True\<rparr>) =
      ?st\<lparr>as_arg := p @ [QUOTE], as_escaped := False\<rparr>"
    by (simp add: arg_step_def arg_append_def)
  ultimately show ?thesis
    by (simp add: argStringToArray_def Let_def)
qed

text \<open>Outside quotes, words separated by single spaces are the arguments.\<close>

definition plain_word :: "string \<Rightarrow> bool" where
  "plain_word p \<longleftrightarrow> p \<noteq> [] \<and> list_all (\<lambda>c. \<not> is_ws c \<and> c \<noteq> QUOTE) p"

definition outside :: "string list \<Rightarrow> string \<Rightarrow> arg_state" where
  "outside args a = \<lparr>as_args = args, as_inQuotes = False, as_escaped = False, as_arg = a\<rparr>"

lemma fold_outside:
  "list_all (\<lambda>c. \<not> is_ws c \<and> c \<noteq> QUOTE) p \<Longrightarrow>
   fold arg_step p (outside args a) = outside args (a @ p)"
proof (induction p arbitrary: a)
  case Nil
  then show ?case by simp
next
  case (Cons c p)
  then have "c \<noteq> CHR '' ''" by (auto simp: is_ws_def)
  with Cons show ?case by (simp add: arg_step_def outside_def arg_append_def)
qed

lemma js_trim_plain: "list_all (\<lambda>c. \<not> is_ws c) p \<Longrightarrow> js_trim p = p"
proof -
  assume a: "list_all (\<lambda>c. \<not> is_ws c) p"
  have "dropWhile is_ws q = q" if "list_all (\<lambda>c. \<not> is_ws c) q" for q
    using that by (cases q) auto
  with a show ?thesis by (simp add: js_trim_def js_trim_start_def js_trim_end_def list_all_rev)
qed

lemma plain_word_trim: "plain_word p \<Longrightarrow> js_trim p = p"
  by (rule js_trim_plain) (simp add: plain_word_def list_all_iff)

lemma fold_words:
  "ps \<noteq> [] \<Longrightarrow> list_all plain_word ps \<Longrightarrow>
   fold arg_step (join '' '' ps) (outside args []) = outside (args @ butlast ps) (last ps)"
proof (induction "'' ''" ps arbitrary: args rule: join.induct)
  case (3 x y zs)
  have "fold arg_step x (outside args []) = outside args x"
    using 3 by (simp add: fold_outside plain_word_def)
  moreover have "arg_step CHR '' '' (outside args x) = outside (args @ [x]) []"
    using 3 by (simp add: arg_step_def outside_def plain_word_def)
  ultimately show ?case using 3 by simp
qed (simp_all add: fold_outside plain_word_def)

lemma argStringToArray_words:
  assumes "list_all plain_word ps"
  shows "argStringToArray (join '' '' ps) = ps"
proof (cases "ps = []")
  case True
  then show ?thesis by (simp add: argStringToArray_def arg_init_def)
next
  case False
  have "fold arg_step (join '' '' ps) arg_init = outside (butlast ps) (last ps)"
    using fold_words [OF False assms, of "[]"] by (simp add: outside_def arg_init_def)
  moreover have "plain_word (last ps)"
    using assms False by (simp add: list_all_iff)
  ultimately show ?thesis using False
    by (simp add: argStringToArray_def Let_def outside_def plain_word_trim plain_word_def)
qed

section \<open>Facts on quoting\<close>

text \<open>
  \<open>n\<close> backslashes are pending. Before a quote, \<open>2k\<close> of them stand for \<open>k\<close> and the quote closes the
  argument (its text is the result), \<open>2k + 1\<close> for \<open>k\<close> and a quote character; elsewhere they stand
  for themselves.
\<close>

fun unquote_argv :: "nat \<Rightarrow> string \<Rightarrow> string" where
  "unquote_argv n [] = replicate n BSLASH"
| "unquote_argv n (c # s) =
     (if c = BSLASH then unquote_argv (Suc n) s
      else if c = QUOTE
      then replicate (n div 2) BSLASH @ (if odd n then QUOTE # unquote_argv 0 s else [])
      else replicate n BSLASH @ c # unquote_argv 0 s)"

text \<open>The variant for batch files: \<open>""\<close> inside a quoted argument is a quote character.\<close>

fun unquote_cmd :: "nat \<Rightarrow> string \<Rightarrow> string" where
  "unquote_cmd n [] = replicate n BSLASH"
| "unquote_cmd n (c # s) =
     (if c = BSLASH then unquote_cmd (Suc n) s
      else if c = QUOTE
      then replicate (n div 2) BSLASH @
           (if odd n then QUOTE # unquote_cmd 0 s
            else (case s of d # t \<Rightarrow> if d = QUOTE then QUOTE # unquote_cmd 0 t else [] | [] \<Rightarrow> []))
      else replicate n BSLASH @ c # unquote_cmd 0 s)"

definition read_argv :: "string \<Rightarrow> string" where
  "read_argv s = (case s of c # t \<Rightarrow> if c = QUOTE then unquote_argv 0 t else s | [] \<Rightarrow> [])"

definition read_cmd :: "string \<Rightarrow> string" where
  "read_cmd s = (case s of c # t \<Rightarrow> if c = QUOTE then unquote_cmd 0 t else s | [] \<Rightarrow> [])"

text \<open>The state of the backward loop after the whole of \<open>s\<close>: do backslashes in front of it get doubled?\<close>

fun hit :: "string \<Rightarrow> bool" where
  "hit [] = True"
| "hit (c # s) = (if hit s \<and> c = BSLASH then True else c = QUOTE)"

fun uv_forward :: "string \<Rightarrow> string" where
  "uv_forward [] = []"
| "uv_forward (c # s) =
     (if hit s \<and> c = BSLASH then [BSLASH, BSLASH] else if c = QUOTE then [BSLASH, QUOTE] else [c]) @ uv_forward s"

fun cmd_forward :: "string \<Rightarrow> string" where
  "cmd_forward [] = []"
| "cmd_forward (c # s) =
     (if hit s \<and> c = BSLASH then [BSLASH, BSLASH] else if c = QUOTE then [QUOTE, QUOTE] else [c]) @ cmd_forward s"

fun hit_after :: "bool \<Rightarrow> string \<Rightarrow> bool" where
  "hit_after q [] = q"
| "hit_after q (c # cs) = hit_after (if q \<and> c = BSLASH then True else c = QUOTE) cs"

lemma hit_after_snoc: "hit_after q (cs @ [c]) = (if hit_after q cs \<and> c = BSLASH then True else c = QUOTE)"
  by (induction cs arbitrary: q) auto

lemma hit_rev: "hit s = hit_after True (rev s)"
  by (induction s) (simp_all add: hit_after_snoc)

lemma uv_quote_loop_snoc:
  "uv_quote_loop q (cs @ [c]) = uv_quote_loop q cs @
     (if hit_after q cs \<and> c = BSLASH then [BSLASH, BSLASH] else if c = QUOTE then [QUOTE, BSLASH] else [c])"
proof (induction cs arbitrary: q)
  case (Cons a cs)
  then show ?case by (cases q; cases "a = BSLASH"; cases "a = QUOTE") simp_all
qed simp

lemma cmd_quote_loop_snoc:
  "cmd_quote_loop q (cs @ [c]) = cmd_quote_loop q cs @
     (if hit_after q cs \<and> c = BSLASH then [BSLASH, BSLASH] else if c = QUOTE then [QUOTE, QUOTE] else [c])"
proof (induction cs arbitrary: q)
  case (Cons a cs)
  then show ?case by (cases q; cases "a = BSLASH"; cases "a = QUOTE") simp_all
qed simp

lemma uv_quote_loop_forward: "rev (uv_quote_loop True (rev s)) = uv_forward s"
  by (induction s) (simp_all add: uv_quote_loop_snoc hit_rev)

lemma cmd_quote_loop_forward: "rev (cmd_quote_loop True (rev s)) = cmd_forward s"
  by (induction s) (simp_all add: cmd_quote_loop_snoc hit_rev)

lemma unquote_uv_forward:
  "unquote_argv (if hit s then 2 * m else m) (uv_forward s @ [QUOTE]) = replicate m BSLASH @ s"
proof (induction s arbitrary: m)
  case Nil
  then show ?case by simp
next
  case (Cons c s)
  from Cons.IH [of 0] have z: "unquote_argv 0 (uv_forward s @ [QUOTE]) = s" by (simp split: if_splits)
  consider "c = QUOTE" | "c = BSLASH" "hit s" | "c = BSLASH" "\<not> hit s" | "c \<noteq> QUOTE" "c \<noteq> BSLASH"
    by blast
  then show ?case
  proof cases
    case 2
    with Cons.IH [of "Suc m"] show ?thesis by (simp add: replicate_app_Cons_same)
  next
    case 3
    with Cons.IH [of "Suc m"] show ?thesis by (simp add: replicate_app_Cons_same)
  qed (simp_all add: z)
qed

lemma unquote_cmd_forward:
  "unquote_cmd (if hit s then 2 * m else m) (cmd_forward s @ [QUOTE]) = replicate m BSLASH @ s"
proof (induction s arbitrary: m)
  case Nil
  then show ?case by simp
next
  case (Cons c s)
  from Cons.IH [of 0] have z: "unquote_cmd 0 (cmd_forward s @ [QUOTE]) = s" by (simp split: if_splits)
  consider "c = QUOTE" | "c = BSLASH" "hit s" | "c = BSLASH" "\<not> hit s" | "c \<noteq> QUOTE" "c \<noteq> BSLASH"
    by blast
  then show ?case
  proof cases
    case 2
    with Cons.IH [of "Suc m"] show ?thesis by (simp add: replicate_app_Cons_same)
  next
    case 3
    with Cons.IH [of "Suc m"] show ?thesis by (simp add: replicate_app_Cons_same)
  qed (simp_all add: z)
qed

lemma unquote_argv_plain:
  "QUOTE \<notin> set s \<Longrightarrow> BSLASH \<notin> set s \<Longrightarrow> unquote_argv 0 (s @ [QUOTE]) = s"
  by (induction s) auto

lemma read_argv_uvQuote: "read_argv (uvQuoteCmdArg arg) = arg"
proof -
  consider "arg = []" | "arg \<noteq> []" "CHR '' '' \<notin> set arg" "CHR 0x09 \<notin> set arg" "QUOTE \<notin> set arg"
    | "arg \<noteq> []" "QUOTE \<notin> set arg" "BSLASH \<notin> set arg" "CHR '' '' \<in> set arg \<or> CHR 0x09 \<in> set arg"
    | "arg \<noteq> []" "QUOTE \<in> set arg \<or> BSLASH \<in> set arg"
      "CHR '' '' \<in> set arg \<or> CHR 0x09 \<in> set arg \<or> QUOTE \<in> set arg"
    by blast
  then show ?thesis
  proof cases
    case 1
    then show ?thesis by (simp add: uvQuoteCmdArg_def read_argv_def)
  next
    case 2
    then show ?thesis by (auto simp: uvQuoteCmdArg_def read_argv_def split: list.splits)
  next
    case 3
    then have "uvQuoteCmdArg arg = QUOTE # arg @ [QUOTE]" by (auto simp: uvQuoteCmdArg_def)
    with 3 show ?thesis by (simp add: read_argv_def unquote_argv_plain)
  next
    case 4
    then have "uvQuoteCmdArg arg = QUOTE # uv_forward arg @ [QUOTE]"
      by (auto simp: uvQuoteCmdArg_def uv_quote_loop_forward)
    then show ?thesis
      using unquote_uv_forward [of arg 0] by (simp add: read_argv_def split: if_splits)
  qed
qed

lemma read_cmd_windowsQuote:
  assumes "isCmdFile toolPath"
  shows "read_cmd (windowsQuoteCmdArg toolPath arg) = arg"
proof -
  consider "arg = []" | "arg \<noteq> []" "\<not> list_ex (\<lambda>c. c \<in> set cmdSpecialChars) arg"
    | "arg \<noteq> []" "list_ex (\<lambda>c. c \<in> set cmdSpecialChars) arg"
    by blast
  then show ?thesis
  proof cases
    case 1
    with assms show ?thesis by (simp add: windowsQuoteCmdArg_def read_cmd_def)
  next
    case 2
    then have "QUOTE \<notin> set arg" by (auto simp: list_ex_iff cmdSpecialChars_def)
    with 2 assms show ?thesis by (auto simp: windowsQuoteCmdArg_def read_cmd_def split: list.splits)
  next
    case 3
    with assms have "windowsQuoteCmdArg toolPath arg = QUOTE # cmd_forward arg @ [QUOTE]"
      by (simp add: windowsQuoteCmdArg_def cmd_quote_loop_forward)
    then show ?thesis
      using unquote_cmd_forward [of arg 0] by (simp add: read_cmd_def split: if_splits)
  qed
qed

section \<open>Facts on the line buffer\<close>

abbreviation line_split :: "host \<Rightarrow> string \<Rightarrow> string list \<times> string" where
  "line_split h \<equiv> line_loop h (\<lambda>_. False)"

lemma line_split_None: "index_of s (eol h) = None \<Longrightarrow> line_split h s = ([], s)"
  by (subst line_loop.simps) simp

lemma line_split_Some:
  "index_of s (eol h) = Some n \<Longrightarrow>
   line_split h s = (case line_split h (drop (n + length (eol h)) s) of (ls, r) \<Rightarrow> (take n s # ls, r))"
  by (subst line_loop.simps) simp

lemma index_of_append: "index_of s p = Some n \<Longrightarrow> index_of (s @ t) p = Some n"
proof (induction s arbitrary: n)
  case Nil
  then show ?case by (cases t) (auto split: if_splits)
next
  case (Cons c s)
  show ?case
  proof (cases "starts_with (c # s) p")
    case True
    then have "starts_with ((c # s) @ t) p" by (auto simp: starts_with_append) (metis append_Cons append_assoc)
    with True Cons.prems show ?thesis by simp
  next
    case False
    with Cons.prems obtain m where m: "index_of s p = Some m" "n = Suc m" by auto
    from index_of_Some [OF m(1)] have "length p \<le> length (c # s)" by simp
    then have "take (length p) ((c # s) @ t) = take (length p) (c # s)"
      by (subst take_append) simp
    with False have "\<not> starts_with ((c # s) @ t) p" unfolding starts_with_take by simp
    with False m Cons.IH [OF m(1)] show ?thesis by simp
  qed
qed

lemma line_split_append:
  "line_split h (s @ t) =
     (case line_split h s of (ls, r) \<Rightarrow> case line_split h (r @ t) of (ls', r') \<Rightarrow> (ls @ ls', r'))"
proof (induction "length s" arbitrary: s rule: less_induct)
  case less
  show ?case
  proof (cases "index_of s (eol h)")
    case None
    then show ?thesis by (simp add: line_split_None)
  next
    case (Some n)
    let ?k = "n + length (eol h)"
    have k: "?k \<le> length s" using index_of_Some [OF Some] by simp
    moreover have "0 < length (eol h)" unfolding length_greater_0_conv by (rule eol_not_Nil)
    ultimately have "length (drop ?k s) < length s"
      unfolding length_drop by linarith
    from less.hyps [OF this] k show ?thesis
      by (simp add: line_split_Some [OF Some] line_split_Some [OF index_of_append [OF Some]]
          split: prod.splits)
  qed
qed

text \<open>The output arrives in chunks; the buffer carries the unfinished line from one to the next.\<close>

fun feed_chunks :: "host \<Rightarrow> (string \<Rightarrow> bool) \<Rightarrow> string list \<Rightarrow> string \<Rightarrow> string list \<times> string" where
  "feed_chunks h bad [] buf = ([], buf)"
| "feed_chunks h bad (d # ds) buf =
     (case processLineBuffer h bad d buf of (ls, buf') \<Rightarrow>
        case feed_chunks h bad ds buf' of (ls', buf'') \<Rightarrow> (ls @ ls', buf''))"

lemma feed_chunks_concat:
  assumes "index_of buf (eol h) = None"
  shows "feed_chunks h (\<lambda>_. False) ds buf = line_split h (buf @ concat ds)"
  using assms
proof (induction ds arbitrary: buf)
  case Nil
  then show ?case by (simp add: line_split_None)
next
  case (Cons d ds)
  obtain ls r where lr: "line_split h (buf @ d) = (ls, r)" by (cases "line_split h (buf @ d)")
  have "index_of r (eol h) = None"
    using lr
  proof (induction "length (buf @ d)" arbitrary: buf d ls rule: less_induct)
    case less
    show ?case
    proof (cases "index_of (buf @ d) (eol h)")
      case None
      with less.prems show ?thesis by (simp add: line_split_None)
    next
      case (Some n)
      let ?rest = "drop (n + length (eol h)) (buf @ d)"
      have "0 < length (eol h)" unfolding length_greater_0_conv by (rule eol_not_Nil)
      with index_of_Some [OF Some] have "length ([] @ ?rest) < length (buf @ d)"
        unfolding append_Nil length_drop by linarith
      moreover obtain ls' where "line_split h ([] @ ?rest) = (ls', r)"
        using less.prems line_split_Some [OF Some] by (auto split: prod.splits)
      ultimately show ?thesis by (rule less.hyps)
    qed
  qed
  from Cons.IH [OF this] lr show ?case
    by (simp add: processLineBuffer_def line_split_append [of h "buf @ d", simplified])
qed

text \<open>The lines and the rest are the text again, and no line holds a line end.\<close>

lemma line_split_rejoin:
  "line_split h s = (ls, r) \<Longrightarrow> concat (map (\<lambda>l. l @ eol h) ls) @ r = s"
proof (induction "length s" arbitrary: s ls rule: less_induct)
  case less
  show ?case
  proof (cases "index_of s (eol h)")
    case None
    with less.prems show ?thesis by (simp add: line_split_None)
  next
    case (Some n)
    let ?rest = "drop (n + length (eol h)) s"
    have "0 < length (eol h)" unfolding length_greater_0_conv by (rule eol_not_Nil)
    with index_of_Some [OF Some] have "length ?rest < length s" unfolding length_drop by linarith
    moreover obtain ls' where "line_split h ?rest = (ls', r)" "ls = take n s # ls'"
      using less.prems line_split_Some [OF Some] by (auto split: prod.splits)
    ultimately have "concat (map (\<lambda>l. l @ eol h) ls') @ r = ?rest" "ls = take n s # ls'"
      using less.hyps by blast+
    then show ?thesis using index_of_Some [OF Some] by simp
  qed
qed

section \<open>Properties\<close>


text \<open>
  A batch file's argument, quoted by \<open>_windowsQuoteCmdArg\<close>, reads back as the argument by the rules
  in which a doubled quote stands for a quote, for every argument.
\<close>

theorem windowsQuoteCmdArg_roundtrip:
  assumes "isCmdFile toolPath"
  shows "read_cmd (windowsQuoteCmdArg toolPath arg) = arg"
  by (rule read_cmd_windowsQuote [OF assms])

theorem windowsQuoteCmdArg_roundtrip_witness:
  "read_cmd (windowsQuoteCmdArg ''C:/run.cmd'' ''a b'') = ''a b''"
  by (rule windowsQuoteCmdArg_roundtrip) code_simp

text \<open>
  A quoted program path without quotes that does not end with a backslash is one element of the
  parsed command line, with its surrounding white space trimmed. With a backslash before the closing
  quote, the quote becomes part of the path instead.
\<close>

theorem quoted_path_is_one_argument:
  assumes "p \<noteq> []" and "QUOTE \<notin> set p" and "last p \<noteq> BSLASH"
  shows "argStringToArray ([QUOTE] @ p @ [QUOTE]) = [js_trim p] \<and>
     argStringToArray ([QUOTE] @ p @ [BSLASH, QUOTE]) = [js_trim (p @ [QUOTE])]"
  using argStringToArray_quoted [OF assms] argStringToArray_trailing_backslash [of p] assms by simp

theorem quoted_path_is_one_argument_witness:
  "argStringToArray ([QUOTE] @ ''/opt/my tools/7z'' @ [QUOTE]) = [''/opt/my tools/7z''] \<and>
   argStringToArray ([QUOTE] @ ''/opt/my tools/7z'' @ [BSLASH, QUOTE]) = [''/opt/my tools/7z'' @ [QUOTE]]"
proof -
  have "js_trim ''/opt/my tools/7z'' = ''/opt/my tools/7z''"
    "js_trim (''/opt/my tools/7z'' @ [QUOTE]) = ''/opt/my tools/7z'' @ [QUOTE]" by code_simp+
  with quoted_path_is_one_argument [of "''/opt/my tools/7z''"] show ?thesis by simp
qed

text \<open>
  Words without white space and quotes, joined by single blanks, are parsed back into
  exactly those words.
\<close>

theorem words_are_arguments:
  assumes "list_all plain_word ps"
  shows "argStringToArray (join '' '' ps) = ps"
  by (rule argStringToArray_words [OF assms])

theorem words_are_arguments_witness:
  "argStringToArray (join '' '' [''tar'', ''--version'']) = [''tar'', ''--version'']"
  by (rule words_are_arguments) code_simp

text \<open>
  How the output of a child process is cut into chunks does not matter: the lines reported to the
  listeners and the unfinished rest are those of the whole output.
\<close>

theorem chunks_do_not_matter:
  "feed_chunks h (\<lambda>_. False) ds [] = line_split h (concat ds)"
  using feed_chunks_concat [of "[]" h ds] eol_not_Nil [of h] by simp

end
