(* ===== verification/Exec.thy ===== *)
theory Exec
  imports CmdLine IoUtil Machine
begin

text \<open>
  Running a child process: \<open>ExecState\<close> and \<open>ToolRunner.exec\<close> of \<open>toolrunner.js\<close>, and \<open>exec\<close> of
  \<open>exec.js\<close>.

  \<open>ExecState\<close> is a state machine over what the child process emits (\<open>error\<close>, \<open>exit\<close>, \<open>close\<close>) and
  the timer it arms when a process exits while its output streams stay open. \<open>exec_step\<close> adds the
  handlers \<open>ToolRunner.exec\<close> hangs on the process: the output it copies and splits into lines, and
  the settling of the promise. The events are the host's (\<open>h_spawn\<close>); a process that emits no
  closing event leaves the promise pending.

  Not modelled: \<open>listeners.debug\<close> messages, writing \<open>options.input\<close> to the child's standard input,
  and streams other than the process's own as \<open>outStream\<close> and \<open>errStream\<close>.
\<close>

section \<open>ExecState\<close>

record exec_state =
  es_processClosed :: bool
  es_processError :: string
  es_processExitCode :: "int option"
  es_processExited :: bool
  es_processStderr :: bool
  es_delay :: nat
  es_done :: bool
  es_timeout :: bool
  es_options :: full_options
  es_toolPath :: string
  es_emitted :: "(exn option \<times> int option) list"  \<comment> \<open>the \<open>done\<close> events\<close>

definition new_ExecState :: "full_options \<Rightarrow> string \<Rightarrow> exec_state" where
  "new_ExecState options toolPath =
     \<lparr>es_processClosed = False, es_processError = [], es_processExitCode = Some 0,
      es_processExited = False, es_processStderr = False,
      es_delay = (if fo_delay options \<noteq> 0 then fo_delay options else 10000),
      es_done = False, es_timeout = False, es_options = options, es_toolPath = toolPath,
      es_emitted = []\<rparr>"

definition show_code :: "int option \<Rightarrow> string" where
  "show_code c = (case c of None \<Rightarrow> ''null'' | Some n \<Rightarrow> show_int n)"

definition exec_error :: "exec_state \<Rightarrow> exn option" where
  "exec_error st =
     (if es_processExited st
      then (if es_processError st \<noteq> []
            then Some (Error (''There was an error when attempting to execute the process '' @ [CHR 0x27] @
                   es_toolPath st @ [CHR 0x27] @
                   ''. This may indicate the process failed to start. Error: '' @ es_processError st))
            else if es_processExitCode st \<noteq> Some 0 \<and> \<not> fo_ignoreReturnCode (es_options st)
            then Some (Error (''The process '' @ [CHR 0x27] @ es_toolPath st @ [CHR 0x27] @
                   '' failed with exit code '' @ show_code (es_processExitCode st)))
            else if es_processStderr st \<and> fo_failOnStdErr (es_options st)
            then Some (Error (''The process '' @ [CHR 0x27] @ es_toolPath st @ [CHR 0x27] @
                   '' failed because one or more lines were written to the STDERR stream''))
            else None)
      else None)"

definition setResult :: "exec_state \<Rightarrow> exec_state" where
  "setResult st =
     st\<lparr>es_timeout := False, es_done := True,
        es_emitted := es_emitted st @ [(exec_error st, es_processExitCode st)]\<rparr>"

definition CheckComplete :: "exec_state \<Rightarrow> exec_state" where
  "CheckComplete st =
     (if es_done st then st
      else if es_processClosed st then setResult st
      else if es_processExited st then st\<lparr>es_timeout := True\<rparr>
      else st)"

definition HandleTimeout :: "exec_state \<Rightarrow> exec_state" where
  "HandleTimeout st = (if es_done st then st else setResult st)"

section \<open>The handlers of ToolRunner.exec\<close>

record exec_run =
  er_state :: exec_state
  er_stdbuffer :: string
  er_errbuffer :: string
  er_out :: string       \<comment> \<open>written to \<open>process.stdout\<close>\<close>
  er_err :: string       \<comment> \<open>written to \<open>process.stderr\<close>\<close>
  er_data :: "(bool \<times> string) list"  \<comment> \<open>calls of \<open>listeners.stderr\<close> (\<open>True\<close>) and \<open>listeners.stdout\<close>\<close>
  er_stdline :: "string list"
  er_errline :: "string list"
  er_settled :: "int option res option"

definition start_run :: "full_options \<Rightarrow> string \<Rightarrow> exec_run" where
  "start_run options toolPath =
     \<lparr>er_state = new_ExecState options toolPath, er_stdbuffer = [], er_errbuffer = [], er_out = [],
      er_err = [], er_data = [], er_stdline = [], er_errline = [], er_settled = None\<rparr>"

text \<open>The \<open>done\<close> handler settles the promise; only its first call counts.\<close>

definition on_done :: "exec_run \<Rightarrow> exec_run" where
  "on_done r =
     (case er_settled r of
        Some x \<Rightarrow> r
      | None \<Rightarrow>
          (case es_emitted (er_state r) of
             [] \<Rightarrow> r
           | (error2, exitCode) # _ \<Rightarrow>
               r\<lparr>er_settled := Some (case error2 of Some e \<Rightarrow> Inl e | None \<Rightarrow> Inr exitCode)\<rparr>))"

text \<open>
  After \<open>done\<close> the process's own handlers are removed; the handlers of its two streams stay.
\<close>

fun exec_step :: "host \<Rightarrow> proc_event \<Rightarrow> exec_run \<Rightarrow> exec_run" where
  "exec_step h (Stdout data) r =
     (case processLineBuffer h (\<lambda>_. False) data (er_stdbuffer r) of (ls, buf) \<Rightarrow>
        r\<lparr>er_data := er_data r @ [(False, data)],
          er_out := er_out r @ (if fo_silent (es_options (er_state r)) then [] else data),
          er_stdline := er_stdline r @ ls, er_stdbuffer := buf\<rparr>)"
| "exec_step h (Stderr data) r =
     (case processLineBuffer h (\<lambda>_. False) data (er_errbuffer r) of (ls, buf) \<Rightarrow>
        r\<lparr>er_state := (er_state r)\<lparr>es_processStderr := True\<rparr>,
          er_data := er_data r @ [(True, data)],
          er_err := er_err r @ (if fo_silent (es_options (er_state r)) \<or> \<not> fo_failOnStdErr (es_options (er_state r))
                                then [] else data),
          er_out := er_out r @ (if fo_silent (es_options (er_state r)) \<or> fo_failOnStdErr (es_options (er_state r))
                                then [] else data),
          er_errline := er_errline r @ ls, er_errbuffer := buf\<rparr>)"
| "exec_step h (ProcError message) r =
     (if es_done (er_state r) then r
      else on_done (r\<lparr>er_state := CheckComplete ((er_state r)\<lparr>es_processError := message,
             es_processExited := True, es_processClosed := True\<rparr>)\<rparr>))"
| "exec_step h (ProcExit code) r =
     (if es_done (er_state r) then r
      else on_done (r\<lparr>er_state := CheckComplete ((er_state r)\<lparr>es_processExitCode := code,
             es_processExited := True\<rparr>)\<rparr>))"
| "exec_step h (ProcClose code) r =
     (if es_done (er_state r) then r
      else on_done (r\<lparr>er_state := CheckComplete ((er_state r)\<lparr>es_processExitCode := code,
             es_processExited := True, es_processClosed := True\<rparr>)\<rparr>))"
| "exec_step h TimerFires r =
     (if es_timeout (er_state r)
      then on_done (r\<lparr>er_state := HandleTimeout (er_state r)\<rparr>) else r)"

text \<open>The events up to the one that settles the promise.\<close>

fun run_events :: "host \<Rightarrow> proc_event list \<Rightarrow> exec_run \<Rightarrow> exec_run" where
  "run_events h [] r = r"
| "run_events h (e # es) r = (if er_settled r \<noteq> None then r else run_events h es (exec_step h e r))"

section \<open>exec\<close>

text \<open>The exit code and what the two stream listeners were called with.\<close>

type_synonym exec_result = "int option \<times> (bool \<times> string) list"

definition spawn_process :: "host \<Rightarrow> spawn \<Rightarrow> proc_event list action" where
  "spawn_process h sp =
     (\<lambda>w. let hist = w_spawns w @ [sp] in
        (Inr (h_spawn h hist), w\<lparr>w_spawns := hist, w_fs := h_spawn_fs h hist (w_fs w)\<rparr>))"

definition await_done :: "exec_run \<Rightarrow> exec_result action" where
  "await_done r =
     (case er_settled r of
        None \<Rightarrow> throwE Pending
      | Some (Inl e) \<Rightarrow> throwE e
      | Some (Inr code) \<Rightarrow> retE (code, er_data r))"

text \<open>
  \<open>exists\<close> throws inside an asynchronous promise executor: the outer promise never settles.
\<close>

definition cwd_missing :: "host \<Rightarrow> string option \<Rightarrow> bool action" where
  "cwd_missing h cwd =
     (case cwd of
        None \<Rightarrow> retE False
      | Some d \<Rightarrow> if d = [] then retE False
                 else catchE (bindE (io_exists h d) (\<lambda>b. retE (\<not> b))) (\<lambda>_. throwE Pending))"

definition ToolRunner_exec :: "host \<Rightarrow> tool_runner \<Rightarrow> exec_result action" where
  "ToolRunner_exec h r0 =
     bindE (liftE (isRooted h (tr_toolPath r0))) (\<lambda>rooted.
     bindE (which h
         (if \<not> rooted \<and> (CHR ''/'' \<in> set (tr_toolPath r0) \<or> (is_windows h \<and> BSLASH \<in> set (tr_toolPath r0)))
          then h_resolve h [h_cwd h,
                 (case eo_cwd (tr_options r0) of Some d \<Rightarrow> if d = [] then h_cwd h else d | None \<Rightarrow> h_cwd h),
                 tr_toolPath r0]
          else tr_toolPath r0) True) (\<lambda>toolPath.
       let r = r0\<lparr>tr_toolPath := toolPath\<rparr> in
       bindE (getE (\<lambda>w. cloneExecOptions h w (tr_options r))) (\<lambda>optionsNonNull.
       bindE (getE (\<lambda>w. getCommandString h w r (fo_windowsVerbatimArguments optionsNonNull) False)) (\<lambda>cmd.
       thenE (whenE (\<not> fo_silent optionsNonNull) (write_out (cmd @ eol h)))
       (bindE (cwd_missing h (eo_cwd (tr_options r))) (\<lambda>missing.
        if missing
        then throwE (Error (''The cwd: '' @ the (eo_cwd (tr_options r)) @ '' does not exist!''))
        else
          bindE (getE (\<lambda>w. getSpawnFileName h w r)) (\<lambda>fileName.
          bindE (spawn_process h (getSpawnOptions (tr_options r) toolPath fileName fileName
                   (getSpawnArgs h r (fo_windowsVerbatimArguments optionsNonNull)))) (\<lambda>events.
            let run = run_events h events (start_run optionsNonNull toolPath) in
            thenE (write_out (er_out run))
              (thenE (write_err (er_err run)) (await_done run))))))))))"

definition exec_cmd :: "host \<Rightarrow> string \<Rightarrow> string list \<Rightarrow> exec_options \<Rightarrow> exec_result action" where
  "exec_cmd h commandLine args options =
     (case argStringToArray commandLine of
        [] \<Rightarrow> throwE (Error (''Parameter '' @ [CHR 0x27] @ ''commandLine'' @ [CHR 0x27] @
                      '' cannot be null or empty.''))
      | toolPath # rest \<Rightarrow>
          bindE (liftE (new_ToolRunner toolPath (rest @ args) options)) (ToolRunner_exec h))"

section \<open>ExecState: invariant, results, settling\<close>

text \<open>
  \<open>done\<close> is emitted at most once, exactly when the flag is set, and the promise is settled exactly
  then.
\<close>

definition exec_inv :: "exec_run \<Rightarrow> bool" where
  "exec_inv r \<longleftrightarrow>
     length (es_emitted (er_state r)) = (if es_done (er_state r) then 1 else 0) \<and>
     (er_settled r \<noteq> None \<longleftrightarrow> es_done (er_state r)) \<and>
     (es_processExited (er_state r) \<longrightarrow> es_timeout (er_state r) \<or> es_done (er_state r)) \<and>
     (es_processClosed (er_state r) \<longrightarrow> es_done (er_state r))"

lemma exec_inv_start: "exec_inv (start_run opts p)"
  by (simp add: exec_inv_def start_run_def new_ExecState_def)

lemma exec_inv_step: "exec_inv r \<Longrightarrow> exec_inv (exec_step h e r)"
  by (cases e)
     (auto simp: exec_inv_def CheckComplete_def HandleTimeout_def setResult_def on_done_def
       split: prod.splits option.splits list.splits if_splits)

interpretation exec_machine: event_machine "\<lambda>r. \<exists>opts p. r = start_run opts p" "exec_step h" exec_inv
  by unfold_locales (auto intro: exec_inv_start exec_inv_step)

text \<open>Stopping at the settling event is stopping a run that goes on.\<close>

lemma run_events_prefix: "\<exists>n. run_events h es r = fold (exec_step h) (take n es) r"
proof (induction es arbitrary: r)
  case Nil
  then show ?case by simp
next
  case (Cons e es)
  show ?case
  proof (cases "er_settled r = None")
    case True
    from Cons obtain n where "run_events h es (exec_step h e r) = fold (exec_step h) (take n es) (exec_step h e r)"
      by blast
    with True have "run_events h (e # es) r = fold (exec_step h) (take (Suc n) (e # es)) r" by simp
    then show ?thesis by blast
  next
    case False
    then have "run_events h (e # es) r = fold (exec_step h) (take 0 (e # es)) r" by simp
    then show ?thesis by blast
  qed
qed

lemma run_events_inv: "exec_inv (run_events h es (start_run opts p))"
  by (metis run_events_prefix exec_machine.prefix_inv)

text \<open>Which events settle: \<open>close\<close> and \<open>error\<close> at once, \<open>exit\<close> after the timer.\<close>

lemma settle_close:
  "exec_inv r \<Longrightarrow> er_settled (exec_step h (ProcClose c) r) \<noteq> None"
  and settle_error: "exec_inv r \<Longrightarrow> er_settled (exec_step h (ProcError m) r) \<noteq> None"
  by (auto simp: exec_inv_def CheckComplete_def setResult_def on_done_def
      split: option.splits list.splits if_splits)

lemma settle_timer:
  "exec_inv r \<Longrightarrow> es_processExited (er_state r) \<Longrightarrow> er_settled (exec_step h TimerFires r) \<noteq> None"
  by (auto simp: exec_inv_def HandleTimeout_def setResult_def on_done_def
      split: option.splits list.splits if_splits)

lemma settled_step: "er_settled r = Some x \<Longrightarrow> er_settled (exec_step h e r) = Some x"
  by (cases e) (auto simp: on_done_def split: prod.split)

lemma exited_step:
  "exec_inv r \<Longrightarrow> es_processExited (er_state r) \<Longrightarrow> es_processExited (er_state (exec_step h e r))"
  by (cases e)
     (auto simp: CheckComplete_def HandleTimeout_def setResult_def on_done_def
       split: prod.splits option.splits list.splits if_splits)

lemma exited_exit:
  "exec_inv r \<Longrightarrow> er_settled r = None \<Longrightarrow> es_processExited (er_state (exec_step h (ProcExit c) r))"
  by (auto simp: exec_inv_def CheckComplete_def setResult_def on_done_def
      split: option.splits list.splits if_splits)

lemma run_events_settled [simp]: "er_settled r = Some x \<Longrightarrow> run_events h es r = r"
  by (cases es) auto

lemma run_events_append:
  "run_events h (es @ fs) r = run_events h fs (run_events h es r)"
proof (induction es arbitrary: r)
  case (Cons e es)
  then show ?case by (cases "er_settled r") auto
qed simp

lemma run_events_inv_gen: "exec_inv r \<Longrightarrow> exec_inv (run_events h es r)"
  by (induction es arbitrary: r) (auto intro: exec_inv_step)

lemma run_settles_close:
  assumes "exec_inv r" and "ProcClose c \<in> set es \<or> ProcError m \<in> set es"
  shows "er_settled (run_events h es r) \<noteq> None"
proof -
  obtain e as bs where es: "es = as @ e # bs" and e: "e = ProcClose c \<or> e = ProcError m"
    using assms(2) by (metis split_list)
  let ?r = "run_events h as r"
  have inv: "exec_inv ?r" by (rule run_events_inv_gen [OF assms(1)])
  have "er_settled (run_events h (e # bs) ?r) \<noteq> None"
  proof (cases "er_settled ?r")
    case None
    from e settle_close [OF inv] settle_error [OF inv] obtain x
      where "er_settled (exec_step h e ?r) = Some x" by blast
    with None show ?thesis by simp
  qed simp
  then show ?thesis by (simp add: es run_events_append)
qed

lemma run_settles_timer:
  assumes "exec_inv r"
  shows "er_settled (run_events h (as @ ProcExit c # bs @ TimerFires # cs) r) \<noteq> None"
proof -
  let ?r1 = "run_events h as r"
  have inv1: "exec_inv ?r1" by (rule run_events_inv_gen [OF assms])
  have "er_settled (run_events h (ProcExit c # bs @ TimerFires # cs) ?r1) \<noteq> None"
  proof (cases "er_settled ?r1")
    case None
    let ?r2 = "exec_step h (ProcExit c) ?r1"
    let ?r3 = "run_events h bs ?r2"
    have inv2: "exec_inv ?r2" by (rule exec_inv_step [OF inv1])
    have ex2: "es_processExited (er_state ?r2)" by (rule exited_exit [OF inv1 None])
    have "exec_inv r' \<Longrightarrow> es_processExited (er_state r') \<Longrightarrow> es_processExited (er_state (run_events h es r'))"
      for es r'
      by (induction es arbitrary: r') (auto intro: exec_inv_step exited_step)
    from this [OF inv2 ex2] have ex3: "es_processExited (er_state ?r3)" .
    have inv3: "exec_inv ?r3" by (rule run_events_inv_gen [OF inv2])
    have "er_settled (run_events h (TimerFires # cs) ?r3) \<noteq> None"
    proof (cases "er_settled ?r3")
      case None
      from settle_timer [OF inv3 ex3] obtain x where "er_settled (exec_step h TimerFires ?r3) = Some x"
        by blast
      with None show ?thesis by simp
    qed simp
    with None show ?thesis by (simp add: run_events_append)
  qed simp
  then show ?thesis by (simp add: run_events_append)
qed

text \<open>
  What a run that reads its whole output and closes with a code reports: its exit code, unless the
  options make it an error.
\<close>

definition stream_event :: "proc_event \<Rightarrow> bool" where
  "stream_event e \<longleftrightarrow> (case e of Stdout _ \<Rightarrow> True | Stderr _ \<Rightarrow> True | _ \<Rightarrow> False)"

definition stream_data :: "proc_event \<Rightarrow> (bool \<times> string) list" where
  "stream_data e = (case e of Stdout d \<Rightarrow> [(False, d)] | Stderr d \<Rightarrow> [(True, d)] | _ \<Rightarrow> [])"

definition wrote_stderr :: "proc_event list \<Rightarrow> bool" where
  "wrote_stderr es \<longleftrightarrow> list_ex (\<lambda>e. case e of Stderr _ \<Rightarrow> True | _ \<Rightarrow> False) es"

lemma stream_run:
  assumes "list_all stream_event es" and "er_settled r = None"
  shows "er_settled (run_events h es r) = None"
    and "er_data (run_events h es r) = er_data r @ concat (map stream_data es)"
    and "er_state (run_events h es r) = (er_state r)\<lparr>es_processStderr :=
           es_processStderr (er_state r) \<or> wrote_stderr es\<rparr>"
proof -
  have "er_settled (run_events h es r) = None \<and>
    er_data (run_events h es r) = er_data r @ concat (map stream_data es) \<and>
    er_state (run_events h es r) = (er_state r)\<lparr>es_processStderr :=
           es_processStderr (er_state r) \<or> wrote_stderr es\<rparr>"
    using assms
  proof (induction es arbitrary: r)
    case Nil
    then show ?case by (simp add: wrote_stderr_def)
  next
    case (Cons e es)
    show ?case
    proof (cases e)
      case (Stdout d)
      with Cons.prems Cons.IH [of "exec_step h e r"] show ?thesis
        by (simp add: stream_data_def wrote_stderr_def split: prod.splits)
    next
      case (Stderr d)
      with Cons.prems Cons.IH [of "exec_step h e r"] show ?thesis
        by (simp add: stream_data_def wrote_stderr_def split: prod.splits)
    qed (use Cons.prems in \<open>simp_all add: stream_event_def\<close>)
  qed
  then show "er_settled (run_events h es r) = None"
    and "er_data (run_events h es r) = er_data r @ concat (map stream_data es)"
    and "er_state (run_events h es r) = (er_state r)\<lparr>es_processStderr :=
           es_processStderr (er_state r) \<or> wrote_stderr es\<rparr>" by auto
qed

lemma run_closed:
  assumes "list_all stream_event es"
  shows "er_settled (run_events h (es @ [ProcExit c, ProcClose c]) (start_run opts p)) =
     Some (if c \<noteq> Some 0 \<and> \<not> fo_ignoreReturnCode opts
           then Inl (Error (''The process '' @ [CHR 0x27] @ p @ [CHR 0x27] @
                  '' failed with exit code '' @ show_code c))
           else if wrote_stderr es \<and> fo_failOnStdErr opts
           then Inl (Error (''The process '' @ [CHR 0x27] @ p @ [CHR 0x27] @
                  '' failed because one or more lines were written to the STDERR stream''))
           else Inr c)"
proof -
  let ?st0 = "new_ExecState opts p"
  let ?st1 = "?st0\<lparr>es_processStderr := wrote_stderr es\<rparr>"
  let ?st2 = "?st1\<lparr>es_processExitCode := c, es_processExited := True, es_timeout := True\<rparr>"
  let ?r1 = "run_events h es (start_run opts p)"
  let ?r2 = "exec_step h (ProcExit c) ?r1"
  have n: "er_settled (start_run opts p) = None" by (simp add: start_run_def)
  note s = stream_run [OF assms n, of h]
  have st1: "er_state ?r1 = ?st1"
    using s(3) by (simp add: start_run_def new_ExecState_def)
  have r2: "er_state ?r2 = ?st2" "er_settled ?r2 = None"
    using s(1) by (simp_all add: st1 new_ExecState_def CheckComplete_def on_done_def)
  have "run_events h (es @ [ProcExit c, ProcClose c]) (start_run opts p) = exec_step h (ProcClose c) ?r2"
    using s(1) r2(2) by (simp add: run_events_append)
  moreover have "er_settled (exec_step h (ProcClose c) r) =
      Some (case exec_error ((er_state r)\<lparr>es_processExitCode := c, es_processExited := True, es_processClosed := True\<rparr>)
            of Some e \<Rightarrow> Inl e | None \<Rightarrow> Inr c)"
    if "er_settled r = None" "\<not> es_done (er_state r)" "es_emitted (er_state r) = []" for r
    using that by (simp add: CheckComplete_def setResult_def on_done_def)
  from this [OF r2(2)] have "er_settled (exec_step h (ProcClose c) ?r2) =
      Some (case exec_error (?st2\<lparr>es_processExitCode := c, es_processExited := True, es_processClosed := True\<rparr>)
            of Some e \<Rightarrow> Inl e | None \<Rightarrow> Inr c)"
    unfolding r2(1) by (simp add: new_ExecState_def)
  ultimately show ?thesis
    by (simp add: exec_error_def new_ExecState_def)
qed

section \<open>Frames\<close>

lemma keeps_spawn_process [keeps_rules]:
  "(\<And>w x y. g (w\<lparr>w_spawns := x, w_fs := y\<rparr>) = g w) \<Longrightarrow> keeps g (spawn_process h sp)"
  by (simp add: spawn_process_def keeps_def Let_def)

lemma keeps_await_done [keeps_rules]: "keeps g (await_done r)"
  by (auto simp: await_done_def intro!: keeps_rules split: option.splits sum.splits)

lemma keeps_cwd_missing [keeps_rules]: "keeps g (cwd_missing h d)"
  unfolding cwd_missing_def by (intro keeps_rules)

lemma keeps_ToolRunner_exec [keeps_rules]:
  assumes "\<And>w x. g (w\<lparr>w_out := x\<rparr>) = g w" "\<And>w x. g (w\<lparr>w_err := x\<rparr>) = g w"
    and "\<And>w x y. g (w\<lparr>w_spawns := x, w_fs := y\<rparr>) = g w"
  shows "keeps g (ToolRunner_exec h r)"
  unfolding ToolRunner_exec_def Let_def by (intro keeps_rules assms)

lemma keeps_exec_cmd [keeps_rules]:
  assumes "\<And>w x. g (w\<lparr>w_out := x\<rparr>) = g w" "\<And>w x. g (w\<lparr>w_err := x\<rparr>) = g w"
    and "\<And>w x y. g (w\<lparr>w_spawns := x, w_fs := y\<rparr>) = g w"
  shows "keeps g (exec_cmd h c as opts)"
  unfolding exec_cmd_def
  by (cases "argStringToArray c") (auto intro!: keeps_rules assms)

section \<open>Properties\<close>

text \<open>
  C9: whatever events a child process and its timer produce, \<open>done\<close> is emitted at most once, the
  promise of \<open>exec\<close> is settled exactly when it was, and later events do not change the result.
\<close>

theorem exec_settles_once:
  "length (es_emitted (er_state (fold (exec_step h) es (start_run opts p)))) \<le> 1 \<and>
   (er_settled (fold (exec_step h) es (start_run opts p)) \<noteq> None \<longleftrightarrow>
      es_emitted (er_state (fold (exec_step h) es (start_run opts p))) \<noteq> []) \<and>
   (er_settled (fold (exec_step h) es (start_run opts p)) = Some x \<longrightarrow>
      er_settled (fold (exec_step h) (es @ fs) (start_run opts p)) = Some x)"
proof -
  have "exec_inv (fold (exec_step h) es (start_run opts p))" by (rule exec_machine.reach_inv) blast
  moreover have "er_settled (fold (exec_step h) fs r) = Some x" if "er_settled r = Some x" for r
    using that by (induction fs arbitrary: r) (simp_all add: settled_step)
  ultimately show ?thesis by (auto simp: exec_inv_def split: if_splits)
qed

theorem exec_settles_once_witness:
  "er_settled (fold (exec_step demo_host) ([ProcExit (Some 0), ProcClose (Some 0)] @ [ProcExit (Some 3), TimerFires])
     (start_run (cloneExecOptions demo_host good_world no_options) ''/bin/tar'')) = Some (Inr (Some 0))"
proof -
  have "er_settled (fold (exec_step demo_host) [ProcExit (Some 0), ProcClose (Some 0)]
     (start_run (cloneExecOptions demo_host good_world no_options) ''/bin/tar'')) = Some (Inr (Some 0))"
    by code_simp
  with exec_settles_once [of demo_host "[ProcExit (Some 0), ProcClose (Some 0)]"] show ?thesis by blast
qed

text \<open>
  C37: \<open>exec\<close> does not hang on a process that ends: once the process closed, failed to start, or exited
  and the timer set on its exit fired, the promise is settled, whatever else happened.
\<close>

theorem exec_settles:
  assumes "ProcClose c \<in> set es \<or> ProcError m \<in> set es \<or> (\<exists>as bs cs. es = as @ ProcExit c # bs @ TimerFires # cs)"
  shows "er_settled (run_events h es (start_run opts p)) \<noteq> None"
  using assms run_settles_close [OF exec_inv_start] run_settles_timer [OF exec_inv_start] by blast

theorem exec_settles_witness:
  "er_settled (run_events demo_host [Stdout ''x'', ProcExit (Some 1), Stdout ''y'', TimerFires]
     (start_run (cloneExecOptions demo_host good_world no_options) ''/bin/tar'')) \<noteq> None"
  by (rule exec_settles [where c = "Some 1"], intro disjI2) (rule exI [of _ "[Stdout ''x'']"], rule exI [of _ "[Stdout ''y'']"], simp)

text \<open>
  C10: a process that writes output, exits and closes with a code makes \<open>exec\<close> return that code, unless
  the code is not 0 and \<open>ignoreReturnCode\<close> is off, or something was written to standard error and
  \<open>failOnStdErr\<close> is on; then it rejects with an error that names the program.
\<close>

theorem exec_result_of_close:
  assumes "list_all stream_event es"
  shows "er_settled (run_events h (es @ [ProcExit c, ProcClose c]) (start_run opts p)) =
     Some (if c \<noteq> Some 0 \<and> \<not> fo_ignoreReturnCode opts
           then Inl (Error (''The process '' @ [CHR 0x27] @ p @ [CHR 0x27] @
                  '' failed with exit code '' @ show_code c))
           else if wrote_stderr es \<and> fo_failOnStdErr opts
           then Inl (Error (''The process '' @ [CHR 0x27] @ p @ [CHR 0x27] @
                  '' failed because one or more lines were written to the STDERR stream''))
           else Inr c)"
  by (rule run_closed [OF assms])

theorem exec_result_of_close_witness:
  "er_settled (run_events demo_host ([Stderr ''warning''] @ [ProcExit (Some 0), ProcClose (Some 0)])
     (start_run (cloneExecOptions demo_host good_world no_options) ''/bin/tar'')) = Some (Inr (Some 0))"
proof -
  have "\<not> fo_failOnStdErr (cloneExecOptions demo_host good_world no_options)" by code_simp
  with exec_result_of_close [of "[Stderr ''warning'']" demo_host "Some 0"] show ?thesis
    by (simp add: stream_event_def)
qed

end
