(* ===== verification/Doubles.thy ===== *)
theory Doubles
  imports Prelude
begin

text \<open>
  JavaScript numbers are doubles. Where the program may leave the integers a double represents exactly,
  the model rounds: \<open>fl53 p\<close> is the natural number \<open>p\<close> rounded to 53 significant bits, to even on a tie.
\<close>

fun bit_count :: "nat \<Rightarrow> nat" where
  "bit_count n = (if n = 0 then 0 else Suc (bit_count (n div 2)))"

declare bit_count.simps [simp del]

definition fl53 :: "nat \<Rightarrow> nat" where
  "fl53 p = (let s = bit_count p - 53; q = p div 2 ^ s; r = p mod 2 ^ s in
     if 2 * r > 2 ^ s \<or> (2 * r = 2 ^ s \<and> odd q) then (q + 1) * 2 ^ s else q * 2 ^ s)"

lemma bit_count_0 [simp]: "bit_count 0 = 0"
  by (simp add: bit_count.simps [of 0])

lemma bit_count_pos: "0 < n \<Longrightarrow> bit_count n = Suc (bit_count (n div 2))"
  by (simp add: bit_count.simps [of n])

lemma bit_count_ge: "0 < p \<Longrightarrow> 2 ^ (bit_count p - 1) \<le> p"
proof (induction p rule: less_induct)
  case (less p)
  show ?case
  proof (cases "p div 2 = 0")
    case True
    then show ?thesis using less.prems by (simp add: bit_count_pos)
  next
    case False
    then have q: "0 < p div 2" by simp
    with less.IH [of "p div 2"] less.prems have "2 ^ (bit_count (p div 2) - 1) \<le> p div 2" by simp
    then have "2 * 2 ^ (bit_count (p div 2) - 1) \<le> p" by linarith
    moreover have "bit_count p - 1 = Suc (bit_count (p div 2) - 1)"
      using less.prems q by (simp add: bit_count_pos)
    ultimately show ?thesis by simp
  qed
qed

text \<open>A number below \<open>2^53\<close> is its own double.\<close>

lemma bit_count_le: "n < 2 ^ k \<Longrightarrow> bit_count n \<le> k"
proof (rule ccontr)
  assume n: "n < 2 ^ k" "\<not> bit_count n \<le> k"
  then have "0 < n" by (cases n) auto
  from bit_count_ge [OF this] have "2 ^ (bit_count n - 1) \<le> n" .
  moreover have "(2::nat) ^ k \<le> 2 ^ (bit_count n - 1)" using n(2) by (intro power_increasing) auto
  ultimately show False using n(1) by linarith
qed

lemma fl53_exact: "n < 2 ^ 53 \<Longrightarrow> fl53 n = n"
  using bit_count_le [of n 53] by (simp add: fl53_def)

text \<open>Rounding never reaches the factor: \<open>Math.random() * n\<close> stays below \<open>n\<close>.\<close>

lemma fl53_bound:
  assumes "k < 2 ^ 53" and "0 < n"
  shows "fl53 (k * n) < n * 2 ^ 53"
proof (rule ccontr)
  assume big: "\<not> fl53 (k * n) < n * 2 ^ 53"
  let ?p = "k * n" and ?s = "bit_count (k * n) - 53"
  let ?q = "?p div 2 ^ ?s" and ?r = "?p mod 2 ^ ?s"
  have p: "?p = ?q * 2 ^ ?s + ?r" by (rule div_mult_mod_eq [symmetric])
  have r: "?r < 2 ^ ?s" by simp
  have pn: "?p + n \<le> n * 2 ^ 53"
    using assms by (metis add.commute mult.commute mult_Suc_right Suc_leI mult_le_mono2)
  have up: "fl53 ?p = (?q + 1) * 2 ^ ?s" and tie: "2 ^ ?s \<le> 2 * ?r"
  proof -
    have "?q * 2 ^ ?s < n * 2 ^ 53" using pn assms(2) p by linarith
    with big have "2 ^ ?s < 2 * ?r \<or> (2 * ?r = 2 ^ ?s \<and> odd ?q)"
      unfolding fl53_def Let_def by presburger
    then show "fl53 ?p = (?q + 1) * 2 ^ ?s" "2 ^ ?s \<le> 2 * ?r"
      unfolding fl53_def Let_def by (metis, linarith)
  qed
  have "?s \<noteq> 0" using tie by (cases "?s") auto
  then obtain s where s: "?s = Suc s" by (cases ?s) auto
  have "(?q + 1) * 2 ^ ?s = ?q * 2 ^ ?s + 2 ^ ?s" by (simp add: algebra_simps)
  with big up p have "n * 2 ^ 53 + ?r \<le> ?p + 2 ^ ?s" by linarith
  with pn tie have "2 * n \<le> 2 ^ ?s" by linarith
  then have n: "n \<le> 2 ^ s" by (simp add: s)
  have "0 < ?p" using \<open>?s \<noteq> 0\<close> by (cases ?p) (auto simp: bit_count.simps [of 0])
  then have "2 ^ (bit_count ?p - 1) \<le> ?p" by (rule bit_count_ge)
  moreover have "bit_count ?p - 1 = s + 53" using s by linarith
  ultimately have "2 ^ (s + 53) \<le> ?p" by metis
  also have "?p < 2 ^ 53 * 2 ^ s"
    using assms n by (meson less_le_trans mult_le_mono mult_less_mono1 le_refl)
  finally show False by (simp add: power_add mult.commute)
qed

end
