(* ===== verification/ToolCache.thy ===== *)
theory ToolCache
  imports HttpSafety Exec Doubles Machine
begin

text \<open>
  \<open>@actions/tool-cache\<close>: \<open>retry-helper.js\<close> and the parts of \<open>tool-cache.js\<close> the action uses. An
  attempt of a download is one client with one GET; \<open>RetryHelper.execute\<close> repeats it. Waits are entries
  of the world's list of sleeps, random numbers are the host's 53-bit fractions.

  Not modelled: the \<open>headers\<close> argument of \<open>downloadTool\<close> (no caller passes one), and the global
  \<open>TEST_DOWNLOAD_TOOL_RESPONSE_MESSAGE_FACTORY\<close>, which tests set.
\<close>

section \<open>retry-helper.js\<close>

record retry_helper =
  rh_maxAttempts :: nat
  rh_minSeconds :: nat
  rh_maxSeconds :: nat

definition new_RetryHelper :: "nat \<Rightarrow> nat \<Rightarrow> nat \<Rightarrow> retry_helper res" where
  "new_RetryHelper maxAttempts minSeconds maxSeconds =
     (if maxAttempts < 1 then Inl (Error ''max attempts should be greater than or equal to 1'')
      else if minSeconds > maxSeconds
      then Inl (Error ''min seconds should be less than or equal to max seconds'')
      else Inr \<lparr>rh_maxAttempts = maxAttempts, rh_minSeconds = minSeconds, rh_maxSeconds = maxSeconds\<rparr>)"

text \<open>
  \<open>Math.random()\<close> is \<open>k / 2^53\<close>; \<open>fl53 (k * n)\<close> is its product with \<open>n\<close> in units of \<open>2^-53\<close>.
\<close>

definition random_53 :: "host \<Rightarrow> nat action" where
  "random_53 h = (\<lambda>w. (Inr (h_random h (w_rands w) mod 2 ^ 53), w\<lparr>w_rands := Suc (w_rands w)\<rparr>))"

definition getSleepAmount :: "host \<Rightarrow> retry_helper \<Rightarrow> nat action" where
  "getSleepAmount h rh =
     bindE (random_53 h) (\<lambda>k.
       retE (fl53 (k * (rh_maxSeconds rh - rh_minSeconds rh + 1)) div 2 ^ 53 + rh_minSeconds rh))"

definition rh_sleep :: "nat \<Rightarrow> unit action" where
  "rh_sleep seconds = sleep_ms (seconds * 1000)"

text \<open>\<open>n\<close> more attempts may fail and be repeated; the last one is not caught.\<close>

fun execute_loop ::
  "host \<Rightarrow> retry_helper \<Rightarrow> 'a action \<Rightarrow> (exn \<Rightarrow> bool) option \<Rightarrow> nat \<Rightarrow> 'a action" where
  "execute_loop h rh act isRetryable 0 = act"
| "execute_loop h rh act isRetryable (Suc n) =
     bindE (catchE (bindE act (\<lambda>x. retE (Some x)))
              (\<lambda>err. if (case isRetryable of None \<Rightarrow> False | Some f \<Rightarrow> \<not> f err) then throwE err
                     else thenE (info h (err_message err)) (retE None)))
       (\<lambda>r. case r of
          Some x \<Rightarrow> retE x
        | None \<Rightarrow>
            bindE (getSleepAmount h rh) (\<lambda>seconds.
            thenE (info h (''Waiting '' @ show_nat seconds @ '' seconds before trying again''))
              (thenE (rh_sleep seconds) (execute_loop h rh act isRetryable n))))"

definition execute :: "host \<Rightarrow> retry_helper \<Rightarrow> 'a action \<Rightarrow> (exn \<Rightarrow> bool) option \<Rightarrow> 'a action" where
  "execute h rh act isRetryable = execute_loop h rh act isRetryable (rh_maxAttempts rh - 1)"

section \<open>Temporary directory and globals\<close>

definition getTempDirectory :: "string action" where
  "getTempDirectory =
     bindE (getE (env_or ''RUNNER_TEMP'')) (\<lambda>tempDirectory.
       if tempDirectory = [] then throwE (AssertionError ''Expected RUNNER_TEMP to be defined'')
       else retE tempDirectory)"

definition getGlobal :: "host \<Rightarrow> string \<Rightarrow> nat \<Rightarrow> nat" where
  "getGlobal h key defaultValue = (case h_global h key of None \<Rightarrow> defaultValue | Some v \<Rightarrow> v)"

text \<open>\<open>dest || path.join(_getTempDirectory(), crypto.randomUUID())\<close>.\<close>

definition dest_or_temp :: "host \<Rightarrow> string option \<Rightarrow> string action" where
  "dest_or_temp h dest =
     (case dest of
        Some (c # d) \<Rightarrow> retE (c # d)
      | _ \<Rightarrow> bindE getTempDirectory (\<lambda>t. bindE (random_uuid h) (\<lambda>u. retE (h_join h t u))))"

section \<open>Downloads\<close>

definition userAgent :: string where "userAgent = ''actions/tool-cache''"

definition download_options :: request_options where
  "download_options = \<lparr>ro_headers = None, ro_ignoreSslError = None, ro_allowRedirects = None,
     ro_allowRedirectDowngrade = None, ro_maxRedirects = None, ro_keepAlive = None,
     ro_allowRetries = Some False, ro_maxRetries = None, ro_deserializeDates = False\<rparr>"

definition download_client :: "world \<Rightarrow> http_client" where
  "download_client w = new_HttpClient w userAgent [] (Some download_options)"

text \<open>\<open>stream.pipeline(readStream, fs.createWriteStream(dest))\<close>: what was read is in the file.\<close>

definition pipeline_to :: "host \<Rightarrow> response \<Rightarrow> string \<Rightarrow> unit action" where
  "pipeline_to h r dest =
     thenE (fs_check h ''open'' dest)
       (thenE (fs_put dest (Some (File (concat (rs_chunks r)) 438 0 0)))
          (case rs_end r of BodyEnd \<Rightarrow> retE () | BodyError e \<Rightarrow> throwE e))"

text \<open>The \<open>finally\<close> block of a failed download.\<close>

definition cleanup_download :: "host \<Rightarrow> string \<Rightarrow> unit action" where
  "cleanup_download h dest =
     thenE (debug h ''download failed'')
       (catchE (rmRF h dest)
          (\<lambda>err. debug h (''Failed to delete '' @ [CHR 0x27] @ dest @ [CHR 0x27] @ ''. '' @ err_message err)))"

definition http_error_text :: "string \<Rightarrow> response \<Rightarrow> string" where
  "http_error_text url r =
     ''Failed to download from '' @ [CHR 0x22] @ url @ [CHR 0x22] @ ''. Code('' @ show_nat (rs_status r) @
     '') Message('' @ rs_message r @ '')''"

text \<open>What an attempt does before and after its request: the headers, and the response.\<close>

definition auth_headers :: "host \<Rightarrow> string option \<Rightarrow> headers option action" where
  "auth_headers h auth =
     (case auth of
        Some (c # a) \<Rightarrow> thenE (debug h ''set auth'') (retE (Some [(''authorization'', HStr (c # a))]))
      | _ \<Rightarrow> retE None)"

definition save_response :: "host \<Rightarrow> string \<Rightarrow> string \<Rightarrow> response \<Rightarrow> string action" where
  "save_response h url dest response =
     (if rs_status response \<noteq> 200
      then thenE (debug h (http_error_text url response)) (throwE (HTTPError (rs_status response)))
      else
        catchE (thenE (pipeline_to h response dest) (thenE (debug h ''download complete'') (retE dest)))
          (\<lambda>err. thenE (cleanup_download h dest) (throwE err)))"

definition downloadToolAttempt :: "host \<Rightarrow> string \<Rightarrow> string \<Rightarrow> string option \<Rightarrow> string action" where
  "downloadToolAttempt h url dest auth =
     bindE (getE (fs_exists dest)) (\<lambda>ex.
       if ex then throwE (Error (''Destination file path '' @ dest @ '' already exists''))
       else
         bindE (getE download_client) (\<lambda>http2.
         bindE (auth_headers h auth) (\<lambda>headers.
         bindE (http_get h http2 url headers) (\<lambda>x. save_response h url dest (fst x)))))"

text \<open>A client error other than 408 and 429 is final.\<close>

fun retryable_error :: "exn \<Rightarrow> bool" where
  "retryable_error (HTTPError n) = (\<not> (n \<noteq> 0 \<and> n < 500 \<and> n \<noteq> 408 \<and> n \<noteq> 429))"
| "retryable_error _ = True"

definition downloadTool :: "host \<Rightarrow> string \<Rightarrow> string option \<Rightarrow> string option \<Rightarrow> string action" where
  "downloadTool h url dest0 auth =
     bindE (dest_or_temp h dest0) (\<lambda>dest.
     thenE (mkdirP h (h_dirname h dest))
     (thenE (debug h (''Downloading '' @ url))
     (thenE (debug h (''Destination '' @ dest))
     (bindE (liftE (new_RetryHelper 3
               (getGlobal h ''TEST_DOWNLOAD_TOOL_RETRY_MIN_SECONDS'' 10)
               (getGlobal h ''TEST_DOWNLOAD_TOOL_RETRY_MAX_SECONDS'' 20))) (\<lambda>retryHelper.
        execute h retryHelper (downloadToolAttempt h url dest auth) (Some retryable_error))))))"

section \<open>Extraction\<close>

definition createExtractFolder :: "host \<Rightarrow> string option \<Rightarrow> string action" where
  "createExtractFolder h dest0 =
     bindE (dest_or_temp h dest0) (\<lambda>dest. thenE (mkdirP h dest) (retE dest))"

datatype tar_flags = FlagText string | FlagList "string list"

fun flag_args :: "tar_flags \<Rightarrow> string list" where
  "flag_args (FlagText s) = [s]"
| "flag_args (FlagList xs) = xs"

fun flags_include_v :: "tar_flags \<Rightarrow> bool" where
  "flags_include_v (FlagText s) = str_includes s ''v''"
| "flags_include_v (FlagList xs) = (''v'' \<in> set xs)"

definition version_options :: exec_options where
  "version_options = no_options\<lparr>eo_ignoreReturnCode := True, eo_silent := True\<rparr>"

definition slashes :: "string \<Rightarrow> string" where
  "slashes s = replace_all CHR 0x5C ''/'' s"

definition tar_args :: "host \<Rightarrow> bool \<Rightarrow> bool \<Rightarrow> tar_flags \<Rightarrow> string \<Rightarrow> string \<Rightarrow> string list" where
  "tar_args h dbg isGnuTar flags file dest =
     flag_args flags @
     (if dbg \<and> \<not> flags_include_v flags then [''-v''] else []) @
     (if is_windows h \<and> isGnuTar then [''--force-local''] else []) @
     (if isGnuTar then [''--warning=no-unknown-keyword'', ''--overwrite''] else []) @
     [''-C'', (if is_windows h \<and> isGnuTar then slashes dest else dest),
      ''-f'', (if is_windows h \<and> isGnuTar then slashes file else file)]"

definition file_required :: exn where
  "file_required = Error (''parameter '' @ [CHR 0x27] @ ''file'' @ [CHR 0x27] @ '' is required'')"

definition extractTar :: "host \<Rightarrow> string \<Rightarrow> string option \<Rightarrow> tar_flags \<Rightarrow> string action" where
  "extractTar h file dest0 flags =
     (if file = [] then throwE file_required
      else
        bindE (createExtractFolder h dest0) (\<lambda>dest.
        thenE (debug h ''Checking tar --version'')
        (bindE (exec_cmd h ''tar --version'' [] version_options) (\<lambda>(_, calls).
          let versionOutput = concat (map snd calls);
              isGnuTar = str_includes (to_upper versionOutput) ''GNU TAR'' in
          thenE (debug h (js_trim versionOutput))
          (bindE (getE isDebug) (\<lambda>dbg.
           thenE (bindE (exec_cmd h ''tar'' (tar_args h dbg isGnuTar flags file dest) no_options) (\<lambda>_. retE ()))
             (retE dest)))))))"

text \<open>A single-quoted PowerShell literal; double quotes and line ends are dropped.\<close>

definition ps_escape_char :: "char \<Rightarrow> string" where
  "ps_escape_char c =
     (if c = CHR 0x27 then [CHR 0x27, CHR 0x27]
      else if c = CHR 0x22 \<or> c = CHR 0x0A \<or> c = CHR 0x0D then [] else [c])"

definition ps_escape :: "string \<Rightarrow> string" where
  "ps_escape s = concat (map ps_escape_char s)"

definition ps_literal :: "string \<Rightarrow> string" where
  "ps_literal s = [CHR 0x27] @ s @ [CHR 0x27]"

definition pwsh_command :: "string \<Rightarrow> string \<Rightarrow> string" where
  "pwsh_command file dest = join '' ''
     [''$ErrorActionPreference = '' @ ps_literal ''Stop'' @ '' ;'',
      ''try { Add-Type -AssemblyName System.IO.Compression.ZipFile } catch { } ;'',
      ''try { [System.IO.Compression.ZipFile]::ExtractToDirectory('' @ ps_literal (ps_escape file) @ '', '' @
        ps_literal (ps_escape dest) @ '', $true) }'',
      ''catch { if (($_.Exception.GetType().FullName -eq '' @
        ps_literal ''System.Management.Automation.MethodException'' @
        '') -or ($_.Exception.GetType().FullName -eq '' @
        ps_literal ''System.Management.Automation.RuntimeException'' @
        '') ){ Expand-Archive -LiteralPath '' @ ps_literal (ps_escape file) @ '' -DestinationPath '' @
        ps_literal (ps_escape dest) @ '' -Force } else { throw $_ } } ;'']"

definition powershell_command :: "string \<Rightarrow> string \<Rightarrow> string" where
  "powershell_command file dest = join '' ''
     [''$ErrorActionPreference = '' @ ps_literal ''Stop'' @ '' ;'',
      ''try { Add-Type -AssemblyName System.IO.Compression.FileSystem } catch { } ;'',
      ''if ((Get-Command -Name Expand-Archive -Module Microsoft.PowerShell.Archive -ErrorAction Ignore)) { Expand-Archive -LiteralPath '' @
        ps_literal (ps_escape file) @ '' -DestinationPath '' @ ps_literal (ps_escape dest) @ '' -Force }'',
      ''else {[System.IO.Compression.ZipFile]::ExtractToDirectory('' @ ps_literal (ps_escape file) @ '', '' @
        ps_literal (ps_escape dest) @ '', $true) }'']"

definition quoted :: "string \<Rightarrow> string" where
  "quoted s = [CHR 0x22] @ s @ [CHR 0x22]"

definition extractZipWin :: "host \<Rightarrow> string \<Rightarrow> string \<Rightarrow> unit action" where
  "extractZipWin h file dest =
     bindE (which h ''pwsh'' False) (\<lambda>pwshPath.
       if pwshPath \<noteq> []
       then thenE (debug h (''Using pwsh at path: '' @ pwshPath))
              (bindE (exec_cmd h (quoted pwshPath)
                 [''-NoLogo'', ''-NoProfile'', ''-NonInteractive'', ''-ExecutionPolicy'', ''Unrestricted'',
                  ''-Command'', pwsh_command file dest] no_options) (\<lambda>_. retE ()))
       else bindE (which h ''powershell'' True) (\<lambda>powershellPath.
              thenE (debug h (''Using powershell at path: '' @ powershellPath))
              (bindE (exec_cmd h (quoted powershellPath)
                 [''-NoLogo'', ''-Sta'', ''-NoProfile'', ''-NonInteractive'', ''-ExecutionPolicy'', ''Unrestricted'',
                  ''-Command'', powershell_command file dest] no_options) (\<lambda>_. retE ()))))"

definition extractZipNix :: "host \<Rightarrow> string \<Rightarrow> string \<Rightarrow> unit action" where
  "extractZipNix h file dest =
     bindE (which h ''unzip'' True) (\<lambda>unzipPath.
     bindE (getE isDebug) (\<lambda>dbg.
     bindE (exec_cmd h (quoted unzipPath) ([''-o''] @ (if dbg then [] else [''-q'']) @ [file])
              (no_options\<lparr>eo_cwd := Some dest\<rparr>)) (\<lambda>_. retE ())))"

definition extractZip :: "host \<Rightarrow> string \<Rightarrow> string option \<Rightarrow> string action" where
  "extractZip h file dest0 =
     (if file = [] then throwE file_required
      else
        bindE (createExtractFolder h dest0) (\<lambda>dest.
        thenE (if is_windows h then extractZipWin h file dest else extractZipNix h file dest)
          (retE dest)))"

section \<open>Waits\<close>

lemma getSleepAmount_bounds:
  assumes "getSleepAmount h rh w = (Inr n, w')" and "rh_minSeconds rh \<le> rh_maxSeconds rh"
  shows "rh_minSeconds rh \<le> n" "n \<le> rh_maxSeconds rh"
proof -
  let ?d = "rh_maxSeconds rh - rh_minSeconds rh + 1"
  obtain k where k: "k < 2 ^ 53" and n: "n = fl53 (k * ?d) div 2 ^ 53 + rh_minSeconds rh"
    using assms(1) that [of "h_random h (w_rands w) mod 2 ^ 53"]
    by (simp add: getSleepAmount_def random_53_def bindE_def)
  from fl53_bound [OF k, of ?d] have "fl53 (k * ?d) div 2 ^ 53 < ?d"
    by (simp add: div_less_iff_less_mult)
  with n assms(2) show "rh_minSeconds rh \<le> n" "n \<le> rh_maxSeconds rh" by auto
qed

section \<open>Attempts\<close>

text \<open>
  What \<open>execute\<close> does to any property of the state, given what an attempt does to it: \<open>I i\<close> holds before
  attempt \<open>i\<close>, \<open>J i e\<close> after its failure with \<open>e\<close>. A wait between the two bounds leads from one to the
  next, only after an error that may be retried, and the last failure is the result.
\<close>

lemma execute_loop_triple:
  assumes act: "\<And>i. i \<le> n \<Longrightarrow> triple (I i) act Q (J i)"
    and again: "\<And>i e w out k s. i < n \<Longrightarrow> J i e w \<Longrightarrow> (case f of None \<Rightarrow> True | Some g \<Rightarrow> g e) \<Longrightarrow>
      rh_minSeconds rh \<le> s \<Longrightarrow> s \<le> rh_maxSeconds rh \<Longrightarrow>
      I (Suc i) (w\<lparr>w_rands := k, w_out := out, w_sleeps := w_sleeps w @ [s * 1000]\<rparr>)"
    and fail: "\<And>i e w. i \<le> n \<Longrightarrow> J i e w \<Longrightarrow> E e w"
    and rh: "rh_minSeconds rh \<le> rh_maxSeconds rh"
  shows "m + k = n \<Longrightarrow> triple (I m) (execute_loop h rh act f k) Q E"
proof (induction k arbitrary: m)
  case 0
  show ?case unfolding execute_loop.simps
    by (rule triple_conseq [OF act [of m]]) (use 0 in \<open>auto intro: fail\<close>)
next
  case (Suc k)
  let ?R = "\<lambda>r w. case r of Some x \<Rightarrow> Q x w
     | None \<Rightarrow> (\<exists>e w0 out. w = w0\<lparr>w_out := out\<rparr> \<and> J m e w0 \<and> (case f of None \<Rightarrow> True | Some g \<Rightarrow> g e))"
  have m: "m < n" "m \<le> n" using Suc.prems by auto
  show ?case unfolding execute_loop.simps
  proof (rule triple_bindE)
    show "triple (I m) (catchE (bindE act (\<lambda>x. retE (Some x)))
         (\<lambda>err. if (case f of None \<Rightarrow> False | Some g \<Rightarrow> \<not> g err) then throwE err
                else thenE (info h (err_message err)) (retE None))) ?R E"
    proof (rule triple_catchE [where F = "J m"])
      show "triple (I m) (bindE act (\<lambda>x. retE (Some x))) ?R (J m)"
        by (rule triple_bindE [OF act [OF m(2)]]) (simp add: triple_def)
      show "triple (J m err) (if (case f of None \<Rightarrow> False | Some g \<Rightarrow> \<not> g err) then throwE err
                else thenE (info h (err_message err)) (retE None)) ?R E" for err
        using fail [OF m(2), of err]
        by (auto simp: triple_def thenE_def bindE_def info_def write_out_def split: option.splits)
    qed (use m fail in blast)
    fix r
    show "triple (?R r) (case r of Some x \<Rightarrow> retE x
        | None \<Rightarrow> bindE (getSleepAmount h rh) (\<lambda>seconds.
            thenE (info h (''Waiting '' @ show_nat seconds @ '' seconds before trying again''))
              (thenE (rh_sleep seconds) (execute_loop h rh act f k)))) Q E"
    proof (cases r)
      case None
      have "triple (?R None) (bindE (getSleepAmount h rh) (\<lambda>seconds.
            thenE (info h (''Waiting '' @ show_nat seconds @ '' seconds before trying again''))
              (thenE (rh_sleep seconds) (execute_loop h rh act f k)))) Q E"
        unfolding triple_def
      proof (intro allI impI)
        fix w assume w: "?R None w"
        then obtain e w0 out where w0: "w = w0\<lparr>w_out := out\<rparr>" "J m e w0"
          "case f of None \<Rightarrow> True | Some g \<Rightarrow> g e" by auto
        obtain s where s: "getSleepAmount h rh w = (Inr s, w\<lparr>w_rands := Suc (w_rands w)\<rparr>)"
          by (simp add: getSleepAmount_def random_53_def bindE_def)
        note b = getSleepAmount_bounds [OF s rh]
        let ?w = "w0\<lparr>w_rands := Suc (w_rands w),
              w_out := out @ (''Waiting '' @ show_nat s @ '' seconds before trying again'') @ eol h, w_sleeps := w_sleeps w0 @ [s * 1000]\<rparr>"
        have "I (Suc m) ?w" by (rule again [OF m(1) w0(2,3) b])
        moreover have "triple (I (Suc m)) (execute_loop h rh act f k) Q E"
          by (rule Suc.IH) (use Suc.prems in simp)
        ultimately have "case execute_loop h rh act f k ?w of (Inl e, w') \<Rightarrow> E e w' | (Inr x, w') \<Rightarrow> Q x w'"
          by (simp add: triple_def)
        then show "case bindE (getSleepAmount h rh) (\<lambda>seconds.
            thenE (info h (''Waiting '' @ show_nat seconds @ '' seconds before trying again''))
              (thenE (rh_sleep seconds) (execute_loop h rh act f k))) w of
            (Inl e, w') \<Rightarrow> E e w' | (Inr x, w') \<Rightarrow> Q x w'"
          by (simp add: bindE_def s [unfolded w0(1)] thenE_def info_def write_out_def rh_sleep_def sleep_ms_def w0(1))
      qed
      then show ?thesis by (simp add: None)
    qed (simp add: triple_def)
  qed
qed

lemma execute_triple:
  assumes "new_RetryHelper a lo hi = Inr rh"
    and "\<And>i. i < a \<Longrightarrow> triple (I i) act Q (J i)"
    and "\<And>i e w out k s. Suc i < a \<Longrightarrow> J i e w \<Longrightarrow> (case f of None \<Rightarrow> True | Some g \<Rightarrow> g e) \<Longrightarrow>
      lo \<le> s \<Longrightarrow> s \<le> hi \<Longrightarrow>
      I (Suc i) (w\<lparr>w_rands := k, w_out := out, w_sleeps := w_sleeps w @ [s * 1000]\<rparr>)"
    and "\<And>i e w. i < a \<Longrightarrow> J i e w \<Longrightarrow> E e w"
  shows "triple (I 0) (execute h rh act f) Q E"
proof -
  have rh: "a \<ge> 1" "rh = \<lparr>rh_maxAttempts = a, rh_minSeconds = lo, rh_maxSeconds = hi\<rparr>" "lo \<le> hi"
    using assms(1) by (auto simp: new_RetryHelper_def split: if_splits)
  show ?thesis unfolding execute_def
  proof (rule execute_loop_triple [where I = I and J = J and n = "a - 1"])
    show "E e w" if "i \<le> a - 1" "J i e w" for i e w
      using that rh(1) assms(4) [of i e w] by simp
  qed (use rh assms(2,3) in auto)
qed

section \<open>Frames\<close>

lemma keeps_random_53 [keeps_rules]:
  "(\<And>w x. g (w\<lparr>w_rands := x\<rparr>) = g w) \<Longrightarrow> keeps g (random_53 h)"
  by (simp add: keeps_def random_53_def)

lemma keeps_execute_loop:
  assumes "keeps g act" "\<And>w x. g (w\<lparr>w_out := x\<rparr>) = g w" "\<And>w x. g (w\<lparr>w_rands := x\<rparr>) = g w"
    "\<And>w x. g (w\<lparr>w_sleeps := x\<rparr>) = g w"
  shows "keeps g (execute_loop h rh act f n)"
  by (induction n) (auto simp: getSleepAmount_def rh_sleep_def intro!: keeps_rules assms)

lemma download_client_fields [simp]:
  "hc_handlers (download_client w) = []" "hc_maxRedirects (download_client w) = 50"
  "hc_allowRetries (download_client w) = False" "hc_allowRedirectDowngrade (download_client w) = False"
  "hc_ignoreSslError (download_client w) = False" "hc_requestOptions (download_client w) = Some download_options"
  by (simp_all add: download_client_def new_HttpClient_def download_options_def or_default_def Let_def)

lemma keeps_http_get:
  assumes "hc_handlers c = []" "\<And>w x. g (w\<lparr>w_reqs := x\<rparr>) = g w" "\<And>w x. g (w\<lparr>w_sleeps := x\<rparr>) = g w"
  shows "keeps g (http_get h c u hs)"
  unfolding http_get_def by (rule keeps_request [OF assms])

lemma keeps_cleanup_download [keeps_rules]:
  "(\<And>w x. g (w\<lparr>w_out := x\<rparr>) = g w) \<Longrightarrow> (\<And>w x. g (w\<lparr>w_fs := x\<rparr>) = g w) \<Longrightarrow>
   keeps g (cleanup_download h d)"
  unfolding cleanup_download_def by (intro keeps_rules)

lemma keeps_pipeline_to [keeps_rules]:
  "(\<And>w x. g (w\<lparr>w_fs := x\<rparr>) = g w) \<Longrightarrow> keeps g (pipeline_to h r d)"
  unfolding pipeline_to_def by (auto intro!: keeps_rules split: body_end.splits)

lemma keeps_auth_headers [keeps_rules]:
  "(\<And>w x. g (w\<lparr>w_out := x\<rparr>) = g w) \<Longrightarrow> keeps g (auth_headers h a)"
  unfolding auth_headers_def by (auto intro!: keeps_rules split: option.splits list.splits)

lemma keeps_save_response [keeps_rules]:
  "(\<And>w x. g (w\<lparr>w_out := x\<rparr>) = g w) \<Longrightarrow> (\<And>w x. g (w\<lparr>w_fs := x\<rparr>) = g w) \<Longrightarrow>
   keeps g (save_response h url d r)"
  unfolding save_response_def by (intro keeps_rules)

lemma keeps_downloadToolAttempt [keeps_rules]:
  assumes "\<And>w x. g (w\<lparr>w_out := x\<rparr>) = g w" "\<And>w x. g (w\<lparr>w_fs := x\<rparr>) = g w"
    "\<And>w x. g (w\<lparr>w_reqs := x\<rparr>) = g w" "\<And>w x. g (w\<lparr>w_sleeps := x\<rparr>) = g w"
  shows "keeps g (downloadToolAttempt h url d a)"
  unfolding downloadToolAttempt_def
  by (auto intro!: keeps_rules keeps_bindE_strong [of g "getE download_client"] keeps_http_get assms)

lemma keeps_dest_or_temp [keeps_rules]:
  "(\<And>w x. g (w\<lparr>w_uuids := x\<rparr>) = g w) \<Longrightarrow> keeps g (dest_or_temp h d)"
  unfolding dest_or_temp_def getTempDirectory_def
  by (auto intro!: keeps_rules split: option.splits list.splits)

lemma keeps_downloadTool [keeps_rules]:
  assumes "\<And>w x. g (w\<lparr>w_out := x\<rparr>) = g w" "\<And>w x. g (w\<lparr>w_fs := x\<rparr>) = g w"
    "\<And>w x. g (w\<lparr>w_reqs := x\<rparr>) = g w" "\<And>w x. g (w\<lparr>w_sleeps := x\<rparr>) = g w"
    "\<And>w x. g (w\<lparr>w_rands := x\<rparr>) = g w" "\<And>w x. g (w\<lparr>w_uuids := x\<rparr>) = g w"
  shows "keeps g (downloadTool h url d a)"
  unfolding downloadTool_def execute_def by (intro keeps_rules keeps_execute_loop assms)

lemma keeps_createExtractFolder [keeps_rules]:
  "(\<And>w x. g (w\<lparr>w_uuids := x\<rparr>) = g w) \<Longrightarrow> (\<And>w x. g (w\<lparr>w_fs := x\<rparr>) = g w) \<Longrightarrow>
   keeps g (createExtractFolder h d)"
  unfolding createExtractFolder_def by (intro keeps_rules)

text \<open>What a step of an extraction may change: files, output, processes and identifiers.\<close>

definition extraction_frame :: "(world \<Rightarrow> 'v) \<Rightarrow> bool" where
  "extraction_frame g \<longleftrightarrow> (\<forall>w x. g (w\<lparr>w_out := x\<rparr>) = g w) \<and> (\<forall>w x. g (w\<lparr>w_err := x\<rparr>) = g w) \<and>
     (\<forall>w x y. g (w\<lparr>w_spawns := x, w_fs := y\<rparr>) = g w) \<and> (\<forall>w x. g (w\<lparr>w_fs := x\<rparr>) = g w) \<and>
     (\<forall>w x. g (w\<lparr>w_uuids := x\<rparr>) = g w)"

lemma keeps_extractTar: "extraction_frame g \<Longrightarrow> keeps g (extractTar h f d fl)"
  unfolding extraction_frame_def extractTar_def Let_def by (auto intro!: keeps_rules)

lemma keeps_extractZip: "extraction_frame g \<Longrightarrow> keeps g (extractZip h f d)"
  unfolding extraction_frame_def extractZip_def extractZipWin_def extractZipNix_def
  by (auto intro!: keeps_rules)

section \<open>PowerShell literals\<close>

text \<open>
  How PowerShell reads a command: text outside literals, and the contents of single-quoted literals, in
  which a doubled quote is one quote.
\<close>

abbreviation (input) APOS :: char where "APOS \<equiv> CHR 0x27"

fun ps_scan :: "string option \<Rightarrow> string \<Rightarrow> string \<times> string list" where
  "ps_scan None [] = ([], [])"
| "ps_scan (Some l) [] = ([], [rev l])"
| "ps_scan None (c # s) =
     (case ps_scan (if c = APOS then Some [] else None) s of (code, ls) \<Rightarrow> (c # code, ls))"
| "ps_scan (Some l) (c # s) =
     (if c = APOS
      then (case s of
              [] \<Rightarrow> ([], [rev l])
            | d # t \<Rightarrow> if d = APOS then ps_scan (Some (APOS # l)) t
                      else (case ps_scan None s of (code, ls) \<Rightarrow> (code, rev l # ls)))
      else ps_scan (Some (c # l)) s)"

text \<open>What of a path survives the escape.\<close>

definition ps_kept :: "string \<Rightarrow> string" where
  "ps_kept s = filter (\<lambda>c. c \<noteq> CHR 0x22 \<and> c \<noteq> CHR 0x0A \<and> c \<noteq> CHR 0x0D) s"

lemma ps_scan_code:
  "APOS \<notin> set t \<Longrightarrow> ps_scan None (t @ s) = (case ps_scan None s of (code, ls) \<Rightarrow> (t @ code, ls))"
  by (induction t) (auto split: prod.splits)

lemma ps_scan_literal:
  "s = [] \<or> hd s \<noteq> APOS \<Longrightarrow>
   ps_scan (Some l) (ps_escape x @ APOS # s) = (case ps_scan None s of (code, ls) \<Rightarrow> (code, (rev l @ ps_kept x) # ls))"
proof (induction x arbitrary: l)
  case Nil
  then show ?case by (cases s) (auto simp: ps_escape_def ps_kept_def split: prod.splits)
next
  case (Cons c x)
  have "ps_escape (c # x) = ps_escape_char c @ ps_escape x" by (simp add: ps_escape_def)
  with Cons show ?case by (auto simp: ps_escape_char_def ps_kept_def)
qed

lemma ps_scan_quoted:
  "s = [] \<or> hd s \<noteq> APOS \<Longrightarrow>
   ps_scan None (ps_literal (ps_escape x) @ s) = (case ps_scan None s of (code, ls) \<Rightarrow> (APOS # code, ps_kept x # ls))"
  using ps_scan_literal [of s "[]" x] by (simp add: ps_literal_def split: prod.splits)

lemma ps_scan_word:
  assumes "APOS \<notin> set x" "CHR 0x22 \<notin> set x" "CHR 0x0A \<notin> set x" "CHR 0x0D \<notin> set x"
    and "s = [] \<or> hd s \<noteq> APOS"
  shows "ps_scan None (ps_literal x @ s) = (case ps_scan None s of (code, ls) \<Rightarrow> (APOS # code, x # ls))"
proof -
  have "ps_escape x = x" using assms(1-4) by (induction x) (auto simp: ps_escape_def ps_escape_char_def)
  moreover have "ps_kept x = x" using assms(2-4) by (auto simp: ps_kept_def filter_id_conv)
  ultimately show ?thesis using ps_scan_quoted [OF assms(5), of x] by simp
qed

section \<open>Properties\<close>


text \<open>
  The wait before a download is tried again is a whole number of seconds within the bounds the
  helper was made with, both included, for every number the random source can give.
\<close>

theorem sleep_within_bounds:
  assumes "new_RetryHelper m lo hi = Inr rh"
  shows "\<exists>n w'. getSleepAmount h rh w = (Inr n, w') \<and> lo \<le> n \<and> n \<le> hi"
proof -
  obtain n w' where n: "getSleepAmount h rh w = (Inr n, w')"
    by (simp add: getSleepAmount_def bindE_def random_53_def)
  moreover have "rh_minSeconds rh = lo" "rh_maxSeconds rh = hi" "lo \<le> hi"
    using assms by (auto simp: new_RetryHelper_def split: if_splits)
  ultimately show ?thesis using getSleepAmount_bounds [OF n] by auto
qed

theorem sleep_within_bounds_witness:
  "\<exists>n w'. getSleepAmount demo_host \<lparr>rh_maxAttempts = 3, rh_minSeconds = 10, rh_maxSeconds = 20\<rparr> good_world
     = (Inr n, w') \<and> 10 \<le> n \<and> n \<le> 20"
  by (rule sleep_within_bounds [of 3]) (simp add: new_RetryHelper_def)

end
