(* ===== verification/Download.thy ===== *)
theory Download
  imports ToolCache Machine
begin

text \<open>
  What \<open>downloadTool\<close> guarantees: the file it returns holds the complete body of a 200 answer to the
  last request sent, a failed attempt leaves no file behind, and the number of requests and the waits
  are bounded. Each is proved of one attempt and carried through the retries by \<open>execute_triple\<close>.
\<close>

lemma triple_whole:
  "(\<And>w. P w \<Longrightarrow> case m w of (Inl e, w') \<Rightarrow> E e w' | (Inr x, w') \<Rightarrow> Q x w') \<Longrightarrow> triple P m Q E"
  by (simp add: triple_def)

section \<open>One attempt\<close>

text \<open>A part of the state an operation keeps is an invariant of it.\<close>

lemma triple_inv: "keeps P m \<Longrightarrow> triple P m (\<lambda>_. P) (\<lambda>_. P)"
  by (rule triple_keeps [where I = "\<lambda>b. b"])

text \<open>An invariant of the request is one of the attempt.\<close>

lemma attempt_triple:
  assumes get: "\<And>w0 hs. triple P (http_get h (download_client w0) url hs) (\<lambda>_. Q) (\<lambda>_. Q)"
    and P: "\<And>w x. P (w\<lparr>w_out := x\<rparr>) = P w"
    and Q: "\<And>w x. Q (w\<lparr>w_out := x\<rparr>) = Q w" "\<And>w x. Q (w\<lparr>w_fs := x\<rparr>) = Q w"
    and PQ: "\<And>w. P w \<Longrightarrow> Q w"
  shows "triple P (downloadToolAttempt h url d a) (\<lambda>_. Q) (\<lambda>_. Q)"
proof -
  have hs: "triple P (auth_headers h a) (\<lambda>_. P) (\<lambda>_. Q)"
    by (rule triple_conseq [OF triple_inv [OF keeps_auth_headers [OF P]]]) (simp_all add: PQ)
  have tail: "triple Q (save_response h url d r) (\<lambda>_. Q) (\<lambda>_. Q)" for r
    by (rule triple_inv) (intro keeps_rules Q)
  have get0: "triple P (getE f) (\<lambda>_. P) (\<lambda>_. Q)" for f :: "world \<Rightarrow> 'z"
    by (simp add: triple_getE)
  have "triple P (bindE (getE (download_client)) (\<lambda>http2. bindE (auth_headers h a) (\<lambda>headers.
         bindE (http_get h http2 url headers) (\<lambda>x. save_response h url d (fst x))))) (\<lambda>_. Q) (\<lambda>_. Q)"
  proof (rule triple_whole)
    fix w assume w: "P w"
    have "triple P (bindE (auth_headers h a) (\<lambda>headers.
         bindE (http_get h (download_client w) url headers) (\<lambda>x. save_response h url d (fst x)))) (\<lambda>_. Q) (\<lambda>_. Q)"
      by (rule triple_bindE [OF hs triple_bindE [OF get tail]])
    with w show "case bindE (getE (download_client)) (\<lambda>http2. bindE (auth_headers h a) (\<lambda>headers.
         bindE (http_get h http2 url headers) (\<lambda>x. save_response h url d (fst x)))) w of
        (Inl e, w') \<Rightarrow> Q w' | (Inr x, w') \<Rightarrow> Q w'"
      by (simp add: triple_def bindE_def [of "getE _"])
  qed
  moreover have "triple P (throwE e) (\<lambda>_. Q) (\<lambda>_. Q)" for e :: exn
    by (simp add: triple_def PQ)
  ultimately show ?thesis unfolding downloadToolAttempt_def
    by (intro triple_bindE [OF get0]) (simp_all add: triple_throwE PQ)
qed

lemma attempt_spent:
  "triple (spent n s) (downloadToolAttempt h url d a) (\<lambda>_. spent (n + 51) s) (\<lambda>_. spent (n + 51) s)"
proof (rule attempt_triple)
  fix w0 :: world and hs
  show "triple (spent n s) (http_get h (download_client w0) url hs) (\<lambda>_. spent (n + 51) s) (\<lambda>_. spent (n + 51) s)"
  proof (rule triple_whole)
    fix w assume w: "spent n s w"
    obtain r w' where r: "http_get h (download_client w0) url hs w = (r, w')"
      by (cases "http_get h (download_client w0) url hs w")
    from request_spent [OF _ r [unfolded http_get_def]] w have "spent (n + 51) s w'"
      by (auto simp: waited_def maxTries_def spent_def)
    with r show "case http_get h (download_client w0) url hs w of
        (Inl e, w') \<Rightarrow> spent (n + 51) s w' | (Inr x, w') \<Rightarrow> spent (n + 51) s w'"
      by (simp split: sum.split)
  qed
qed (auto simp: spent_def)

lemma attempt_secure:
  assumes "\<And>u. h_url h url = Some u \<Longrightarrow> u_protocol u = ''https:''"
  shows "triple (sent n secure_request) (downloadToolAttempt h url d a)
    (\<lambda>_. sent n secure_request) (\<lambda>_. sent n secure_request)"
proof (rule attempt_triple)
  fix w0 :: world and hs
  have c: "strict_client (download_client w0)" by (simp add: strict_client_def)
  show "triple (sent n secure_request) (http_get h (download_client w0) url hs)
    (\<lambda>_. sent n secure_request) (\<lambda>_. sent n secure_request)"
    unfolding http_get_def
  proof (cases "h_url h url")
    case (Some u)
    then show "triple (sent n secure_request) (request h (download_client w0) ''GET'' url None (Some (or_default [] hs)))
      (\<lambda>_. sent n secure_request) (\<lambda>_. sent n secure_request)"
      using https_only.request_triple [OF c] assms by blast
  qed (rule request_invalid)
qed (auto simp: sent_def)

text \<open>A returned attempt: the file is the body of a 200 answer to the last request.\<close>

definition downloaded :: "host \<Rightarrow> string \<Rightarrow> world \<Rightarrow> bool" where
  "downloaded h p w \<longleftrightarrow> (\<exists>resp path. w_reqs w \<noteq> [] \<and> first_result path (h_http h (w_reqs w)) = Inr resp \<and>
     rs_status resp = 200 \<and> rs_end resp = BodyEnd \<and>
     w_fs w p = Some (File (concat (rs_chunks resp)) 438 0 0))"

lemma pipeline_to_Inr:
  "pipeline_to h r d w = (Inr x, w') \<Longrightarrow>
   rs_end r = BodyEnd \<and> w' = w\<lparr>w_fs := (w_fs w)(d \<mapsto> File (concat (rs_chunks r)) 438 0 0)\<rparr>"
  by (auto simp: pipeline_to_def thenE_def bindE_def fs_check_def fs_put_def
      split: option.splits body_end.splits)

lemma thenE_InrE:
  assumes "thenE m n w = (Inr y, w')"
  obtains x w1 where "m w = (Inr x, w1)" "n w1 = (Inr y, w')"
  using assms unfolding thenE_def by (elim bindE_InrE)

lemma save_response_Inr:
  assumes "save_response h url d r w = (Inr p, w')"
  shows "p = d \<and> rs_status r = 200 \<and> rs_end r = BodyEnd \<and> w_reqs w' = w_reqs w \<and>
    w_fs w' d = Some (File (concat (rs_chunks r)) 438 0 0)"
proof -
  have ok: "rs_status r = 200"
    using assms by (cases "rs_status r = 200") (auto simp: save_response_def elim!: thenE_InrE)
  let ?m = "thenE (pipeline_to h r d) (thenE (debug h ''download complete'') (retE d))"
  have "?m w = (Inr p, w')"
  proof (cases "?m w")
    case (Pair x w1)
    then show ?thesis using assms ok
      by (cases x) (auto simp: save_response_def catchE_def elim!: thenE_InrE split: if_splits)
  qed
  then obtain u w1 where "pipeline_to h r d w = (Inr u, w1)" "thenE (debug h ''download complete'') (retE d) w1 = (Inr p, w')"
    by (rule thenE_InrE)
  with ok pipeline_to_Inr [of h r d w u w1] show ?thesis
    by (auto elim!: thenE_InrE simp: debug_apply)
qed

lemma attempt_Inr:
  assumes "downloadToolAttempt h url d a w = (Inr p, w')"
  shows "p = d \<and> downloaded h d w'"
proof -
  obtain ex w1 where "(if ex then throwE (Error (''Destination file path '' @ d @ '' already exists''))
       else bindE (getE download_client) (\<lambda>http2. bindE (auth_headers h a) (\<lambda>headers.
         bindE (http_get h http2 url headers) (\<lambda>x. save_response h url d (fst x))))) w1 = (Inr p, w')"
    using assms unfolding downloadToolAttempt_def by (rule bindE_InrE)
  then have "bindE (getE download_client) (\<lambda>http2. bindE (auth_headers h a) (\<lambda>headers.
         bindE (http_get h http2 url headers) (\<lambda>x. save_response h url d (fst x)))) w1 = (Inr p, w')"
    by (cases ex) simp_all
  then obtain c w2 where c: "getE download_client w1 = (Inr c, w2)" and "bindE (auth_headers h a) (\<lambda>headers.
         bindE (http_get h c url headers) (\<lambda>x. save_response h url d (fst x))) w2 = (Inr p, w')"
    by (rule bindE_InrE)
  then obtain headers w3 where "bindE (http_get h c url headers) (\<lambda>x. save_response h url d (fst x)) w3 = (Inr p, w')"
    by (elim bindE_InrE [of "auth_headers h a"])
  then obtain y w4 where get: "http_get h c url headers w3 = (Inr y, w4)"
    and save: "save_response h url d (fst y) w4 = (Inr p, w')"
    by (rule bindE_InrE)
  have "hc_handlers c = []" using c by auto
  with request_Inr [OF get [unfolded http_get_def]] have "answers h y w4" by blast
  with save_response_Inr [OF save] show ?thesis
    by (auto simp: downloaded_def answers_def case_prod_beta)
qed

section \<open>downloadTool\<close>

lemma liftE_Inl: "liftE (Inl e) = throwE e"
  and liftE_Inr: "liftE (Inr x) = retE x"
  by (simp_all add: fun_eq_iff)

text \<open>Everything before the attempts keeps the requests and the waits.\<close>

lemma downloadTool_triple:
  assumes frame: "\<And>w x. P (w\<lparr>w_out := x\<rparr>) = P w" "\<And>w x. P (w\<lparr>w_fs := x\<rparr>) = P w"
      "\<And>w x. P (w\<lparr>w_uuids := x\<rparr>) = P w"
    and run: "\<And>dest rh. new_RetryHelper 3 (getGlobal h ''TEST_DOWNLOAD_TOOL_RETRY_MIN_SECONDS'' 10)
        (getGlobal h ''TEST_DOWNLOAD_TOOL_RETRY_MAX_SECONDS'' 20) = Inr rh \<Longrightarrow>
      triple P (execute h rh (downloadToolAttempt h url dest a) (Some retryable_error)) Q E"
    and fail: "\<And>e w. P w \<Longrightarrow> E e w"
  shows "triple P (downloadTool h url d a) Q E"
proof -
  have keep: "triple P m (\<lambda>_. P) E" if "keeps P m" for m :: "'z action"
    by (rule triple_conseq [OF triple_inv [OF that]]) (simp_all add: fail)
  show ?thesis unfolding downloadTool_def
  proof (rule triple_bindE)
    show "triple P (dest_or_temp h d) (\<lambda>_. P) E" by (rule keep) (intro keeps_rules frame)
    fix dest
    have mk: "triple P (mkdirP h (h_dirname h dest)) (\<lambda>_. P) E"
      by (rule keep) (rule keeps_mkdirP [OF frame(2)])
    have dbg: "triple P (debug h m) (\<lambda>_. P) E" for m
      by (rule keep) (rule keeps_debug [OF frame(1)])
    let ?new = "new_RetryHelper 3 (getGlobal h ''TEST_DOWNLOAD_TOOL_RETRY_MIN_SECONDS'' 10)
               (getGlobal h ''TEST_DOWNLOAD_TOOL_RETRY_MAX_SECONDS'' 20)"
    have "triple P (bindE (liftE ?new)
          (\<lambda>rh. execute h rh (downloadToolAttempt h url dest a) (Some retryable_error))) Q E"
      by (cases ?new) (simp_all add: liftE_Inl liftE_Inr triple_throwE fail run)
    then show "triple P (thenE (mkdirP h (h_dirname h dest)) (thenE (debug h (''Downloading '' @ url))
       (thenE (debug h (''Destination '' @ dest))
       (bindE (liftE (new_RetryHelper 3 (getGlobal h ''TEST_DOWNLOAD_TOOL_RETRY_MIN_SECONDS'' 10)
               (getGlobal h ''TEST_DOWNLOAD_TOOL_RETRY_MAX_SECONDS'' 20)))
          (\<lambda>rh. execute h rh (downloadToolAttempt h url dest a) (Some retryable_error)))))) Q E"
      by (rule triple_thenE [OF mk triple_thenE [OF dbg triple_thenE [OF dbg]]])
  qed
qed

lemma downloadTool_Inr:
  assumes "downloadTool h url d a w = (Inr p, w')"
  shows "downloaded h p w'"
proof -
  have "triple (\<lambda>_. True) (downloadTool h url d a) (\<lambda>p w. downloaded h p w) (\<lambda>_ _. True)"
  proof (rule downloadTool_triple)
    fix dest rh
    assume rh: "new_RetryHelper 3 (getGlobal h ''TEST_DOWNLOAD_TOOL_RETRY_MIN_SECONDS'' 10)
        (getGlobal h ''TEST_DOWNLOAD_TOOL_RETRY_MAX_SECONDS'' 20) = Inr rh"
    show "triple (\<lambda>_. True) (execute h rh (downloadToolAttempt h url dest a) (Some retryable_error))
      (\<lambda>p w. downloaded h p w) (\<lambda>_ _. True)"
      by (rule execute_triple [OF rh, where I = "\<lambda>_ _. True" and J = "\<lambda>_ _ _. True"])
        (auto simp: triple_def split: sum.splits dest: attempt_Inr)
  qed simp_all
  from tripleD_Inr [OF this _ assms] show ?thesis by simp
qed

lemma downloadTool_secure:
  assumes "\<And>u. h_url h url = Some u \<Longrightarrow> u_protocol u = ''https:''"
  shows "triple (sent n secure_request) (downloadTool h url d a)
    (\<lambda>_. sent n secure_request) (\<lambda>_. sent n secure_request)"
proof (rule downloadTool_triple)
  fix dest rh
  assume rh: "new_RetryHelper 3 (getGlobal h ''TEST_DOWNLOAD_TOOL_RETRY_MIN_SECONDS'' 10)
        (getGlobal h ''TEST_DOWNLOAD_TOOL_RETRY_MAX_SECONDS'' 20) = Inr rh"
  show "triple (sent n secure_request) (execute h rh (downloadToolAttempt h url dest a) (Some retryable_error))
      (\<lambda>_. sent n secure_request) (\<lambda>_. sent n secure_request)"
    by (rule execute_triple [OF rh, where I = "\<lambda>_. sent n secure_request" and J = "\<lambda>_ _. sent n secure_request"])
      (use attempt_secure [OF assms] in \<open>auto simp: sent_def\<close>)
qed (auto simp: sent_def)

text \<open>At most three attempts of at most 51 requests; at most two waits, within the bounds of the helper.\<close>

definition download_cost :: "nat \<Rightarrow> nat list \<Rightarrow> nat \<Rightarrow> nat \<Rightarrow> nat \<Rightarrow> world \<Rightarrow> bool" where
  "download_cost n s lo hi k w \<longleftrightarrow> length (w_reqs w) \<le> n + 51 * k \<and>
     (\<exists>ts. w_sleeps w = s @ ts \<and> length ts \<le> k - 1 \<and> (\<forall>t\<in>set ts. lo * 1000 \<le> t \<and> t \<le> hi * 1000))"

lemma downloadTool_cost:
  assumes lo: "lo = getGlobal h ''TEST_DOWNLOAD_TOOL_RETRY_MIN_SECONDS'' 10"
    and hi: "hi = getGlobal h ''TEST_DOWNLOAD_TOOL_RETRY_MAX_SECONDS'' 20"
  shows "triple (\<lambda>w. length (w_reqs w) \<le> n \<and> w_sleeps w = s) (downloadTool h url d a)
    (\<lambda>_. download_cost n s lo hi 3) (\<lambda>_. download_cost n s lo hi 3)"
proof (rule downloadTool_triple)
  let ?I = "\<lambda>i (w :: world). length (w_reqs w) \<le> n + 51 * i \<and> (\<exists>ts. w_sleeps w = s @ ts \<and> length ts = i \<and>
      (\<forall>t\<in>set ts. lo * 1000 \<le> t \<and> t \<le> hi * 1000))"
  fix dest rh
  assume rh: "new_RetryHelper 3 (getGlobal h ''TEST_DOWNLOAD_TOOL_RETRY_MIN_SECONDS'' 10)
        (getGlobal h ''TEST_DOWNLOAD_TOOL_RETRY_MAX_SECONDS'' 20) = Inr rh"
  have "triple (?I 0) (execute h rh (downloadToolAttempt h url dest a) (Some retryable_error))
      (\<lambda>_. download_cost n s lo hi 3) (\<lambda>_. download_cost n s lo hi 3)"
  proof (rule execute_triple [OF rh, where I = ?I and J = "\<lambda>i e. \<lambda>w. length (w_reqs w) \<le> n + 51 * Suc i \<and> ?I i (w\<lparr>w_reqs := []\<rparr>)"])
    fix i :: nat assume i: "i < 3"
    show "triple (?I i) (downloadToolAttempt h url dest a) (\<lambda>_. download_cost n s lo hi 3)
        (\<lambda>e w. length (w_reqs w) \<le> n + 51 * Suc i \<and> ?I i (w\<lparr>w_reqs := []\<rparr>))"
    proof (rule triple_whole)
      fix w assume w: "?I i w"
      obtain r w' where r: "downloadToolAttempt h url dest a w = (r, w')"
        by (cases "downloadToolAttempt h url dest a w")
      have "spent (n + 51 * i) (w_sleeps w) w" using w by (simp add: spent_def)
      with attempt_spent [of "n + 51 * i" "w_sleeps w" h url dest a] r
      have "spent (n + 51 * i + 51) (w_sleeps w) w'" by (cases r) (fastforce simp: triple_def)+
      then have *: "length (w_reqs w') \<le> n + 51 * Suc i" "w_sleeps w' = w_sleeps w" by (auto simp: spent_def)
      moreover have "length (w_reqs w') \<le> n + 51 * 3" using * i by auto
      ultimately show "case downloadToolAttempt h url dest a w of
          (Inl e, w') \<Rightarrow> length (w_reqs w') \<le> n + 51 * Suc i \<and> ?I i (w'\<lparr>w_reqs := []\<rparr>)
        | (Inr x, w') \<Rightarrow> download_cost n s lo hi 3 w'"
        using w i r by (cases r) (auto simp: download_cost_def)
    qed
  next
    fix i e out k t and w :: world
    assume "Suc i < 3" and J: "length (w_reqs w) \<le> n + 51 * Suc i \<and> ?I i (w\<lparr>w_reqs := []\<rparr>)"
      and t: "getGlobal h ''TEST_DOWNLOAD_TOOL_RETRY_MIN_SECONDS'' 10 \<le> t"
        "t \<le> getGlobal h ''TEST_DOWNLOAD_TOOL_RETRY_MAX_SECONDS'' 20"
    from J obtain ts where ts: "w_sleeps w = s @ ts" "length ts = i"
      "\<forall>t\<in>set ts. lo * 1000 \<le> t \<and> t \<le> hi * 1000" by auto
    show "?I (Suc i) (w\<lparr>w_rands := k, w_out := out, w_sleeps := w_sleeps w @ [t * 1000]\<rparr>)"
      using J ts t lo hi by (auto intro!: exI [of _ "ts @ [t * 1000]"])
  next
    fix i e and w :: world
    assume "i < 3" and J: "length (w_reqs w) \<le> n + 51 * Suc i \<and> ?I i (w\<lparr>w_reqs := []\<rparr>)"
    then have "length (w_reqs w) \<le> n + 51 * 3" by auto
    with J \<open>i < 3\<close> show "download_cost n s lo hi 3 w" by (auto simp: download_cost_def)
  qed
  then show "triple (\<lambda>w. length (w_reqs w) \<le> n \<and> w_sleeps w = s)
      (execute h rh (downloadToolAttempt h url dest a) (Some retryable_error))
      (\<lambda>_. download_cost n s lo hi 3) (\<lambda>_. download_cost n s lo hi 3)"
    by (rule triple_conseq) auto
qed (auto simp: download_cost_def)

section \<open>Cleaning up\<close>

text \<open>Where the system lets files be removed, an attempt that fails leaves nothing at its destination.\<close>

lemma rmRF_gone:
  assumes "\<not> is_windows h" and "\<And>fs. h_fail h ''rm'' d fs = None"
  shows "\<exists>w'. rmRF h d w = (Inr (), w') \<and> w_fs w' d = None"
  using assms by (simp add: rmRF_def catchE_def fs_rm_def thenE_def bindE_def fs_check_def)

lemma cleanup_download_gone:
  assumes "\<not> is_windows h" and "\<And>fs. h_fail h ''rm'' d fs = None"
  shows "\<exists>w'. cleanup_download h d w = (Inr (), w') \<and> w_fs w' d = None"
proof -
  obtain w1 where w1: "debug h ''download failed'' w = (Inr (), w1)" by (simp add: debug_apply)
  from rmRF_gone [OF assms] obtain w2 where "rmRF h d w1 = (Inr (), w2)" "w_fs w2 d = None" by blast
  with w1 show ?thesis by (simp add: cleanup_download_def thenE_def bindE_def catchE_def)
qed

lemma triple_true: "triple P m (\<lambda>_ _. True) (\<lambda>_ _. True)"
  by (auto simp: triple_def split: sum.splits prod.splits)

lemma save_response_gone:
  assumes "\<not> is_windows h" and "\<And>fs. h_fail h ''rm'' d fs = None"
  shows "triple (\<lambda>w. w_fs w d = None) (save_response h url d r) (\<lambda>_ _. True)
    (\<lambda>e w. e = Pending \<or> w_fs w d = None)"
proof (cases "rs_status r = 200")
  case True
  have "triple (\<lambda>_. True) (thenE (cleanup_download h d) (throwE err)) (\<lambda>_ _. True)
      (\<lambda>e w. e = Pending \<or> w_fs w d = None)" for err
  proof (rule triple_whole)
    fix w :: world
    from cleanup_download_gone [OF assms, of w]
    show "case thenE (cleanup_download h d) (throwE err) w of
        (Inl e, w') \<Rightarrow> e = Pending \<or> w_fs w' d = None | (Inr x, w') \<Rightarrow> True"
      by (auto simp: thenE_def bindE_def)
  qed
  then have "triple (\<lambda>w. w_fs w d = None)
      (catchE (thenE (pipeline_to h r d) (thenE (debug h ''download complete'') (retE d)))
        (\<lambda>err. thenE (cleanup_download h d) (throwE err))) (\<lambda>_ _. True) (\<lambda>e w. e = Pending \<or> w_fs w d = None)"
    by (rule triple_catchE [OF triple_true]) simp_all
  then show ?thesis using True by (simp add: save_response_def)
next
  case False
  then show ?thesis by (simp add: save_response_def triple_def thenE_def bindE_def debug_apply)
qed

lemma attempt_gone:
  assumes "\<not> is_windows h" and "\<And>fs. h_fail h ''rm'' d fs = None"
  shows "triple (\<lambda>w. w_fs w d = None) (downloadToolAttempt h url d a) (\<lambda>_ _. True)
    (\<lambda>e w. e = Pending \<or> w_fs w d = None)"
proof -
  let ?P = "\<lambda>w. w_fs w d = None" and ?E = "\<lambda>e w. e = Pending \<or> w_fs w d = None"
  have hs: "triple ?P (auth_headers h a) (\<lambda>_. ?P) ?E"
    by (rule triple_conseq [OF triple_inv [OF keeps_auth_headers, of ?P]]) auto
  have get: "triple ?P (http_get h (download_client w) url hds) (\<lambda>_. ?P) ?E" for w hds
    by (rule triple_conseq [OF triple_inv [OF keeps_http_get, of _ ?P]]) auto
  have client: "triple ?P (getE download_client) (\<lambda>c w. hc_handlers c = [] \<and> ?P w \<and> (\<exists>w0. c = download_client w0)) ?E"
    by (auto simp: triple_def)
  have rest: "triple (\<lambda>w. hc_handlers c = [] \<and> ?P w \<and> (\<exists>w0. c = download_client w0))
      (bindE (auth_headers h a) (\<lambda>headers. bindE (http_get h c url headers)
        (\<lambda>x. save_response h url d (fst x)))) (\<lambda>_ _. True) ?E" for c
  proof (cases "\<exists>w0. c = download_client w0")
    case True
    then obtain w0 where c: "c = download_client w0" by blast
    have "triple ?P (bindE (auth_headers h a) (\<lambda>headers. bindE (http_get h c url headers)
        (\<lambda>x. save_response h url d (fst x)))) (\<lambda>_ _. True) ?E"
      unfolding c by (rule triple_bindE [OF hs triple_bindE [OF get save_response_gone [OF assms]]])
    then show ?thesis by (rule triple_conseq) simp_all
  qed (auto simp: triple_def)
  have "triple ?P (throwE e) (\<lambda>_ _. True) ?E" for e by (simp add: triple_def)
  with triple_bindE [OF client rest] show ?thesis
    unfolding downloadToolAttempt_def
    by (intro triple_bindE [where R = "\<lambda>_. ?P"]) (simp_all add: triple_getE triple_throwE)
qed

section \<open>The first attempt\<close>

text \<open>What precedes the attempts: the destination, its directory and two debug messages.\<close>

definition attempt_start :: "host \<Rightarrow> string \<Rightarrow> string option \<Rightarrow> string action" where
  "attempt_start h url d =
     bindE (dest_or_temp h d) (\<lambda>dest.
     thenE (mkdirP h (h_dirname h dest))
     (thenE (debug h (''Downloading '' @ url))
     (thenE (debug h (''Destination '' @ dest)) (retE dest))))"

lemma downloadTool_start:
  "downloadTool h url d a =
     bindE (attempt_start h url d) (\<lambda>dest.
       bindE (liftE (new_RetryHelper 3
               (getGlobal h ''TEST_DOWNLOAD_TOOL_RETRY_MIN_SECONDS'' 10)
               (getGlobal h ''TEST_DOWNLOAD_TOOL_RETRY_MAX_SECONDS'' 20)))
         (\<lambda>rh. execute h rh (downloadToolAttempt h url dest a) (Some retryable_error)))"
  by (simp add: downloadTool_def attempt_start_def thenE_def bindE_assoc)

text \<open>An attempt that succeeds, or fails for good, is the only one.\<close>

definition settled :: "(exn \<Rightarrow> bool) option \<Rightarrow> 'a res \<Rightarrow> bool" where
  "settled isRetryable r \<longleftrightarrow> (case r of Inr x \<Rightarrow> True
     | Inl e \<Rightarrow> e = Pending \<or> (case isRetryable of None \<Rightarrow> False | Some f \<Rightarrow> \<not> f e))"

lemma execute_loop_settled:
  assumes "act w = (r, w')" and "settled isR r"
  shows "execute_loop h rh act isR n w = (r, w')"
  using assms
  by (cases n; cases r) (auto simp: settled_def bindE_def catchE_def split: option.splits)

lemma downloadTool_settled:
  assumes start: "attempt_start h url d w = (Inr dest, w1)"
    and attempt: "downloadToolAttempt h url dest a w1 = (r, w2)"
    and settled: "settled (Some retryable_error) r"
    and seconds: "getGlobal h ''TEST_DOWNLOAD_TOOL_RETRY_MIN_SECONDS'' 10
      \<le> getGlobal h ''TEST_DOWNLOAD_TOOL_RETRY_MAX_SECONDS'' 20"
  shows "downloadTool h url d a w = (r, w2)"
proof -
  obtain rh where "new_RetryHelper 3 (getGlobal h ''TEST_DOWNLOAD_TOOL_RETRY_MIN_SECONDS'' 10)
      (getGlobal h ''TEST_DOWNLOAD_TOOL_RETRY_MAX_SECONDS'' 20) = Inr rh"
    using seconds by (auto simp: new_RetryHelper_def)
  with execute_loop_settled [of "downloadToolAttempt h url dest a" w1, OF attempt settled] start show ?thesis
    by (simp add: downloadTool_start bindE_def [of "attempt_start _ _ _"] bindE_def [of "liftE _"] execute_def)
qed

section \<open>Properties\<close>

text \<open>
  C5: a path \<open>downloadTool\<close> returns holds a complete download: the file's contents are the whole body
  of the server's answer to the last request sent, that answer had status 200, and its body ended
  without an error.
\<close>

theorem download_is_complete:
  assumes "downloadTool h url d a w = (Inr p, w')"
  shows "\<exists>resp path. w_reqs w' \<noteq> [] \<and> first_result path (h_http h (w_reqs w')) = Inr resp \<and>
     rs_status resp = 200 \<and> rs_end resp = BodyEnd \<and>
     w_fs w' p = Some (File (concat (rs_chunks resp)) 438 0 0)"
  using downloadTool_Inr [OF assms] by (simp add: downloaded_def)

text \<open>A download on the concrete machine, and one that is refused.\<close>

definition demo_dl :: "string \<Rightarrow> string res \<times> world" where
  "demo_dl url = downloadToolAttempt demo_host url ''/tmp/id0'' None (snd (attempt_start demo_host url None good_world))"

lemma demo_dl_run:
  assumes "fst (demo_dl url) = r" and "settled (Some retryable_error) r"
    and "fst (attempt_start demo_host url None good_world) = Inr ''/tmp/id0''"
  shows "downloadTool demo_host url None None good_world = (r, snd (demo_dl url))"
  by (rule downloadTool_settled [where dest = "''/tmp/id0''" and ?w1.0 = "snd (attempt_start demo_host url None good_world)"])
    (use assms in \<open>auto simp: demo_dl_def prod_eq_iff getGlobal_def demo_host_def\<close>)

lemma demo_dl_good: "downloadTool demo_host ''https://oras.test/moved'' None None good_world =
    (Inr ''/tmp/id0'', snd (demo_dl ''https://oras.test/moved''))"
  by (rule demo_dl_run, code_simp, simp add: settled_def, code_simp)

lemma demo_dl_missing: "downloadTool demo_host ''https://oras.test/none'' None None good_world =
    (Inl (HTTPError 404), snd (demo_dl ''https://oras.test/none''))"
  by (rule demo_dl_run, code_simp, simp add: settled_def, code_simp)

theorem download_is_complete_witness:
  "\<exists>resp path. first_result path (demo_http (w_reqs (snd (demo_dl ''https://oras.test/moved'')))) = Inr resp \<and>
     rs_status resp = 200 \<and>
     w_fs (snd (demo_dl ''https://oras.test/moved'')) ''/tmp/id0'' = Some (File (concat (rs_chunks resp)) 438 0 0)"
  using download_is_complete [OF demo_dl_good] by (auto simp: demo_host_def)



text \<open>
  A failed attempt leaves no partial file behind at its destination, where removing a file cannot
  fail; an attempt that never ends is the only exception.
\<close>

theorem failed_attempt_leaves_no_file:
  assumes "downloadToolAttempt h url d a w = (Inl e, w')" and "e \<noteq> Pending" and "w_fs w d = None"
    and "\<not> is_windows h" and "\<And>fs. h_fail h ''rm'' d fs = None"
  shows "w_fs w' d = None"
  using tripleD_Inl [OF attempt_gone [OF assms(4,5)] _ assms(1)] assms(2,3) by simp

theorem failed_attempt_leaves_no_file_witness:
  "w_fs (snd (demo_dl ''https://oras.test/none'')) ''/tmp/id0'' = None"
proof (rule failed_attempt_leaves_no_file)
  have "fst (demo_dl ''https://oras.test/none'') = Inl (HTTPError 404)" by code_simp
  then show "downloadToolAttempt demo_host ''https://oras.test/none'' ''/tmp/id0'' None
      (snd (attempt_start demo_host ''https://oras.test/none'' None good_world)) =
      (Inl (HTTPError 404), snd (demo_dl ''https://oras.test/none''))"
    by (simp add: demo_dl_def prod_eq_iff)
  show "w_fs (snd (attempt_start demo_host ''https://oras.test/none'' None good_world)) ''/tmp/id0'' = None"
    by code_simp
qed (simp_all add: is_windows_def demo_host_def)

text \<open>
  A client error other than 408 and 429 is final: when the first attempt ends with such a status,
  \<open>downloadTool\<close> rejects with it at once, without a wait and without another request.
\<close>

theorem client_error_is_final:
  assumes "attempt_start h url d w = (Inr dest, w1)"
    and "downloadToolAttempt h url dest a w1 = (Inl (HTTPError n), w2)"
    and "0 < n" and "n < 500" and "n \<noteq> 408" and "n \<noteq> 429"
    and "getGlobal h ''TEST_DOWNLOAD_TOOL_RETRY_MIN_SECONDS'' 10
      \<le> getGlobal h ''TEST_DOWNLOAD_TOOL_RETRY_MAX_SECONDS'' 20"
  shows "downloadTool h url d a w = (Inl (HTTPError n), w2)"
  by (rule downloadTool_settled [OF assms(1,2) _ assms(7)]) (use assms(3-6) in \<open>simp add: settled_def\<close>)

theorem client_error_is_final_witness:
  "fst (downloadTool demo_host ''https://oras.test/none'' None None good_world) = Inl (HTTPError 404)"
proof -
  let ?u = "''https://oras.test/none''"
  have "fst (attempt_start demo_host ?u None good_world) = Inr ''/tmp/id0''"
    "fst (demo_dl ?u) = Inl (HTTPError 404)" by code_simp+
  then have "attempt_start demo_host ?u None good_world = (Inr ''/tmp/id0'', snd (attempt_start demo_host ?u None good_world))"
    "downloadToolAttempt demo_host ?u ''/tmp/id0'' None (snd (attempt_start demo_host ?u None good_world)) =
      (Inl (HTTPError 404), snd (demo_dl ?u))"
    by (simp_all add: demo_dl_def prod_eq_iff)
  from client_error_is_final [OF this] show ?thesis by (simp add: getGlobal_def demo_host_def)
qed

end
