(* ===== verification/Releases.thy ===== *)
theory Releases
  imports Json
begin

text \<open>
  The table of official ORAS CLI releases, \<open>src/lib/data/releases.json\<close> as it is bundled into
  \<open>dist/index.js\<close>: version, platform and architecture to the SHA-256 checksum and the download URL.
  One definition per version, entries in the file's order.

  \<open>wf_releases\<close> states what a downloaded tool is trusted for: each checksum is a lower-case SHA-256
  digest and each URL is the GitHub release asset of exactly that version, platform and
  architecture, a zip archive on Windows and a gzipped tar archive elsewhere.
\<close>

record release =
  rel_checksum :: string
  rel_url :: string

type_synonym archs = "(string \<times> release) list"
type_synonym platforms = "(string \<times> archs) list"
type_synonym releases = "(string \<times> platforms) list"

definition releases_1_0_0 :: platforms where
  "releases_1_0_0 =
     [(''darwin'',
        [(''amd64'', \<lparr>rel_checksum = ''3bce1a83fb518c7bc0afac685601835e5234daa88b3074aafecf768ec80229fe'',
         rel_url = ''https://github.com/oras-project/oras/releases/download/v1.0.0/oras_1.0.0_darwin_amd64.tar.gz''\<rparr>),
         (''arm64'', \<lparr>rel_checksum = ''0168a0b8289c202b9dcd57fb4fa3638610245fd5574032e18b1196a20e4100d1'',
         rel_url = ''https://github.com/oras-project/oras/releases/download/v1.0.0/oras_1.0.0_darwin_arm64.tar.gz''\<rparr>)]),
      (''linux'',
        [(''amd64'', \<lparr>rel_checksum = ''8533c9ea1e5a0d5eb1dfc5094c0e8ef106d15462f8a119077548f88937ed2133'',
         rel_url = ''https://github.com/oras-project/oras/releases/download/v1.0.0/oras_1.0.0_linux_amd64.tar.gz''\<rparr>),
         (''arm64'', \<lparr>rel_checksum = ''332ba74c043ed590ab0fb61656e6d274243e915cb150d48be4ad64ed591dcc84'',
         rel_url = ''https://github.com/oras-project/oras/releases/download/v1.0.0/oras_1.0.0_linux_arm64.tar.gz''\<rparr>),
         (''armv7'', \<lparr>rel_checksum = ''c626893bed0aa26eb37113e11c1bc34552fa213f26af85ef14100a366e6c7c06'',
         rel_url = ''https://github.com/oras-project/oras/releases/download/v1.0.0/oras_1.0.0_linux_armv7.tar.gz''\<rparr>),
         (''s390x'', \<lparr>rel_checksum = ''2339f972cbbaa7dc4fed0795c2c37a6124ee524c6e0ed62919c3a0097dd57442'',
         rel_url = ''https://github.com/oras-project/oras/releases/download/v1.0.0/oras_1.0.0_linux_s390x.tar.gz''\<rparr>)]),
      (''windows'',
        [(''amd64'', \<lparr>rel_checksum = ''e47e91fbc72cfe4e5c89321ebc5af953bcafa8a9ecdb0b4fbd53fd136578e03e'',
         rel_url = ''https://github.com/oras-project/oras/releases/download/v1.0.0/oras_1.0.0_windows_amd64.zip''\<rparr>)])]"

definition releases_1_0_1 :: platforms where
  "releases_1_0_1 =
     [(''darwin'',
        [(''amd64'', \<lparr>rel_checksum = ''34f11536dc191f9ad4288649f97ef69b478548f891c932c9732307f064ed3331'',
         rel_url = ''https://github.com/oras-project/oras/releases/download/v1.0.1/oras_1.0.1_darwin_amd64.tar.gz''\<rparr>),
         (''arm64'', \<lparr>rel_checksum = ''faa0181799f0e0295d7df188441a1f8869da78a50da4cf7fb03cf35dc746b178'',
         rel_url = ''https://github.com/oras-project/oras/releases/download/v1.0.1/oras_1.0.1_darwin_arm64.tar.gz''\<rparr>)]),
      (''linux'',
        [(''amd64'', \<lparr>rel_checksum = ''6b51b87360d373dd3c19b91d2627d2efd320513380a878b6f06702f72fe8c5ab'',
         rel_url = ''https://github.com/oras-project/oras/releases/download/v1.0.1/oras_1.0.1_linux_amd64.tar.gz''\<rparr>),
         (''arm64'', \<lparr>rel_checksum = ''ae1884ae17b7ae7ce694c63d51a52ab0dac1f2c0ca384163455c1e96c5663db0'',
         rel_url = ''https://github.com/oras-project/oras/releases/download/v1.0.1/oras_1.0.1_linux_arm64.tar.gz''\<rparr>),
         (''armv7'', \<lparr>rel_checksum = ''f31bc8eab3ed2f368056df3eb5761f40d90dfbd8272bec58d83961f41ebbf3fb'',
         rel_url = ''https://github.com/oras-project/oras/releases/download/v1.0.1/oras_1.0.1_linux_armv7.tar.gz''\<rparr>),
         (''s390x'', \<lparr>rel_checksum = ''2a63313a99dd45c448c022a303941e1f5b47b8fdf3493c593b026de384a284b6'',
         rel_url = ''https://github.com/oras-project/oras/releases/download/v1.0.1/oras_1.0.1_linux_s390x.tar.gz''\<rparr>)]),
      (''windows'',
        [(''amd64'', \<lparr>rel_checksum = ''0b9c50eda7aa384d435b31710264d08c77a5e83ee6560ee6e13ca46a6acec1ba'',
         rel_url = ''https://github.com/oras-project/oras/releases/download/v1.0.1/oras_1.0.1_windows_amd64.zip''\<rparr>)])]"

definition releases_1_1_0 :: platforms where
  "releases_1_1_0 =
     [(''darwin'',
        [(''amd64'', \<lparr>rel_checksum = ''f8ac5dea53dd9331cf080f1025f0612e7b07c5af864a4fd609f97d8946508e45'',
         rel_url = ''https://github.com/oras-project/oras/releases/download/v1.1.0/oras_1.1.0_darwin_amd64.tar.gz''\<rparr>),
         (''arm64'', \<lparr>rel_checksum = ''d52d3140b0bb9f7d7e31dcbf2a513f971413769c11f7d7a5599e76cc98e45007'',
         rel_url = ''https://github.com/oras-project/oras/releases/download/v1.1.0/oras_1.1.0_darwin_arm64.tar.gz''\<rparr>)]),
      (''linux'',
        [(''amd64'', \<lparr>rel_checksum = ''e09e85323b24ccc8209a1506f142e3d481e6e809018537c6b3db979c891e6ad7'',
         rel_url = ''https://github.com/oras-project/oras/releases/download/v1.1.0/oras_1.1.0_linux_amd64.tar.gz''\<rparr>),
         (''arm64'', \<lparr>rel_checksum = ''e450b081f67f6fda2f16b7046075c67c9a53f3fda92fd20ecc59873b10477ab4'',
         rel_url = ''https://github.com/oras-project/oras/releases/download/v1.1.0/oras_1.1.0_linux_arm64.tar.gz''\<rparr>),
         (''armv7'', \<lparr>rel_checksum = ''def86e7f787f8deee50bb57d1c155201099f36aa0c6700d3b525e69ddf8ae49b'',
         rel_url = ''https://github.com/oras-project/oras/releases/download/v1.1.0/oras_1.1.0_linux_armv7.tar.gz''\<rparr>),
         (''s390x'', \<lparr>rel_checksum = ''067600d61d5d7c23f7bd184cff168ad558d48bed99f6735615bce0e1068b1d77'',
         rel_url = ''https://github.com/oras-project/oras/releases/download/v1.1.0/oras_1.1.0_linux_s390x.tar.gz''\<rparr>)]),
      (''windows'',
        [(''amd64'', \<lparr>rel_checksum = ''2ac83631181d888445e50784a5f760f7f9d97fba3c089e79b68580c496fe68cf'',
         rel_url = ''https://github.com/oras-project/oras/releases/download/v1.1.0/oras_1.1.0_windows_amd64.zip''\<rparr>)])]"

definition releases_1_2_0 :: platforms where
  "releases_1_2_0 =
     [(''darwin'',
        [(''amd64'', \<lparr>rel_checksum = ''58a8494f5bce778e21d89d90c82e05bd128e7bb9d84dd190d154f8afdbf30541'',
         rel_url = ''https://github.com/oras-project/oras/releases/download/v1.2.0/oras_1.2.0_darwin_amd64.tar.gz''\<rparr>),
         (''arm64'', \<lparr>rel_checksum = ''fea801b0e02c5342e749ef2860e1faebae03e93ae50e33ed40d227e089cf9435'',
         rel_url = ''https://github.com/oras-project/oras/releases/download/v1.2.0/oras_1.2.0_darwin_arm64.tar.gz''\<rparr>)]),
      (''freebsd'',
        [(''amd64'', \<lparr>rel_checksum = ''73d3a292dce1f0985df084ff50b38ab2deacbcb01902ceebc008d5bea2f2dee9'',
         rel_url = ''https://github.com/oras-project/oras/releases/download/v1.2.0/oras_1.2.0_freebsd_amd64.tar.gz''\<rparr>)]),
      (''linux'',
        [(''amd64'', \<lparr>rel_checksum = ''5b3f1cbb86d869eee68120b9b45b9be983f3738442f87ee5f06b00edd0bab336'',
         rel_url = ''https://github.com/oras-project/oras/releases/download/v1.2.0/oras_1.2.0_linux_amd64.tar.gz''\<rparr>),
         (''arm64'', \<lparr>rel_checksum = ''27df680a39fc2fcedc549cb737891623bc696c9a92a03fd341e9356a35836bae'',
         rel_url = ''https://github.com/oras-project/oras/releases/download/v1.2.0/oras_1.2.0_linux_arm64.tar.gz''\<rparr>),
         (''armv7'', \<lparr>rel_checksum = ''054685703cb0c66e51f8143e3bbd3976e217d3d595f0593db43b6dd451e43329'',
         rel_url = ''https://github.com/oras-project/oras/releases/download/v1.2.0/oras_1.2.0_linux_armv7.tar.gz''\<rparr>),
         (''ppc64le'', \<lparr>rel_checksum = ''af5ee50434c7263b1460978af83e7690570e8999678fae9db6c5dbb38467fed5'',
         rel_url = ''https://github.com/oras-project/oras/releases/download/v1.2.0/oras_1.2.0_linux_ppc64le.tar.gz''\<rparr>),
         (''riscv64'', \<lparr>rel_checksum = ''42c7e5f35b72492dd3ee7c68edad0c0da939b39e6ead7f682329015b283e96f8'',
         rel_url = ''https://github.com/oras-project/oras/releases/download/v1.2.0/oras_1.2.0_linux_riscv64.tar.gz''\<rparr>),
         (''s390x'', \<lparr>rel_checksum = ''69d2e842e592f4d990b33d58ff3c298c4e4c0921dd54ad9e65e3b6dd9427a750'',
         rel_url = ''https://github.com/oras-project/oras/releases/download/v1.2.0/oras_1.2.0_linux_s390x.tar.gz''\<rparr>)]),
      (''windows'',
        [(''amd64'', \<lparr>rel_checksum = ''f110b42a20bd4728fb0428d36ee6ed10de58cd986bba8e95ecc4f0272cb017ba'',
         rel_url = ''https://github.com/oras-project/oras/releases/download/v1.2.0/oras_1.2.0_windows_amd64.zip''\<rparr>)])]"

definition releases_1_2_1 :: platforms where
  "releases_1_2_1 =
     [(''darwin'',
        [(''amd64'', \<lparr>rel_checksum = ''54095db9a4cb0f37bf7ac5afbed0ff167215195ad07b6d9318b69c5a8944b19d'',
         rel_url = ''https://github.com/oras-project/oras/releases/download/v1.2.1/oras_1.2.1_darwin_amd64.tar.gz''\<rparr>),
         (''arm64'', \<lparr>rel_checksum = ''e3489c1946cb98c21992e09f2ec37974ad3856bb88b798682975fce7960f08fe'',
         rel_url = ''https://github.com/oras-project/oras/releases/download/v1.2.1/oras_1.2.1_darwin_arm64.tar.gz''\<rparr>)]),
      (''freebsd'',
        [(''amd64'', \<lparr>rel_checksum = ''778f92a8d678b45a3fc70234573cf6b48f50744111f2c4c615fd9962b41481e7'',
         rel_url = ''https://github.com/oras-project/oras/releases/download/v1.2.1/oras_1.2.1_freebsd_amd64.tar.gz''\<rparr>)]),
      (''linux'',
        [(''amd64'', \<lparr>rel_checksum = ''4180b940409ab801ada54cdb793dd7372be2a5cb25b6522490409d5d4b0e3dde'',
         rel_url = ''https://github.com/oras-project/oras/releases/download/v1.2.1/oras_1.2.1_linux_amd64.tar.gz''\<rparr>),
         (''arm64'', \<lparr>rel_checksum = ''65f9197e9eacda769b1f2f447e2c4004a8f3f772855c2c987d5111e8302cbbed'',
         rel_url = ''https://github.com/oras-project/oras/releases/download/v1.2.1/oras_1.2.1_linux_arm64.tar.gz''\<rparr>),
         (''armv7'', \<lparr>rel_checksum = ''fe833e216c72f98d1426da3b0dd136328a578c92a6cd10987374bc5680c0a0a4'',
         rel_url = ''https://github.com/oras-project/oras/releases/download/v1.2.1/oras_1.2.1_linux_armv7.tar.gz''\<rparr>),
         (''ppc64le'', \<lparr>rel_checksum = ''cbfc9b4c847becb0dc5b6f30b3bf55884a1090f5deb6894ba5183f6e916e17e2'',
         rel_url = ''https://github.com/oras-project/oras/releases/download/v1.2.1/oras_1.2.1_linux_ppc64le.tar.gz''\<rparr>),
         (''riscv64'', \<lparr>rel_checksum = ''960067eaf16034eb8ac2f843775e53bae37b7585d55132e283fb3402a3cea68a'',
         rel_url = ''https://github.com/oras-project/oras/releases/download/v1.2.1/oras_1.2.1_linux_riscv64.tar.gz''\<rparr>),
         (''s390x'', \<lparr>rel_checksum = ''dc3b6a4c3290c60de8c57ff63fef7a5689cd8e2df39026f2937cc25fd95dfbc4'',
         rel_url = ''https://github.com/oras-project/oras/releases/download/v1.2.1/oras_1.2.1_linux_s390x.tar.gz''\<rparr>)]),
      (''windows'',
        [(''amd64'', \<lparr>rel_checksum = ''e072dac29eb4a4b62520b52193e028420c159e5ec192f28bfebfb11f81c7d6d8'',
         rel_url = ''https://github.com/oras-project/oras/releases/download/v1.2.1/oras_1.2.1_windows_amd64.zip''\<rparr>)])]"

definition releases_1_2_2 :: platforms where
  "releases_1_2_2 =
     [(''darwin'',
        [(''amd64'', \<lparr>rel_checksum = ''e953c3c5580a317ba30871ee77f39a37e5bcb030edf01c5e9a83ebddcec7cf8a'',
         rel_url = ''https://github.com/oras-project/oras/releases/download/v1.2.2/oras_1.2.2_darwin_amd64.tar.gz''\<rparr>),
         (''arm64'', \<lparr>rel_checksum = ''fcac22adaf1cfe7854738859d0f4705d1cd75a23edaef5ee2e9aba66cfff2315'',
         rel_url = ''https://github.com/oras-project/oras/releases/download/v1.2.2/oras_1.2.2_darwin_arm64.tar.gz''\<rparr>)]),
      (''freebsd'',
        [(''amd64'', \<lparr>rel_checksum = ''a0570a5119cb054f6d3716dd9771a2216e15bc38953293be4703059cada113e3'',
         rel_url = ''https://github.com/oras-project/oras/releases/download/v1.2.2/oras_1.2.2_freebsd_amd64.tar.gz''\<rparr>)]),
      (''linux'',
        [(''amd64'', \<lparr>rel_checksum = ''bff970346470e5ef888e9f2c0bf7f8ee47283f5a45207d6e7a037da1fb0eae0d'',
         rel_url = ''https://github.com/oras-project/oras/releases/download/v1.2.2/oras_1.2.2_linux_amd64.tar.gz''\<rparr>),
         (''arm64'', \<lparr>rel_checksum = ''edd7195cbb8ba56c29ede413eefa10c8026201d63326017cd315841b4063aa56'',
         rel_url = ''https://github.com/oras-project/oras/releases/download/v1.2.2/oras_1.2.2_linux_arm64.tar.gz''\<rparr>),
         (''armv7'', \<lparr>rel_checksum = ''df2e87741cdb703f77930a10202d4425775e69c6b925ce0cab3a2a992fa6a446'',
         rel_url = ''https://github.com/oras-project/oras/releases/download/v1.2.2/oras_1.2.2_linux_armv7.tar.gz''\<rparr>),
         (''ppc64le'', \<lparr>rel_checksum = ''d7554f1d96061ba8c4ea8c930b01f7f47a336b20b52ac442f5dbcab88c3793cf'',
         rel_url = ''https://github.com/oras-project/oras/releases/download/v1.2.2/oras_1.2.2_linux_ppc64le.tar.gz''\<rparr>),
         (''riscv64'', \<lparr>rel_checksum = ''dbebe747bb5f9c8382d7cdd2fb81edf48aa5d03401364252172f32caddd449eb'',
         rel_url = ''https://github.com/oras-project/oras/releases/download/v1.2.2/oras_1.2.2_linux_riscv64.tar.gz''\<rparr>),
         (''s390x'', \<lparr>rel_checksum = ''9d72dcd93264729c9dbee91b6841fdfe1fa85ec6c9303108a889bdd6816383ee'',
         rel_url = ''https://github.com/oras-project/oras/releases/download/v1.2.2/oras_1.2.2_linux_s390x.tar.gz''\<rparr>)]),
      (''windows'',
        [(''amd64'', \<lparr>rel_checksum = ''25110d69d220bf55469a14c243f759305737dac6672fb47b4af4e43b000f55f5'',
         rel_url = ''https://github.com/oras-project/oras/releases/download/v1.2.2/oras_1.2.2_windows_amd64.zip''\<rparr>)])]"

definition releases_1_2_3 :: platforms where
  "releases_1_2_3 =
     [(''darwin'',
        [(''amd64'', \<lparr>rel_checksum = ''29d8b684dadd9b08614fe9023a5ac8ff0ef1bef1c9795ad8076e3215eb207724'',
         rel_url = ''https://github.com/oras-project/oras/releases/download/v1.2.3/oras_1.2.3_darwin_amd64.tar.gz''\<rparr>),
         (''arm64'', \<lparr>rel_checksum = ''ca4188a0c690536d34baf2a4c3507b3fcc11a06979aeec6da3560a0c4d944a6a'',
         rel_url = ''https://github.com/oras-project/oras/releases/download/v1.2.3/oras_1.2.3_darwin_arm64.tar.gz''\<rparr>)]),
      (''freebsd'',
        [(''amd64'', \<lparr>rel_checksum = ''0cd77c9340578e4ef86533d5603498fe006f6b962d619612d49769aa01fe90e3'',
         rel_url = ''https://github.com/oras-project/oras/releases/download/v1.2.3/oras_1.2.3_freebsd_amd64.tar.gz''\<rparr>)]),
      (''linux'',
        [(''amd64'', \<lparr>rel_checksum = ''b4efc97a91f471f323f193ea4b4d63d8ff443ca3aab514151a30751330852827'',
         rel_url = ''https://github.com/oras-project/oras/releases/download/v1.2.3/oras_1.2.3_linux_amd64.tar.gz''\<rparr>),
         (''arm64'', \<lparr>rel_checksum = ''90e24e234dc6dffe73365533db66fd14449d2c9ae77381081596bf92f40f6b82'',
         rel_url = ''https://github.com/oras-project/oras/releases/download/v1.2.3/oras_1.2.3_linux_arm64.tar.gz''\<rparr>),
         (''armv7'', \<lparr>rel_checksum = ''f5d32565d714fdddc4f06fd8c00e9cc5719398ccb918a5d64a54b5531da4f893'',
         rel_url = ''https://github.com/oras-project/oras/releases/download/v1.2.3/oras_1.2.3_linux_armv7.tar.gz''\<rparr>),
         (''ppc64le'', \<lparr>rel_checksum = ''6362e6df98961906c55fbbaf789610c575a8cd4c72a0e18a41561b36fd4352ef'',
         rel_url = ''https://github.com/oras-project/oras/releases/download/v1.2.3/oras_1.2.3_linux_ppc64le.tar.gz''\<rparr>),
         (''riscv64'', \<lparr>rel_checksum = ''a1f2a861b5e5e295925dcdeb226a3e097e92b48c87a00c5cbbdffc6288597b37'',
         rel_url = ''https://github.com/oras-project/oras/releases/download/v1.2.3/oras_1.2.3_linux_riscv64.tar.gz''\<rparr>),
         (''s390x'', \<lparr>rel_checksum = ''7993b9247c49e7aa3f107568c33c37d6bcae87018651a6def8278ea7c2c7a3a8'',
         rel_url = ''https://github.com/oras-project/oras/releases/download/v1.2.3/oras_1.2.3_linux_s390x.tar.gz''\<rparr>)]),
      (''windows'',
        [(''amd64'', \<lparr>rel_checksum = ''8fe890f5c6c89b06fb138839e533a112e0fc026a25b2c8c1b042b32455a56947'',
         rel_url = ''https://github.com/oras-project/oras/releases/download/v1.2.3/oras_1.2.3_windows_amd64.zip''\<rparr>)])]"

definition releases_1_3_0 :: platforms where
  "releases_1_3_0 =
     [(''darwin'',
        [(''amd64'', \<lparr>rel_checksum = ''82c33f7da8430ea7fa7e7bdf7721be0a0d0481e5ccb2472ea438490d5e8641a9'',
         rel_url = ''https://github.com/oras-project/oras/releases/download/v1.3.0/oras_1.3.0_darwin_amd64.tar.gz''\<rparr>),
         (''arm64'', \<lparr>rel_checksum = ''e10c6552c02d5a7c7eaf7170d3b6f7f094b675a98a1e0edf4d4478a909447245'',
         rel_url = ''https://github.com/oras-project/oras/releases/download/v1.3.0/oras_1.3.0_darwin_arm64.tar.gz''\<rparr>)]),
      (''freebsd'',
        [(''amd64'', \<lparr>rel_checksum = ''3e885e8c78d61cf9ab57597ebc1a5c7a985ca8578c3ed5a87842c5411610c7f5'',
         rel_url = ''https://github.com/oras-project/oras/releases/download/v1.3.0/oras_1.3.0_freebsd_amd64.tar.gz''\<rparr>)]),
      (''linux'',
        [(''amd64'', \<lparr>rel_checksum = ''6cdc692f929100feb08aa8de584d02f7bcc30ec7d88bc2adc2054d782db57c64'',
         rel_url = ''https://github.com/oras-project/oras/releases/download/v1.3.0/oras_1.3.0_linux_amd64.tar.gz''\<rparr>),
         (''arm64'', \<lparr>rel_checksum = ''7649738b48fde10542bcc8b0e9b460ba83936c75fb5be01ee6d4443764a14352'',
         rel_url = ''https://github.com/oras-project/oras/releases/download/v1.3.0/oras_1.3.0_linux_arm64.tar.gz''\<rparr>),
         (''armv7'', \<lparr>rel_checksum = ''adba63f14b3356601bdb4c286f0373270e2bc4e10e59b836c1796d11c48b4ace'',
         rel_url = ''https://github.com/oras-project/oras/releases/download/v1.3.0/oras_1.3.0_linux_armv7.tar.gz''\<rparr>),
         (''loong64'', \<lparr>rel_checksum = ''0da4a220de5431909cd7fed725c1741191df7b33d7eefd6f26dfd2a189b05596'',
         rel_url = ''https://github.com/oras-project/oras/releases/download/v1.3.0/oras_1.3.0_linux_loong64.tar.gz''\<rparr>),
         (''ppc64le'', \<lparr>rel_checksum = ''3eb1c038c6a7a85eaeaf34bca187375e9de624c43019d2a722e474de3237a90e'',
         rel_url = ''https://github.com/oras-project/oras/releases/download/v1.3.0/oras_1.3.0_linux_ppc64le.tar.gz''\<rparr>),
         (''riscv64'', \<lparr>rel_checksum = ''87bbd09d34b5bac85fec2c39251b979097c32b7a6f1e645e04f5fa8f899701a1'',
         rel_url = ''https://github.com/oras-project/oras/releases/download/v1.3.0/oras_1.3.0_linux_riscv64.tar.gz''\<rparr>),
         (''s390x'', \<lparr>rel_checksum = ''4eb036537a0fbbe1f75faed99272ca579ad4e6eb583e903ac647749dcf53898a'',
         rel_url = ''https://github.com/oras-project/oras/releases/download/v1.3.0/oras_1.3.0_linux_s390x.tar.gz''\<rparr>)]),
      (''windows'',
        [(''amd64'', \<lparr>rel_checksum = ''b050e93aa0dc7a79a61fa8e4074dfa302c41d4af01b634fe393c5dd687536aee'',
         rel_url = ''https://github.com/oras-project/oras/releases/download/v1.3.0/oras_1.3.0_windows_amd64.zip''\<rparr>)])]"

definition releases_1_3_1 :: platforms where
  "releases_1_3_1 =
     [(''darwin'',
        [(''amd64'', \<lparr>rel_checksum = ''22b7d8947d32280283c2e1a2fabc59d3b3c3b3056ec070dabdfe016fda532e52'',
         rel_url = ''https://github.com/oras-project/oras/releases/download/v1.3.1/oras_1.3.1_darwin_amd64.tar.gz''\<rparr>),
         (''arm64'', \<lparr>rel_checksum = ''d545a238f4c8be6dfae6c3d0ff5b09720c5588641d4a5180fb87c38a64500cc4'',
         rel_url = ''https://github.com/oras-project/oras/releases/download/v1.3.1/oras_1.3.1_darwin_arm64.tar.gz''\<rparr>)]),
      (''freebsd'',
        [(''amd64'', \<lparr>rel_checksum = ''2d383403fbe0e7160652671455bd5d23a97e6cf0c355c618b233a1ac7aa05c2d'',
         rel_url = ''https://github.com/oras-project/oras/releases/download/v1.3.1/oras_1.3.1_freebsd_amd64.tar.gz''\<rparr>)]),
      (''linux'',
        [(''amd64'', \<lparr>rel_checksum = ''d52c4af76ce6a3ceb8579e51fb751a43ac051cca67f965f973a0b0e897a2bb86'',
         rel_url = ''https://github.com/oras-project/oras/releases/download/v1.3.1/oras_1.3.1_linux_amd64.tar.gz''\<rparr>),
         (''arm64'', \<lparr>rel_checksum = ''79946ad57d732836f9242f903f476b6fa484c451d659f121bce54d931ab2a044'',
         rel_url = ''https://github.com/oras-project/oras/releases/download/v1.3.1/oras_1.3.1_linux_arm64.tar.gz''\<rparr>),
         (''armv7'', \<lparr>rel_checksum = ''2974eac27ce587c5ffdc3f2ddc2e1af4ea57c3e7d0ec12b64e3879edf9d7dfb7'',
         rel_url = ''https://github.com/oras-project/oras/releases/download/v1.3.1/oras_1.3.1_linux_armv7.tar.gz''\<rparr>),
         (''loong64'', \<lparr>rel_checksum = ''8467e1bb87d01495283993dec1c1fe8962b3c5119afe6346dc8176da99746547'',
         rel_url = ''https://github.com/oras-project/oras/releases/download/v1.3.1/oras_1.3.1_linux_loong64.tar.gz''\<rparr>),
         (''ppc64le'', \<lparr>rel_checksum = ''6e11f06d52475fcf6be0ee140f69957a5b069c90fcd1e7a514f7df2d88144ca8'',
         rel_url = ''https://github.com/oras-project/oras/releases/download/v1.3.1/oras_1.3.1_linux_ppc64le.tar.gz''\<rparr>),
         (''riscv64'', \<lparr>rel_checksum = ''f49cacaca1ceea3af51965918420f772947dce57319435cb170206567f2991b6'',
         rel_url = ''https://github.com/oras-project/oras/releases/download/v1.3.1/oras_1.3.1_linux_riscv64.tar.gz''\<rparr>),
         (''s390x'', \<lparr>rel_checksum = ''4372e53aef199dd3a8c2bd4298c4934e8802189803ff3b961c9a001598e6cbba'',
         rel_url = ''https://github.com/oras-project/oras/releases/download/v1.3.1/oras_1.3.1_linux_s390x.tar.gz''\<rparr>)]),
      (''windows'',
        [(''amd64'', \<lparr>rel_checksum = ''8cf69e46f966e592ad36261c05b8f59c02125743b7261c03f6badc3919b40cb0'',
         rel_url = ''https://github.com/oras-project/oras/releases/download/v1.3.1/oras_1.3.1_windows_amd64.zip''\<rparr>)])]"

definition releases_1_3_2 :: platforms where
  "releases_1_3_2 =
     [(''darwin'',
        [(''amd64'', \<lparr>rel_checksum = ''2621f6b252b222f6fbf4e114d2fcaa0cec6b632624ffaf73143f66e4e0994f86'',
         rel_url = ''https://github.com/oras-project/oras/releases/download/v1.3.2/oras_1.3.2_darwin_amd64.tar.gz''\<rparr>),
         (''arm64'', \<lparr>rel_checksum = ''7929f792cf272268412375ecad6f0fb3c20f164368d5b57966e67ad6d36eca53'',
         rel_url = ''https://github.com/oras-project/oras/releases/download/v1.3.2/oras_1.3.2_darwin_arm64.tar.gz''\<rparr>)]),
      (''freebsd'',
        [(''amd64'', \<lparr>rel_checksum = ''3481583cc330d51f1e576df84f1efc3c3630c1f88314fbac76e27ce4d3097dd9'',
         rel_url = ''https://github.com/oras-project/oras/releases/download/v1.3.2/oras_1.3.2_freebsd_amd64.tar.gz''\<rparr>)]),
      (''linux'',
        [(''amd64'', \<lparr>rel_checksum = ''9229ccc6d17bb282039ad4a69abb16dcb887a5bce567c075d731d9b3c7ad8eaf'',
         rel_url = ''https://github.com/oras-project/oras/releases/download/v1.3.2/oras_1.3.2_linux_amd64.tar.gz''\<rparr>),
         (''arm64'', \<lparr>rel_checksum = ''8db4a223bd6034deff198e791ea7cb3af0840df25b7e9f370e2f1f3fd20d389b'',
         rel_url = ''https://github.com/oras-project/oras/releases/download/v1.3.2/oras_1.3.2_linux_arm64.tar.gz''\<rparr>),
         (''armv7'', \<lparr>rel_checksum = ''96b5414b5651da65a61e4f81f340b96f17d3755d54b5c3f879b2bb20eed83f00'',
         rel_url = ''https://github.com/oras-project/oras/releases/download/v1.3.2/oras_1.3.2_linux_armv7.tar.gz''\<rparr>),
         (''loong64'', \<lparr>rel_checksum = ''d1b2170991779b4fba8f4b2f0c17562b15307925ee703d259bbe24846f5072bf'',
         rel_url = ''https://github.com/oras-project/oras/releases/download/v1.3.2/oras_1.3.2_linux_loong64.tar.gz''\<rparr>),
         (''ppc64le'', \<lparr>rel_checksum = ''e9904853815a265091a2a7cee76b934a099e04b5c11a7ebc53d93009b3d15cb2'',
         rel_url = ''https://github.com/oras-project/oras/releases/download/v1.3.2/oras_1.3.2_linux_ppc64le.tar.gz''\<rparr>),
         (''riscv64'', \<lparr>rel_checksum = ''4b0c72c1d2795d14d8e038687574e56dee22a9f0e3a0dd2746baccedfa6425ff'',
         rel_url = ''https://github.com/oras-project/oras/releases/download/v1.3.2/oras_1.3.2_linux_riscv64.tar.gz''\<rparr>),
         (''s390x'', \<lparr>rel_checksum = ''98aad2e81f9ccd1d68a148623a3eac3a301383d21fb7ab33b49835fc96157e9e'',
         rel_url = ''https://github.com/oras-project/oras/releases/download/v1.3.2/oras_1.3.2_linux_s390x.tar.gz''\<rparr>)]),
      (''windows'',
        [(''amd64'', \<lparr>rel_checksum = ''c896f26245f11e6385d52010bb0a65a4e500e1f3244680a6556ed05462fa1c0d'',
         rel_url = ''https://github.com/oras-project/oras/releases/download/v1.3.2/oras_1.3.2_windows_amd64.zip''\<rparr>)])]"

definition releases_1_3_3 :: platforms where
  "releases_1_3_3 =
     [(''darwin'',
        [(''amd64'', \<lparr>rel_checksum = ''aeb684d8c24c18dce28fd1f7326636e4782b573108e244a93d4b1c4a5ec50f48'',
         rel_url = ''https://github.com/oras-project/oras/releases/download/v1.3.3/oras_1.3.3_darwin_amd64.tar.gz''\<rparr>),
         (''arm64'', \<lparr>rel_checksum = ''f33fc12753c54172b0d0d19eaa0318d3f90fe9b094d96e8b259c881713c92e1c'',
         rel_url = ''https://github.com/oras-project/oras/releases/download/v1.3.3/oras_1.3.3_darwin_arm64.tar.gz''\<rparr>)]),
      (''freebsd'',
        [(''amd64'', \<lparr>rel_checksum = ''292a54904dc86cccef7b32a2d91e9f0e836f544fc0fc3a455e79cea3d1bb19b4'',
         rel_url = ''https://github.com/oras-project/oras/releases/download/v1.3.3/oras_1.3.3_freebsd_amd64.tar.gz''\<rparr>)]),
      (''linux'',
        [(''amd64'', \<lparr>rel_checksum = ''9ce999f8d2de03fc03968b29d743077a58783e545e5eaa53917ca177352d0e59'',
         rel_url = ''https://github.com/oras-project/oras/releases/download/v1.3.3/oras_1.3.3_linux_amd64.tar.gz''\<rparr>),
         (''arm64'', \<lparr>rel_checksum = ''ac7156f93a21e903f7ad606c792f3560f17e0cd0e36365634701b1e7cc4e4eca'',
         rel_url = ''https://github.com/oras-project/oras/releases/download/v1.3.3/oras_1.3.3_linux_arm64.tar.gz''\<rparr>),
         (''armv7'', \<lparr>rel_checksum = ''c9f7a31e4946872d829e786566e72b3b3275ccf3f6c263930ce420a9e9e3d4f0'',
         rel_url = ''https://github.com/oras-project/oras/releases/download/v1.3.3/oras_1.3.3_linux_armv7.tar.gz''\<rparr>),
         (''loong64'', \<lparr>rel_checksum = ''bfbd52a0f869b786b00e602771cd0e2c38c8ca04323440d1fafbdb97fc0bac36'',
         rel_url = ''https://github.com/oras-project/oras/releases/download/v1.3.3/oras_1.3.3_linux_loong64.tar.gz''\<rparr>),
         (''ppc64le'', \<lparr>rel_checksum = ''d32c44a20922dfb03bbf666834cd403b5ecc790429e73c97d8b798e1079689fd'',
         rel_url = ''https://github.com/oras-project/oras/releases/download/v1.3.3/oras_1.3.3_linux_ppc64le.tar.gz''\<rparr>),
         (''riscv64'', \<lparr>rel_checksum = ''bf87d5d86e92c87e46c5dfbbd52af1e804ba6d2ec9fb44096a3a78e2c1df823e'',
         rel_url = ''https://github.com/oras-project/oras/releases/download/v1.3.3/oras_1.3.3_linux_riscv64.tar.gz''\<rparr>),
         (''s390x'', \<lparr>rel_checksum = ''d53f94a32958cc673227d0dc22642cf5e7a4093152f908064669635d3f5a84be'',
         rel_url = ''https://github.com/oras-project/oras/releases/download/v1.3.3/oras_1.3.3_linux_s390x.tar.gz''\<rparr>)]),
      (''windows'',
        [(''amd64'', \<lparr>rel_checksum = ''30ca213a565a450de33001dae83053db53c221e6674c5233dc3406b686657969'',
         rel_url = ''https://github.com/oras-project/oras/releases/download/v1.3.3/oras_1.3.3_windows_amd64.zip''\<rparr>)])]"

definition releases_default :: releases where
  "releases_default =
     [(''1.0.0'', releases_1_0_0),
      (''1.0.1'', releases_1_0_1),
      (''1.1.0'', releases_1_1_0),
      (''1.2.0'', releases_1_2_0),
      (''1.2.1'', releases_1_2_1),
      (''1.2.2'', releases_1_2_2),
      (''1.2.3'', releases_1_2_3),
      (''1.3.0'', releases_1_3_0),
      (''1.3.1'', releases_1_3_1),
      (''1.3.2'', releases_1_3_2),
      (''1.3.3'', releases_1_3_3)]"

section \<open>Well-formedness of the table\<close>

definition is_lower_hex :: "char \<Rightarrow> bool" where
  "is_lower_hex c \<longleftrightarrow> c \<in> set ''0123456789abcdef''"

definition sha256_digest :: "string \<Rightarrow> bool" where
  "sha256_digest s \<longleftrightarrow> length s = 64 \<and> list_all is_lower_hex s"

definition archive_ext :: "string \<Rightarrow> string" where
  "archive_ext p = (if p = ''windows'' then ''.zip'' else ''.tar.gz'')"

definition official_url :: "string \<Rightarrow> string \<Rightarrow> string \<Rightarrow> string" where
  "official_url v p a =
     ''https://github.com/oras-project/oras/releases/download/v'' @ v @ ''/oras_'' @ v @ ''_'' @ p @
     ''_'' @ a @ archive_ext p"

definition wf_archs :: "string \<Rightarrow> string \<Rightarrow> archs \<Rightarrow> bool" where
  "wf_archs v p as \<longleftrightarrow>
     distinct (map fst as) \<and>
     list_all (\<lambda>(a, r). sha256_digest (rel_checksum r) \<and> rel_url r = official_url v p a) as"

definition wf_platforms :: "string \<Rightarrow> platforms \<Rightarrow> bool" where
  "wf_platforms v ps \<longleftrightarrow>
     distinct (map fst ps) \<and>
     list_all (\<lambda>(p, as). p \<in> set [''darwin'', ''freebsd'', ''linux'', ''windows''] \<and> wf_archs v p as) ps"

definition wf_releases :: "releases \<Rightarrow> bool" where
  "wf_releases rs \<longleftrightarrow> distinct (map fst rs) \<and> list_all (\<lambda>(v, ps). wf_platforms v ps) rs"

lemma wf_releases_1_0_0: "wf_platforms ''1.0.0'' releases_1_0_0"
  by code_simp

lemma wf_releases_1_0_1: "wf_platforms ''1.0.1'' releases_1_0_1"
  by code_simp

lemma wf_releases_1_1_0: "wf_platforms ''1.1.0'' releases_1_1_0"
  by code_simp

lemma wf_releases_1_2_0: "wf_platforms ''1.2.0'' releases_1_2_0"
  by code_simp

lemma wf_releases_1_2_1: "wf_platforms ''1.2.1'' releases_1_2_1"
  by code_simp

lemma wf_releases_1_2_2: "wf_platforms ''1.2.2'' releases_1_2_2"
  by code_simp

lemma wf_releases_1_2_3: "wf_platforms ''1.2.3'' releases_1_2_3"
  by code_simp

lemma wf_releases_1_3_0: "wf_platforms ''1.3.0'' releases_1_3_0"
  by code_simp

lemma wf_releases_1_3_1: "wf_platforms ''1.3.1'' releases_1_3_1"
  by code_simp

lemma wf_releases_1_3_2: "wf_platforms ''1.3.2'' releases_1_3_2"
  by code_simp

lemma wf_releases_1_3_3: "wf_platforms ''1.3.3'' releases_1_3_3"
  by code_simp

lemma wf_releases_default: "wf_releases releases_default"
  unfolding wf_releases_def releases_default_def
  by (simp add: wf_releases_1_0_0 wf_releases_1_0_1 wf_releases_1_1_0 wf_releases_1_2_0 wf_releases_1_2_1 wf_releases_1_2_2
      wf_releases_1_2_3 wf_releases_1_3_0 wf_releases_1_3_1 wf_releases_1_3_2 wf_releases_1_3_3)

lemma wf_lookup:
  assumes "wf_releases rs" and "obj_get rs v = Some ps" and "obj_get ps p = Some as"
    and "obj_get as a = Some r"
  shows "sha256_digest (rel_checksum r)" "rel_url r = official_url v p a"
    "p \<in> set [''darwin'', ''freebsd'', ''linux'', ''windows'']"
  using assms
  by (fastforce simp: wf_releases_def wf_platforms_def wf_archs_def obj_get_def list_all_iff
      dest!: map_of_SomeD)+

section \<open>Properties\<close>

text \<open>
  C36: every entry of the release table is sound: its checksum is a SHA-256 digest in lower-case
  hexadecimal and its URL is the GitHub asset of exactly the version, platform and architecture it is
  listed under.
\<close>

theorem release_table_is_sound:
  assumes "obj_get releases_default v = Some ps" and "obj_get ps p = Some as" and "obj_get as a = Some r"
  shows "sha256_digest (rel_checksum r) \<and> rel_url r = official_url v p a"
  using wf_lookup [OF wf_releases_default assms] by blast

theorem release_table_is_sound_witness:
  "\<exists>as r. obj_get releases_1_3_3 ''linux'' = Some as \<and> obj_get as ''amd64'' = Some r \<and>
     sha256_digest (rel_checksum r) \<and> rel_url r = official_url ''1.3.3'' ''linux'' ''amd64''"
proof -
  obtain as where as: "obj_get releases_default ''1.3.3'' = Some releases_1_3_3"
      "obj_get releases_1_3_3 ''linux'' = Some as" "obj_get as ''amd64'' \<noteq> None"
    by (simp add: releases_default_def releases_1_3_3_def obj_get_def)
  then obtain r where r: "obj_get as ''amd64'' = Some r" by blast
  from release_table_is_sound [OF as(1,2) r] as(2) r show ?thesis by blast
qed

end
