(* ===== verification/Release.thy ===== *)
theory Release
  imports Command Releases
begin

text \<open>
  \<open>src/lib/release.ts\<close>: which archive to download. \<open>getReleaseInfo\<close> takes the action's three
  inputs; the definitions follow the bundled JavaScript, whose lookup \<open>releases[version][platform][arch]\<close>
  reads properties of values that may be \<open>undefined\<close>.
\<close>

text \<open>Names every object inherits, which the operator \<open>in\<close> finds as well as its own keys.\<close>

definition object_prototype_keys :: "string list" where
  "object_prototype_keys =
     [''constructor'', ''__defineGetter__'', ''__defineSetter__'', ''hasOwnProperty'',
      ''__lookupGetter__'', ''__lookupSetter__'', ''isPrototypeOf'', ''propertyIsEnumerable'',
      ''toString'', ''valueOf'', ''__proto__'', ''toLocaleString'']"

definition in_object :: "string \<Rightarrow> (string \<times> 'a) list \<Rightarrow> bool" where
  "in_object k ob \<longleftrightarrow> obj_get ob k \<noteq> None \<or> k \<in> set object_prototype_keys"

text \<open>\<open>mapPlatform\<close> and \<open>mapArch\<close>: from Node's names to the names of the table.\<close>

definition mapPlatform :: "host \<Rightarrow> string res" where
  "mapPlatform h =
     (let platform = h_platform h in
      if platform = ''linux'' then Inr ''linux''
      else if platform = ''darwin'' then Inr ''darwin''
      else if platform = ''win32'' then Inr ''windows''
      else if platform = ''freebsd'' then Inr ''freebsd''
      else Inl (Error (''unsupported platform: '' @ platform)))"

definition mapArch :: "host \<Rightarrow> string res" where
  "mapArch h =
     (let architecture = h_arch h in
      if architecture = ''x64'' then Inr ''amd64''
      else if architecture = ''arm64'' then Inr ''arm64''
      else if architecture = ''arm64'' then Inr ''arm64''
      else if architecture = ''ppc64'' then Inr ''ppc64le''
      else if architecture = ''riscv64'' then Inr ''riscv64''
      else if architecture = ''s390x'' then Inr ''s390x''
      else if architecture = ''arm'' then Inr ''armv7''
      else Inl (Error (''unsupported architecture: '' @ architecture)))"

definition getBinaryExtension :: "host \<Rightarrow> string res" where
  "getBinaryExtension h =
     res_bind (mapPlatform h) (\<lambda>platform. Inr (if platform = ''windows'' then ''.exe'' else []))"

text \<open>
  \<open>releases[version][platform][arch]\<close> for a version that is \<open>in\<close> the table. An inherited name reads
  a function or prototype object, which has no property of a platform's name; reading a property of
  \<open>undefined\<close> is a \<open>TypeError\<close>; a missing architecture is \<open>undefined\<close>, here \<open>None\<close>.
\<close>

definition read_of_undefined :: "string \<Rightarrow> exn" where
  "read_of_undefined k =
     TypeError (''Cannot read properties of undefined (reading '' @ [CHR 0x27] @ k @ [CHR 0x27] @ '')'')"

definition lookup_release :: "releases \<Rightarrow> string \<Rightarrow> string \<Rightarrow> string \<Rightarrow> release option res" where
  "lookup_release rs version platform arch =
     (case obj_get rs version of
        None \<Rightarrow> Inl (read_of_undefined arch)
      | Some ps \<Rightarrow>
          (case obj_get ps platform of
             None \<Rightarrow> Inl (read_of_undefined arch)
           | Some as \<Rightarrow> Inr (obj_get as arch)))"

definition not_contained :: "string \<Rightarrow> string" where
  "not_contained version = ''official ORAS CLI releases does not contain version '' @ version"

definition getReleaseInfo :: "host \<Rightarrow> string \<Rightarrow> string \<Rightarrow> string \<Rightarrow> release action" where
  "getReleaseInfo h version url checksum =
     (if url \<noteq> [] \<and> checksum \<noteq> [] then retE \<lparr>rel_checksum = checksum, rel_url = url\<rparr>
      else if url \<noteq> [] \<and> checksum = []
      then throwE (Error ''user provided url of customized ORAS CLI release but without SHA256 checksum'')
      else if url = [] \<and> checksum \<noteq> []
      then throwE (Error ''user provided SHA256 checksum but without url'')
      else if \<not> in_object version releases_default
      then thenE (console_log (not_contained version)) (throwE (Error (not_contained version)))
      else bindE (liftE (mapPlatform h)) (\<lambda>platform.
           bindE (liftE (mapArch h)) (\<lambda>arch.
           bindE (liftE (lookup_release releases_default version platform arch)) (\<lambda>download.
             case download of
               None \<Rightarrow> throwE (Error (not_contained version @ '', platform '' @ platform @ '', arch '' @ arch @ '' is not supported''))
             | Some r \<Rightarrow> retE r))))"

section \<open>Facts\<close>

lemma keeps_getReleaseInfo [keeps_rules]:
  "(\<And>w x. g (w\<lparr>w_out := x\<rparr>) = g w) \<Longrightarrow> keeps g (getReleaseInfo h v u c)"
  unfolding getReleaseInfo_def by (intro keeps_rules)

text \<open>The names \<open>mapPlatform\<close> and \<open>mapArch\<close> produce are the fixed names of the table.\<close>

lemma mapPlatform_range:
  "mapPlatform h = Inr p \<Longrightarrow> p \<in> set [''linux'', ''darwin'', ''windows'', ''freebsd'']"
  by (auto simp: mapPlatform_def Let_def split: if_splits)

lemma mapArch_range:
  "mapArch h = Inr a \<Longrightarrow> a \<in> set [''amd64'', ''arm64'', ''ppc64le'', ''riscv64'', ''s390x'', ''armv7'']"
  by (auto simp: mapArch_def Let_def split: if_splits)

lemma mapPlatform_windows: "mapPlatform h = Inr ''windows'' \<longleftrightarrow> is_windows h"
  by (auto simp: mapPlatform_def Let_def is_windows_def)

text \<open>A result is the user's pair, or the table's entry for this machine.\<close>

lemma getReleaseInfo_cases:
  assumes "getReleaseInfo h v u c w = (Inr r, w')"
  obtains (custom) "u \<noteq> []" "c \<noteq> []" "r = \<lparr>rel_checksum = c, rel_url = u\<rparr>" "w' = w"
  | (official) p a ps as where "u = []" "c = []" "mapPlatform h = Inr p" "mapArch h = Inr a"
      "obj_get releases_default v = Some ps" "obj_get ps p = Some as" "obj_get as a = Some r" "w' = w"
  using assms
  by (auto simp: getReleaseInfo_def bindE_def lookup_release_def thenE_def console_log_def write_out_def
      split: if_splits sum.splits option.splits)

lemma getReleaseInfo_official:
  assumes "getReleaseInfo h v [] [] w = (Inr r, w')"
  obtains p a where "mapPlatform h = Inr p" "mapArch h = Inr a"
    "sha256_digest (rel_checksum r)" "rel_url r = official_url v p a"
  using assms
proof (cases rule: getReleaseInfo_cases)
  case (official p a ps as)
  note wf = wf_lookup [OF wf_releases_default official(5-7)]
  from that [OF official(3,4) wf(1,2)] show ?thesis .
qed simp

lemma getReleaseInfo_Inl_not_pending:
  "getReleaseInfo h v u c w = (Inl e, w') \<Longrightarrow> is_error e"
  by (auto simp: getReleaseInfo_def bindE_def lookup_release_def thenE_def console_log_def write_out_def
      mapPlatform_def mapArch_def Let_def read_of_undefined_def
      split: if_splits sum.splits option.splits)

end
