(* ===== verification/Setup.thy ===== *)
theory Setup
  imports Download Release
begin

text \<open>
  The action itself: \<open>hash\<close> of \<open>checksum.ts\<close> and \<open>setup\<close> of \<open>setup.ts\<close>, which reads the inputs, selects a
  release, downloads it, compares its SHA-256 digest, extracts it and puts it on the path.

  The lemmas follow the state through the stages: nothing is run and the environment is untouched
  until a downloaded file has the expected digest.
\<close>

section \<open>checksum.ts\<close>

definition hash :: "host \<Rightarrow> string \<Rightarrow> string action" where
  "hash h path =
     thenE (fs_check h ''open'' path)
       (\<lambda>w. case w_fs w path of
          Some (File c _ _ _) \<Rightarrow> (Inr (h_sha256 h c), w)
        | Some Dir \<Rightarrow> (Inl (SysError ''EISDIR'' ''EISDIR: illegal operation on a directory, read''), w)
        | None \<Rightarrow> (Inl (SysError ''ENOENT'' (''ENOENT: no such file or directory, open '' @
                     [CHR 0x27] @ path @ [CHR 0x27])), w))"

section \<open>setup.ts\<close>

definition checksum_mismatch :: "string \<Rightarrow> string \<Rightarrow> string" where
  "checksum_mismatch actual expected =
     ''checksum of downloaded ORAS CLI '' @ actual @ '' does not match expected checksum '' @ expected"

definition extract_tool :: "host \<Rightarrow> string \<Rightarrow> string \<Rightarrow> string action" where
  "extract_tool h download_url pathToTarball =
     (if ends_with download_url ''.zip'' then extractZip h pathToTarball None
      else extractTar h pathToTarball None (FlagText ''xz''))"

definition verify_download :: "host \<Rightarrow> release \<Rightarrow> string \<Rightarrow> string action" where
  "verify_download h rel pathToTarball =
     thenE (console_log ''downloading ORAS CLI completed'')
     (bindE (hash h pathToTarball) (\<lambda>actual_checksum.
        if actual_checksum \<noteq> rel_checksum rel
        then throwE (Error (checksum_mismatch actual_checksum (rel_checksum rel)))
        else thenE (console_log ''successfully verified downloaded release checksum'')
               (retE pathToTarball)))"

definition fetch_verified :: "host \<Rightarrow> release \<Rightarrow> string action" where
  "fetch_verified h rel =
     thenE (console_log (''downloading ORAS CLI from '' @ rel_url rel))
     (bindE (downloadTool h (rel_url rel) None None) (verify_download h rel))"

definition install :: "host \<Rightarrow> string \<Rightarrow> string \<Rightarrow> unit action" where
  "install h download_url pathToTarball =
     bindE (extract_tool h download_url pathToTarball) (addPath h)"

definition setup_try :: "host \<Rightarrow> unit action" where
  "setup_try h =
     bindE (getInput ''version'' None) (\<lambda>version.
     bindE (getInput ''url'' None) (\<lambda>url.
     bindE (getInput ''checksum'' None) (\<lambda>checksum.
     bindE (getReleaseInfo h version url (to_lower checksum)) (\<lambda>rel.
     bindE (fetch_verified h rel) (\<lambda>pathToTarball.
       install h (rel_url rel) pathToTarball)))))"

definition setup_oras :: "host \<Rightarrow> unit action" where
  "setup_oras h =
     catchE (setup_try h)
       (\<lambda>e. if is_error e then setFailed h (FailError e)
            else setFailed h (FailText ''unknown error during ORAS setup''))"

section \<open>Stages\<close>

text \<open>The value of an input.\<close>

definition input_text :: "string \<Rightarrow> world \<Rightarrow> string" where
  "input_text name w = js_trim (env_or (''INPUT_'' @ to_upper (replace_all CHR '' '' ''_'' name)) w)"

lemma getInput_input: "getInput name None w = (Inr (input_text name w), w)"
  by (simp add: getInput_default input_text_def)

definition selected :: "host \<Rightarrow> release action" where
  "selected h = (\<lambda>w. getReleaseInfo h (input_text ''version'' w) (input_text ''url'' w) (to_lower (input_text ''checksum'' w)) w)"

lemma setup_try_selected:
  "setup_try h = bindE (selected h) (\<lambda>rel. bindE (fetch_verified h rel) (install h (rel_url rel)))"
  by (simp add: setup_try_def selected_def fun_eq_iff bindE_def [of "getInput _ _"] getInput_input bindE_assoc)
    (simp add: bindE_def)

lemma hash_Inr:
  "hash h p w = (Inr d, w') \<Longrightarrow> w' = w \<and> (\<exists>c m u g. w_fs w p = Some (File c m u g) \<and> d = h_sha256 h c)"
  by (auto simp: hash_def thenE_def bindE_def fs_check_def split: option.splits node.splits)

lemma keeps_hash [keeps_rules]: "keeps g (hash h p)"
  unfolding hash_def by (intro keeps_rules) (auto simp: keeps_def split: option.splits node.splits)

text \<open>
  \<open>verified h rel p w\<close>: at \<open>p\<close> is a file that is the complete body of a server's 200 answer and whose
  digest is the one the release promises.
\<close>

definition verified :: "host \<Rightarrow> release \<Rightarrow> string \<Rightarrow> world \<Rightarrow> bool" where
  "verified h rel p w \<longleftrightarrow> downloaded h p w \<and>
     (\<exists>c m u g. w_fs w p = Some (File c m u g) \<and> h_sha256 h c = rel_checksum rel)"

lemma downloaded_out [simp]: "downloaded h p (w\<lparr>w_out := x\<rparr>) = downloaded h p w"
  by (simp add: downloaded_def)

lemma verified_out [simp]: "verified h rel p (w\<lparr>w_out := x\<rparr>) = verified h rel p w"
  by (simp add: verified_def)

lemma console_log_apply: "console_log m w = (Inr (), w\<lparr>w_out := w_out w @ m @ [CHR 0x0A]\<rparr>)"
  by (simp add: console_log_def write_out_def)

lemma verify_download_Inr:
  assumes "verify_download h rel q w = (Inr p, w')"
  shows "p = q \<and> (\<exists>x. w' = w\<lparr>w_out := x\<rparr>) \<and>
    (\<exists>c m u g. w_fs w q = Some (File c m u g) \<and> h_sha256 h c = rel_checksum rel)"
proof -
  let ?cmp = "\<lambda>actual_checksum. if actual_checksum \<noteq> rel_checksum rel
         then throwE (Error (checksum_mismatch actual_checksum (rel_checksum rel)))
         else thenE (console_log ''successfully verified downloaded release checksum'') (retE q)"
  obtain w3 where w3: "w3 = w\<lparr>w_out := w_out w @ ''downloading ORAS CLI completed'' @ [CHR 0x0A]\<rparr>"
    and "bindE (hash h q) ?cmp w3 = (Inr p, w')"
    using assms
    by (simp only: verify_download_def thenE_def bindE_def [of "console_log _"] console_log_apply sum.case prod.case)
  then obtain d w4 where hs: "hash h q w3 = (Inr d, w4)" and "?cmp d w4 = (Inr p, w')"
    by (elim bindE_InrE)
  then have d: "d = rel_checksum rel" "p = q" "\<exists>x. w' = w4\<lparr>w_out := x\<rparr>"
    by (cases "d = rel_checksum rel", auto simp: thenE_def bindE_def console_log_apply)+
  from hash_Inr [OF hs] d w3 show ?thesis by auto
qed

lemma fetch_verified_Inr:
  assumes "fetch_verified h rel w = (Inr p, w')"
  shows "verified h rel p w'"
proof -
  obtain w0 where "bindE (downloadTool h (rel_url rel) None None) (verify_download h rel) w0 = (Inr p, w')"
    using assms unfolding fetch_verified_def by (rule thenE_InrE)
  then obtain q w2 where "downloadTool h (rel_url rel) None None w0 = (Inr q, w2)"
    and "verify_download h rel q w2 = (Inr p, w')"
    by (rule bindE_InrE)
  from downloadTool_Inr [OF this(1)] verify_download_Inr [OF this(2)] show ?thesis
    by (auto simp: verified_def)
qed

text \<open>A download that settles, and a file that verifies: how the two compose.\<close>

lemma fetch_verified_apply:
  assumes "downloadTool h (rel_url rel) None None
      (w\<lparr>w_out := w_out w @ ''downloading ORAS CLI from '' @ rel_url rel @ [CHR 0x0A]\<rparr>) = (r, w1)"
  shows "fetch_verified h rel w = (case r of Inl e \<Rightarrow> (Inl e, w1) | Inr p \<Rightarrow> verify_download h rel p w1)"
  using assms by (simp add: fetch_verified_def thenE_def bindE_def console_log_apply split: sum.splits)

lemma keeps_verify_download [keeps_rules]:
  "(\<And>w x. g (w\<lparr>w_out := x\<rparr>) = g w) \<Longrightarrow> keeps g (verify_download h rel p)"
  unfolding verify_download_def by (intro keeps_rules)

lemma keeps_fetch_verified [keeps_rules]:
  assumes "\<And>w x. g (w\<lparr>w_out := x\<rparr>) = g w" "\<And>w x. g (w\<lparr>w_fs := x\<rparr>) = g w"
    "\<And>w x. g (w\<lparr>w_reqs := x\<rparr>) = g w" "\<And>w x. g (w\<lparr>w_sleeps := x\<rparr>) = g w"
    "\<And>w x. g (w\<lparr>w_rands := x\<rparr>) = g w" "\<And>w x. g (w\<lparr>w_uuids := x\<rparr>) = g w"
  shows "keeps g (fetch_verified h rel)"
  unfolding fetch_verified_def by (intro keeps_rules assms)

lemma keeps_selected [keeps_rules]:
  assumes "\<And>w x. g (w\<lparr>w_out := x\<rparr>) = g w"
  shows "keeps g (selected h)"
  using keeps_getReleaseInfo [OF assms] by (simp add: selected_def keeps_def)

lemma keeps_extract_tool: "extraction_frame g \<Longrightarrow> keeps g (extract_tool h u p)"
  unfolding extract_tool_def by (auto intro: keeps_extractTar keeps_extractZip)

text \<open>Installing leaves the environment alone until its last step.\<close>

lemma addPath_cases:
  "addPath h p w = (r, w') \<Longrightarrow>
     w_exitCode w' = w_exitCode w \<and> w_reqs w' = w_reqs w \<and>
     (case r of Inl e \<Rightarrow> w_env w' = w_env w
      | Inr x \<Rightarrow> w_env w' = (w_env w)(''PATH'' \<mapsto> p @ [path_delimiter h] @
           (case w_env w ''PATH'' of None \<Rightarrow> ''undefined'' | Some v \<Rightarrow> v)))"
proof -
  assume a: "addPath h p w = (r, w')"
  have "keeps (\<lambda>w. (w_exitCode w, w_reqs w)) (addPath h p)"
    unfolding addPath_def by (intro keeps_rules) simp_all
  from keepsD [OF this a] have k: "w_exitCode w' = w_exitCode w" "w_reqs w' = w_reqs w" by simp_all
  show ?thesis
  proof (cases r)
    case (Inl e)
    let ?first = "if env_or ''GITHUB_PATH'' w \<noteq> [] then issueFileCommand h ''PATH'' (Some (JStr p))
        else issueCommand h ''add-path'' [] (Some (JStr p))"
    obtain r1 w1 where f: "?first w = (r1, w1)" by (cases "?first w")
    have "keeps w_env ?first" by (intro keeps_rules) simp_all
    from keepsD [OF this f] a f Inl k show ?thesis
      by (cases r1) (auto simp: addPath_def bindE_def thenE_def set_env_def)
  next
    case (Inr x)
    with k addPath_env [of h p w w'] a show ?thesis by (cases x) simp
  qed
qed

section \<open>The whole action\<close>

text \<open>Nothing is run, nothing fails the job and the environment is untouched before a file is verified.\<close>

definition untouched :: "world \<Rightarrow> world \<Rightarrow> bool" where
  "untouched w w' \<longleftrightarrow> w_env w' = w_env w \<and> w_spawns w' = w_spawns w \<and> w_exitCode w' = w_exitCode w"

lemma untouched_keeps: "keeps (\<lambda>w. (w_env w, w_spawns w, w_exitCode w)) m \<Longrightarrow> m w = (r, w') \<Longrightarrow> untouched w w'"
  by (drule keepsD) (auto simp: untouched_def)

lemma selected_untouched: "selected h w = (r, w') \<Longrightarrow> untouched w w'"
  by (rule untouched_keeps [of "selected h"]) (intro keeps_rules, simp_all)

lemma fetch_verified_untouched: "fetch_verified h rel w = (r, w') \<Longrightarrow> untouched w w'"
  by (rule untouched_keeps [of "fetch_verified h rel"]) (intro keeps_rules, simp_all)

text \<open>Installing changes the environment only by adding the extracted directory to the path.\<close>

lemma install_cases:
  assumes "install h u p w = (r, w')"
  shows "w_exitCode w' = w_exitCode w \<and> w_reqs w' = w_reqs w \<and>
    (case r of Inl e \<Rightarrow> w_env w' = w_env w
     | Inr x \<Rightarrow> \<exists>dir. w_env w' = (w_env w)(''PATH'' \<mapsto> dir @ [path_delimiter h] @
          (case w_env w ''PATH'' of None \<Rightarrow> ''undefined'' | Some v \<Rightarrow> v)))"
proof -
  obtain r1 w1 where e: "extract_tool h u p w = (r1, w1)" by (cases "extract_tool h u p w")
  have "extraction_frame (\<lambda>w. (w_env w, w_exitCode w, w_reqs w))" by (simp add: extraction_frame_def)
  from keepsD [OF keeps_extract_tool [OF this] e]
  have k: "w_env w1 = w_env w" "w_exitCode w1 = w_exitCode w" "w_reqs w1 = w_reqs w" by simp_all
  show ?thesis
  proof (cases r1)
    case (Inl x)
    with e k assms show ?thesis by (auto simp: install_def bindE_def)
  next
    case (Inr dir)
    with e assms have "addPath h dir w1 = (r, w')" by (simp add: install_def bindE_def)
    from addPath_cases [OF this] k show ?thesis by (cases r) auto
  qed
qed

lemma setup_try_stages:
  assumes "selected h w = (Inr rel, w1)"
  shows "fetch_verified h rel w1 = (Inl e, w2) \<Longrightarrow> setup_try h w = (Inl e, w2)"
    and "fetch_verified h rel w1 = (Inr p, w2) \<Longrightarrow> setup_try h w = install h (rel_url rel) p w2"
  using assms by (simp_all add: setup_try_selected bindE_def)

lemma setup_try_cases:
  assumes "setup_try h w = (r, w')"
  obtains (early) e where "r = Inl e" "untouched w w'"
  | (installed) rel p w1 where "fst (selected h w) = Inr rel" "verified h rel p w1" "untouched w w1"
      "install h (rel_url rel) p w1 = (r, w')"
proof -
  obtain r1 w1 where s: "selected h w = (r1, w1)" by (cases "selected h w")
  note u1 = selected_untouched [OF s]
  show ?thesis
  proof (cases r1)
    case (Inl e)
    with assms s u1 early [of e] show ?thesis by (auto simp: setup_try_selected bindE_def)
  next
    case (Inr rel)
    obtain r2 w2 where f: "fetch_verified h rel w1 = (r2, w2)" by (cases "fetch_verified h rel w1")
    from fetch_verified_untouched [OF f] u1 have u2: "untouched w w2" by (simp add: untouched_def)
    show ?thesis
    proof (cases r2)
      case (Inl e)
      with assms s f u2 early [of e] \<open>r1 = Inr rel\<close> show ?thesis by (auto simp: setup_try_selected bindE_def)
    next
      case (Inr p)
      with assms s f \<open>r1 = Inr rel\<close> have "install h (rel_url rel) p w2 = (r, w')"
        by (simp add: setup_try_selected bindE_def)
      with installed [of rel p w2] s \<open>r1 = Inr rel\<close> fetch_verified_Inr [OF f [unfolded Inr]] u2
      show ?thesis by simp
    qed
  qed
qed

lemma setup_oras_apply:
  assumes "setup_try h w = (r, w1)"
  shows "setup_oras h w = (case r of
      Inr x \<Rightarrow> (Inr (), w1)
    | Inl e \<Rightarrow> if e = Pending then (Inl Pending, w1)
        else setFailed h (if is_error e then FailError e else FailText ''unknown error during ORAS setup'') w1)"
  using assms by (auto simp: setup_oras_def catchE_def split: sum.splits)

lemma setFailed_effect:
  "\<exists>w'. setFailed h f w = (Inr (), w') \<and> w_exitCode w' = Some 1 \<and> w_env w' = w_env w \<and>
     w_spawns w' = w_spawns w \<and> w_reqs w' = w_reqs w \<and> w_fs w' = w_fs w"
  by (simp add: setFailed_def core_error_def issueCommand_def write_out_def set_exit_code_def thenE_def
      bindE_def ExitCode_Failure_def)

text \<open>The handler turns every exception into a failed job and leaves the rest of the state alone.\<close>

lemma setup_oras_cases:
  assumes "setup_oras h w = (r, w')"
  obtains r1 w1 where "setup_try h w = (r1, w1)" "w_env w' = w_env w1" "w_spawns w' = w_spawns w1"
    "w_reqs w' = w_reqs w1"
    "r1 = Inr () \<and> r = Inr () \<and> w' = w1 \<or> r1 = Inl Pending \<and> r = Inl Pending \<and> w' = w1 \<or>
     (\<exists>e. r1 = Inl e \<and> e \<noteq> Pending \<and> r = Inr () \<and> w_exitCode w' = Some 1)"
proof -
  obtain r1 w1 where t: "setup_try h w = (r1, w1)" by (cases "setup_try h w")
  show ?thesis
  proof (cases r1)
    case (Inr x)
    with setup_oras_apply [OF t] assms that [OF t] show ?thesis by auto
  next
    case (Inl e)
    obtain w2 where "setFailed h (if is_error e then FailError e else FailText ''unknown error during ORAS setup'') w1
        = (Inr (), w2)" "w_exitCode w2 = Some 1" "w_env w2 = w_env w1" "w_spawns w2 = w_spawns w1"
        "w_reqs w2 = w_reqs w1"
      using setFailed_effect by metis
    with setup_oras_apply [OF t] assms Inl that [OF t] show ?thesis by (cases "e = Pending") auto
  qed
qed

text \<open>An invariant of the requests sent is one of the action if it is one of the download.\<close>

lemma setup_try_requests:
  assumes "setup_try h w = (r, w')" and "P w"
    and download: "\<And>rel. fst (selected h w) = Inr rel \<Longrightarrow>
      triple P (downloadTool h (rel_url rel) None None) (\<lambda>_. P) (\<lambda>_. P)"
    and reqs: "\<And>v v'. w_reqs v = w_reqs v' \<Longrightarrow> P v = P v'"
  shows "P w'"
proof -
  have keep: "P v'" if "keeps w_reqs m" "m v = (x, v')" "P v" for m :: "'z action" and v v' x
    using keepsD [OF that(1,2)] reqs that(3) by blast
  obtain r1 w1 where s: "selected h w = (r1, w1)" by (cases "selected h w")
  have P1: "P w1" by (rule keep [of "selected h" w r1 w1, OF _ s assms(2)]) (intro keeps_rules, simp)
  show ?thesis
  proof (cases r1)
    case (Inl e)
    with assms(1) s P1 show ?thesis by (simp add: setup_try_selected bindE_def)
  next
    case (Inr rel)
    let ?w = "w1\<lparr>w_out := w_out w1 @ ''downloading ORAS CLI from '' @ rel_url rel @ [CHR 0x0A]\<rparr>"
    obtain r2 w2 where d: "downloadTool h (rel_url rel) None None ?w = (r2, w2)"
      by (cases "downloadTool h (rel_url rel) None None ?w")
    have "P ?w" using P1 reqs [of ?w w1] by simp
    then have P2: "P w2" using download [of rel] s Inr d by (cases r2) (fastforce simp: triple_def)+
    obtain r3 w3 where f: "fetch_verified h rel w1 = (r3, w3)" by (cases "fetch_verified h rel w1")
    have P3: "P w3"
    proof (cases r2)
      case (Inl e)
      with fetch_verified_apply [OF d] f P2 show ?thesis by simp
    next
      case (Inr p)
      with fetch_verified_apply [OF d] f have "verify_download h rel p w2 = (r3, w3)" by simp
      then show ?thesis by (rule keep [of "verify_download h rel p" w2 r3 w3, OF _ _ P2, rotated]) (intro keeps_rules, simp)
    qed
    show ?thesis
    proof (cases r3)
      case (Inl e)
      with setup_try_stages(1) [OF s [unfolded Inr]] f assms(1) P3 show ?thesis by simp
    next
      case (Inr p)
      with setup_try_stages(2) [OF s [unfolded \<open>r1 = Inr rel\<close>]] f assms(1)
      have "install h (rel_url rel) p w3 = (r, w')" by simp
      from install_cases [OF this] P3 reqs show ?thesis by blast
    qed
  qed
qed

end
