(* ===== verification/Examples.thy ===== *)
theory Examples
  imports Setup Machine
begin

text \<open>
  Runs of the whole action on the machine of theory \<open>Machine\<close>: with the right digest and with a wrong
  one. Each run is evaluated stage by stage, from the state the stage before it left.
\<close>

section \<open>The runs, stage by stage\<close>

text \<open>The states between the stages of a run: before the download, after its first attempt, after the comparison.\<close>

definition archive_url :: string where
  "archive_url = ''https://oras.test/oras.tgz''"

definition logged :: "string \<Rightarrow> world \<Rightarrow> world" where
  "logged url w = w\<lparr>w_out := w_out w @ ''downloading ORAS CLI from '' @ url @ [CHR 0x0A]\<rparr>"

definition demo_started :: "world \<Rightarrow> string res \<times> world" where
  "demo_started w = attempt_start demo_host archive_url None (logged archive_url w)"

definition demo_attempt :: "world \<Rightarrow> string res \<times> world" where
  "demo_attempt w = downloadToolAttempt demo_host archive_url ''/tmp/id0'' None (snd (demo_started w))"

definition demo_verify :: "string \<Rightarrow> world \<Rightarrow> string res \<times> world" where
  "demo_verify digest w =
     verify_download demo_host \<lparr>rel_checksum = digest, rel_url = archive_url\<rparr> ''/tmp/id0'' (snd (demo_attempt w))"

definition demo_install :: "world \<Rightarrow> unit res \<times> world" where
  "demo_install w = install demo_host archive_url ''/tmp/id0'' (snd (demo_verify ''c0ffee'' w))"

lemma demo_globals:
  "getGlobal demo_host ''TEST_DOWNLOAD_TOOL_RETRY_MIN_SECONDS'' 10
     \<le> getGlobal demo_host ''TEST_DOWNLOAD_TOOL_RETRY_MAX_SECONDS'' 20"
  by (simp add: getGlobal_def demo_host_def)

lemma demo_stages:
  "fst (demo_started good_world) = Inr ''/tmp/id0''"
  "fst (demo_attempt good_world) = Inr ''/tmp/id0''"
  "fst (demo_verify ''c0ffee'' good_world) = Inr ''/tmp/id0''"
  "fst (demo_started tampered_world) = Inr ''/tmp/id0''"
  "fst (demo_attempt tampered_world) = Inr ''/tmp/id0''"
  "fst (demo_verify ''beef'' tampered_world) = Inl (Error (checksum_mismatch ''c0ffee'' ''beef''))"
  by code_simp+

lemma demo_download:
  assumes "fst (demo_started w) = Inr ''/tmp/id0''" and "fst (demo_attempt w) = Inr ''/tmp/id0''"
  shows "downloadTool demo_host archive_url None None (logged archive_url w) = (Inr ''/tmp/id0'', snd (demo_attempt w))"
  by (rule downloadTool_settled [where dest = "''/tmp/id0''" and ?w1.0 = "snd (demo_started w)"])
    (use assms demo_globals in \<open>auto simp: demo_started_def demo_attempt_def settled_def prod_eq_iff\<close>)

lemma demo_inputs:
  "input_text ''url'' good_world = archive_url" "to_lower (input_text ''checksum'' good_world) = ''c0ffee''"
  "input_text ''url'' tampered_world = archive_url" "to_lower (input_text ''checksum'' tampered_world) = ''beef''"
  "input_text ''url'' official_world = []" "input_text ''checksum'' official_world = []"
  by code_simp+

lemma demo_selected:
  assumes "input_text ''url'' w = archive_url" and "to_lower (input_text ''checksum'' w) = d" and "d \<noteq> []"
  shows "selected demo_host w = (Inr \<lparr>rel_checksum = d, rel_url = archive_url\<rparr>, w)"
  using assms by (simp add: selected_def getReleaseInfo_def archive_url_def)

lemma demo_fetch:
  assumes "fst (demo_started w) = Inr ''/tmp/id0''" and "fst (demo_attempt w) = Inr ''/tmp/id0''"
  shows "fetch_verified demo_host \<lparr>rel_checksum = d, rel_url = archive_url\<rparr> w = demo_verify d w"
  using fetch_verified_apply [of demo_host "\<lparr>rel_checksum = d, rel_url = archive_url\<rparr>" w]
    demo_download [OF assms] by (simp add: logged_def demo_verify_def)

lemma demo_effects:
  "case demo_install good_world of (r, w) \<Rightarrow>
     r = Inr () \<and> length (w_spawns w) = 2 \<and> w_env w ''PATH'' = Some ''/tmp/id1:/bin'' \<and> w_exitCode w = None"
  by code_simp

lemma demo_good: "setup_oras demo_host good_world = (Inr (), snd (demo_install good_world))"
proof -
  have "demo_install good_world = (Inr (), snd (demo_install good_world))"
    using demo_effects by (simp add: prod_eq_iff case_prod_beta)
  then have "install demo_host archive_url ''/tmp/id0'' (snd (demo_verify ''c0ffee'' good_world))
      = (Inr (), snd (demo_install good_world))"
    by (simp only: demo_install_def)
  moreover have "fetch_verified demo_host \<lparr>rel_checksum = ''c0ffee'', rel_url = archive_url\<rparr> good_world
      = (Inr ''/tmp/id0'', snd (demo_verify ''c0ffee'' good_world))"
    unfolding demo_fetch [OF demo_stages(1,2)] by (rule prod_eqI) (simp_all add: demo_stages(3))
  ultimately have "setup_try demo_host good_world = (Inr (), snd (demo_install good_world))"
    using setup_try_stages(2) [OF demo_selected [OF demo_inputs(1,2)]] by simp
  then show ?thesis by (simp add: setup_oras_apply)
qed

lemma demo_good_effects:
  "length (w_spawns (snd (demo_install good_world))) = 2"
  "w_env (snd (demo_install good_world)) ''PATH'' = Some ''/tmp/id1:/bin''"
  "w_exitCode (snd (demo_install good_world)) = None"
  using demo_effects by (simp_all add: case_prod_beta)

lemma demo_tampered:
  "setup_oras demo_host tampered_world =
     setFailed demo_host (FailError (Error (checksum_mismatch ''c0ffee'' ''beef''))) (snd (demo_verify ''beef'' tampered_world))"
proof -
  have "fetch_verified demo_host \<lparr>rel_checksum = ''beef'', rel_url = archive_url\<rparr> tampered_world
      = (Inl (Error (checksum_mismatch ''c0ffee'' ''beef'')), snd (demo_verify ''beef'' tampered_world))"
    unfolding demo_fetch [OF demo_stages(4,5)] by (rule prod_eqI) (simp_all add: demo_stages(6))
  from setup_try_stages(1) [OF demo_selected [OF demo_inputs(3,4)] this] show ?thesis
    by (simp add: setup_oras_apply)
qed

end
