(* ===== verification/Tunnel.thy ===== *)
theory Tunnel
  imports Command "HOL-Library.Multiset" Machine
begin

text \<open>
  \<open>tunnel/lib/tunnel.js\<close>: the agent \<open>http-client\<close> sends requests through when a proxy is configured.
  It is an event machine: the events are requests added by Node's HTTP client, answers to the agent's
  CONNECT requests, and \<open>free\<close> and \<open>close\<close> of sockets. Placeholders and sockets are numbered.

  A socket created for a queued request (\<open>removeSocket\<close>) gets no \<open>free\<close> or \<open>close\<close> listeners;
  \<open>tn_hooks\<close> records which sockets have them. The lemmas show the slot limit, that a request is
  never lost or duplicated, and what becomes of a slot without listeners.

  Not modelled: what a request does when its \<open>error\<close> event is emitted, and debug output.
\<close>

section \<open>Options\<close>

text \<open>\<open>mergeOptions\<close>: later objects win, \<open>undefined\<close> never overwrites.\<close>

definition merge_one :: "jsobj \<Rightarrow> jsobj \<Rightarrow> jsobj" where
  "merge_one target overrides =
     foldl (\<lambda>t (k, v). case v of None \<Rightarrow> t | Some x \<Rightarrow> obj_put t k (Some x)) target overrides"

definition mergeOptions :: "jsobj \<Rightarrow> jsobj list \<Rightarrow> jsobj" where
  "mergeOptions target objs = foldl merge_one target objs"

text \<open>\<open>Buffer.from(s).toString("base64")\<close>.\<close>

definition b64_char :: "nat \<Rightarrow> char" where
  "b64_char n =
     ''ABCDEFGHIJKLMNOPQRSTUVWXYZabcdefghijklmnopqrstuvwxyz0123456789+/'' ! (n mod 64)"

fun base64 :: "string \<Rightarrow> string" where
  "base64 [] = []"
| "base64 [a] =
     (let n = of_char a * 16 :: nat in [b64_char (n div 64), b64_char n, CHR ''='', CHR ''=''])"
| "base64 [a, b] =
     (let n = (of_char a * 256 + of_char b) * 4 :: nat in
      [b64_char (n div 4096), b64_char (n div 64), b64_char n, CHR ''=''])"
| "base64 (a # b # c # s) =
     (let n = (of_char a * 256 + of_char b) * 256 + of_char c :: nat in
      [b64_char (n div 262144), b64_char (n div 4096), b64_char (n div 64), b64_char n] @ base64 s)"

record pending =
  pd_req :: nat
  pd_host :: string
  pd_port :: nat
  pd_localAddress :: "string option"
  pd_hostHeader :: "string option"

definition authority :: "pending \<Rightarrow> string" where
  "authority p = pd_host p @ '':'' @ show_nat (pd_port p)"

definition connectOptions :: "jsobj \<Rightarrow> pending \<Rightarrow> jsobj" where
  "connectOptions proxy p =
     (let headers = [(''host'', JStr (authority p))];
          co = mergeOptions [] [proxy,
            [(''method'', Some (JStr ''CONNECT'')), (''path'', Some (JStr (authority p))),
             (''agent'', Some (JBool False)), (''headers'', Some (JObj headers))]];
          co = (case pd_localAddress p of
                  Some (c # a) \<Rightarrow> obj_put co ''localAddress'' (Some (JStr (c # a))) | _ \<Rightarrow> co) in
      case obj_get co ''proxyAuth'' of
        Some (Some (JStr (c # a))) \<Rightarrow>
          obj_put co ''headers''
            (Some (JObj (obj_put headers ''Proxy-Authorization'' (JStr (''Basic '' @ base64 (c # a))))))
      | _ \<Rightarrow> co)"

text \<open>\<open>hostHeader.replace(/:.*$/, "")\<close>, for a header without line breaks.\<close>

definition servername :: "pending \<Rightarrow> string" where
  "servername p = (case pd_hostHeader p of
     Some (c # s) \<Rightarrow> takeWhile (\<lambda>x. x \<noteq> CHR '':'') (c # s) | _ \<Rightarrow> pd_host p)"

section \<open>The agent\<close>

datatype slot = Placeholder nat | Socket nat

record tunnel =
  tn_secure :: bool
  tn_proxy :: jsobj
  tn_maxSockets :: "nat option"  \<comment> \<open>\<open>None\<close>: \<open>Infinity\<close>\<close>
  tn_requests :: "pending list"
  tn_sockets :: "slot list"
  tn_next :: nat
  tn_connecting :: "(nat \<times> pending \<times> bool) list"
  tn_hooks :: "(nat \<times> pending) list"
  tn_served :: "(nat \<times> nat) list"
  tn_failed :: "(nat \<times> string) list"
  tn_connects :: "jsobj list"
  tn_tls :: "(nat \<times> string) list"
  tn_destroyed :: "nat list"

definition TunnelingAgent :: "bool \<Rightarrow> jsobj \<Rightarrow> nat option \<Rightarrow> tunnel" where
  "TunnelingAgent secure proxy maxSockets =
     \<lparr>tn_secure = secure, tn_proxy = proxy,
      tn_maxSockets = (if maxSockets = Some 0 then None else maxSockets),
      tn_requests = [], tn_sockets = [], tn_next = 0, tn_connecting = [], tn_hooks = [], tn_served = [],
      tn_failed = [], tn_connects = [], tn_tls = [], tn_destroyed = []\<rparr>"

text \<open>\<open>hooked\<close>: the callback of \<open>addRequest\<close>, which installs the listeners.\<close>

definition createSocket :: "pending \<Rightarrow> bool \<Rightarrow> tunnel \<Rightarrow> tunnel" where
  "createSocket p hooked t =
     t\<lparr>tn_next := Suc (tn_next t),
       tn_sockets := tn_sockets t @ [Placeholder (tn_next t)],
       tn_connecting := (tn_next t, p, hooked) # tn_connecting t,
       tn_connects := tn_connects t @ [connectOptions (tn_proxy t) p]\<rparr>"

definition removeSocket :: "slot \<Rightarrow> tunnel \<Rightarrow> tunnel" where
  "removeSocket s t =
     (if s \<notin> set (tn_sockets t) then t
      else (let t1 = t\<lparr>tn_sockets := remove1 s (tn_sockets t)\<rparr> in
            case tn_requests t1 of
              [] \<Rightarrow> t1
            | p # ps \<Rightarrow> createSocket p False (t1\<lparr>tn_requests := ps\<rparr>)))"

definition room :: "tunnel \<Rightarrow> bool" where
  "room t \<longleftrightarrow> (case tn_maxSockets t of None \<Rightarrow> True | Some m \<Rightarrow> length (tn_sockets t) < m)"

definition addRequest :: "pending \<Rightarrow> tunnel \<Rightarrow> tunnel" where
  "addRequest p t =
     (if \<not> room t then t\<lparr>tn_requests := tn_requests t @ [p]\<rparr> else createSocket p True t)"

text \<open>\<open>sockets[sockets.indexOf(a)] = b\<close>.\<close>

fun replace_slot :: "slot \<Rightarrow> slot \<Rightarrow> slot list \<Rightarrow> slot list" where
  "replace_slot a b [] = []"
| "replace_slot a b (x # xs) = (if x = a then b # xs else x # replace_slot a b xs)"

text \<open>The socket of an established tunnel; over TLS a second socket takes its place.\<close>

definition established :: "nat \<Rightarrow> pending \<Rightarrow> tunnel \<Rightarrow> nat \<times> tunnel" where
  "established ph p t =
     (let s = tn_next t;
          t1 = t\<lparr>tn_next := Suc s, tn_sockets := replace_slot (Placeholder ph) (Socket s) (tn_sockets t)\<rparr> in
      if tn_secure t
      then (Suc s, t1\<lparr>tn_next := Suc (Suc s),
                      tn_sockets := replace_slot (Socket s) (Socket (Suc s)) (tn_sockets t1),
                      tn_tls := tn_tls t @ [(s, servername p)]\<rparr>)
      else (s, t1))"

definition fail_request :: "nat \<Rightarrow> pending \<Rightarrow> string \<Rightarrow> tunnel \<Rightarrow> tunnel" where
  "fail_request ph p msg t = removeSocket (Placeholder ph) (t\<lparr>tn_failed := tn_failed t @ [(pd_req p, msg)]\<rparr>)"

definition forget :: "nat \<Rightarrow> tunnel \<Rightarrow> tunnel" where
  "forget ph t = t\<lparr>tn_connecting := filter (\<lambda>(i, _). i \<noteq> ph) (tn_connecting t)\<rparr>"

definition onConnect :: "nat \<Rightarrow> nat \<Rightarrow> string \<Rightarrow> tunnel \<Rightarrow> tunnel" where
  "onConnect ph statusCode head t =
     (case map_of (tn_connecting t) ph of
        None \<Rightarrow> t
      | Some (p, hooked) \<Rightarrow>
          (let t1 = forget ph t in
           if statusCode \<noteq> 200
           then fail_request ph p (''tunneling socket could not be established, statusCode='' @ show_nat statusCode) t1
           else if head \<noteq> [] then fail_request ph p ''got illegal response body from proxy'' t1
           else (case established ph p t1 of (s, t2) \<Rightarrow>
                   t2\<lparr>tn_hooks := (if hooked then (s, p) # tn_hooks t2 else tn_hooks t2),
                      tn_served := tn_served t2 @ [(pd_req p, s)]\<rparr>)))"

definition onError :: "nat \<Rightarrow> string \<Rightarrow> tunnel \<Rightarrow> tunnel" where
  "onError ph cause t =
     (case map_of (tn_connecting t) ph of
        None \<Rightarrow> t
      | Some (p, hooked) \<Rightarrow>
          fail_request ph p (''tunneling socket could not be established, cause='' @ cause) (forget ph t))"

text \<open>The first queued request for the same host and port takes the socket; else it is destroyed.\<close>

fun take_matching :: "pending \<Rightarrow> pending list \<Rightarrow> (pending \<times> pending list) option" where
  "take_matching o2 [] = None"
| "take_matching o2 (p # ps) =
     (if pd_host p = pd_host o2 \<and> pd_port p = pd_port o2 then Some (p, ps)
      else map_option (\<lambda>(q, qs). (q, p # qs)) (take_matching o2 ps))"

definition onFree :: "nat \<Rightarrow> tunnel \<Rightarrow> tunnel" where
  "onFree s t =
     (case map_of (tn_hooks t) s of
        None \<Rightarrow> t
      | Some o2 \<Rightarrow>
          (case take_matching o2 (tn_requests t) of
             Some (p, rest) \<Rightarrow> t\<lparr>tn_requests := rest, tn_served := tn_served t @ [(pd_req p, s)]\<rparr>
           | None \<Rightarrow> removeSocket (Socket s) (t\<lparr>tn_destroyed := tn_destroyed t @ [s]\<rparr>)))"

definition onCloseOrRemove :: "nat \<Rightarrow> tunnel \<Rightarrow> tunnel" where
  "onCloseOrRemove s t =
     (if map_of (tn_hooks t) s = None then t
      else (let t1 = removeSocket (Socket s) t in
            t1\<lparr>tn_hooks := filter (\<lambda>(i, _). i \<noteq> s) (tn_hooks t1)\<rparr>))"

datatype tunnel_event =
    AddRequest pending
  | Connected nat nat string
  | ConnectFailed nat string
  | SocketFree nat
  | SocketClose nat

fun tunnel_step :: "tunnel_event \<Rightarrow> tunnel \<Rightarrow> tunnel" where
  "tunnel_step (AddRequest p) t = addRequest p t"
| "tunnel_step (Connected ph code head) t = onConnect ph code head t"
| "tunnel_step (ConnectFailed ph cause) t = onError ph cause t"
| "tunnel_step (SocketFree s) t = onFree s t"
| "tunnel_step (SocketClose s) t = onCloseOrRemove s t"

section \<open>Invariant\<close>

definition slot_id :: "slot \<Rightarrow> nat" where
  "slot_id s = (case s of Placeholder n \<Rightarrow> n | Socket n \<Rightarrow> n)"

text \<open>The slot limit, and requests queue only while every slot is taken.\<close>

definition limit_ok :: "tunnel \<Rightarrow> bool" where
  "limit_ok t \<longleftrightarrow>
     (\<forall>m. tn_maxSockets t = Some m \<longrightarrow> length (tn_sockets t) \<le> m) \<and>
     (tn_requests t \<noteq> [] \<longrightarrow> tn_maxSockets t = Some (length (tn_sockets t)))"

definition connecting_ids :: "tunnel \<Rightarrow> nat set" where
  "connecting_ids t = fst ` set (tn_connecting t)"

definition hooked_ids :: "tunnel \<Rightarrow> nat set" where
  "hooked_ids t = fst ` set (tn_hooks t)"

text \<open>
  The placeholders are those of the connections in progress and of the failed ones in \<open>H\<close> whose slot
  is still to be removed; every number in use has been handed out.
\<close>

definition slots_ok :: "nat set \<Rightarrow> tunnel \<Rightarrow> bool" where
  "slots_ok H t \<longleftrightarrow>
     distinct (tn_sockets t) \<and> (\<forall>s\<in>set (tn_sockets t). slot_id s < tn_next t) \<and>
     (\<forall>n. Placeholder n \<in> set (tn_sockets t) \<longleftrightarrow> n \<in> connecting_ids t \<union> H) \<and>
     (\<forall>n\<in>hooked_ids t. n < tn_next t)"

definition tunnel_inv :: "tunnel \<Rightarrow> bool" where
  "tunnel_inv t \<longleftrightarrow> limit_ok t \<and> slots_ok {} t"

lemma replace_slot_length [simp]: "length (replace_slot a b xs) = length xs"
  by (induction xs) auto

lemma replace_slot_set:
  "distinct xs \<Longrightarrow> set (replace_slot a b xs) = (if a \<in> set xs then insert b (set xs - {a}) else set xs)"
  by (induction xs) auto

lemma replace_slot_distinct: "distinct xs \<Longrightarrow> b \<notin> set xs \<Longrightarrow> distinct (replace_slot a b xs)"
  by (induction xs) (auto simp: replace_slot_set)

lemma slot_id_simps [simp]: "slot_id (Placeholder n) = n" "slot_id (Socket n) = n"
  by (simp_all add: slot_id_def)

lemma connecting_ids_create [simp]: "connecting_ids (createSocket p b t) = insert (tn_next t) (connecting_ids t)"
  and hooked_ids_create [simp]: "hooked_ids (createSocket p b t) = hooked_ids t"
  by (simp_all add: connecting_ids_def hooked_ids_def createSocket_def)

lemma connecting_ids_forget [simp]: "connecting_ids (forget ph t) = connecting_ids t - {ph}"
proof -
  have "fst ` set (filter (\<lambda>(i, _). i \<noteq> ph) xs) = fst ` set xs - {ph}" for xs :: "(nat \<times> pending \<times> bool) list"
    by (induction xs) auto
  then show ?thesis by (simp add: connecting_ids_def forget_def)
qed

lemma fresh_slot: "slots_ok H t \<Longrightarrow> tn_next t \<le> n \<Longrightarrow> Placeholder n \<notin> set (tn_sockets t) \<and> Socket n \<notin> set (tn_sockets t)"
  unfolding slots_ok_def by (metis leD slot_id_simps)

lemma create_fields [simp]:
  "tn_sockets (createSocket p b t) = tn_sockets t @ [Placeholder (tn_next t)]"
  "tn_next (createSocket p b t) = Suc (tn_next t)"
  "tn_maxSockets (createSocket p b t) = tn_maxSockets t"
  "tn_requests (createSocket p b t) = tn_requests t"
  "tn_hooks (createSocket p b t) = tn_hooks t"
  by (simp_all add: createSocket_def)

lemma slots_create: "slots_ok H t \<Longrightarrow> slots_ok H (createSocket p b t)"
  using fresh_slot [of H t "tn_next t"] unfolding slots_ok_def
  by (auto simp: less_Suc_eq)

lemma slots_ok_requests [simp]: "slots_ok H (t\<lparr>tn_requests := x\<rparr>) = slots_ok H t"
  by (simp add: slots_ok_def connecting_ids_def hooked_ids_def)

text \<open>Removing a slot: a socket's, or the placeholder of a failed connection.\<close>

lemma slots_remove:
  assumes "slots_ok H t" and "\<And>n. s = Placeholder n \<Longrightarrow> n \<in> H \<and> n \<notin> connecting_ids t"
  shows "slots_ok (case s of Placeholder n \<Rightarrow> H - {n} | Socket n \<Rightarrow> H) (removeSocket s t)"
proof -
  let ?H = "case s of Placeholder n \<Rightarrow> H - {n} | Socket n \<Rightarrow> H"
  have t1: "slots_ok ?H (t\<lparr>tn_sockets := remove1 s (tn_sockets t)\<rparr>)"
    using assms unfolding slots_ok_def connecting_ids_def hooked_ids_def
    by (auto split: slot.split)
  show ?thesis
  proof (cases "s \<in> set (tn_sockets t)")
    case True
    show ?thesis
    proof (cases "tn_requests t")
      case Nil
      then show ?thesis using True t1 by (simp add: removeSocket_def)
    next
      case (Cons p ps)
      then show ?thesis using True t1 by (simp add: removeSocket_def slots_create)
    qed
  next
    case False
    with assms show ?thesis by (auto simp: removeSocket_def slots_ok_def split: slot.split)
  qed
qed

lemma limit_remove: "limit_ok t \<Longrightarrow> limit_ok (removeSocket s t)"
proof (cases "s \<in> set (tn_sockets t)")
  case True
  assume "limit_ok t"
  moreover have "0 < length (tn_sockets t)" using True by (rule length_pos_if_in_set)
  ultimately show ?thesis using True
    by (cases "tn_requests t") (auto simp: removeSocket_def limit_ok_def length_remove1 simp del: length_greater_0_conv)
qed (simp add: removeSocket_def)

lemma inv_start: "tunnel_inv (TunnelingAgent secure proxy m)"
  by (simp add: tunnel_inv_def limit_ok_def slots_ok_def TunnelingAgent_def connecting_ids_def hooked_ids_def)

lemma inv_addRequest: "tunnel_inv t \<Longrightarrow> tunnel_inv (addRequest p t)"
proof (cases "room t")
  case True
  assume "tunnel_inv t"
  with True show ?thesis
    by (auto simp: tunnel_inv_def addRequest_def slots_create limit_ok_def room_def split: option.splits)
next
  case False
  assume "tunnel_inv t"
  with False show ?thesis
    by (auto simp: tunnel_inv_def addRequest_def limit_ok_def room_def slots_ok_def connecting_ids_def
        hooked_ids_def split: option.splits)
qed

lemma inv_fail:
  assumes "tunnel_inv t" and "ph \<in> connecting_ids t"
  shows "tunnel_inv (fail_request ph p msg (forget ph t))"
proof -
  let ?t = "(forget ph t)\<lparr>tn_failed := tn_failed (forget ph t) @ [(pd_req p, msg)]\<rparr>"
  have c: "connecting_ids ?t = connecting_ids t - {ph}"
    using connecting_ids_forget [of ph t] by (simp add: connecting_ids_def)
  have "slots_ok {ph} ?t"
    using assms unfolding tunnel_inv_def slots_ok_def c
    by (auto simp: forget_def hooked_ids_def)
  from slots_remove [OF this, of "Placeholder ph"] c have "slots_ok {} (removeSocket (Placeholder ph) ?t)" by simp
  moreover have "limit_ok ?t" using assms by (simp add: tunnel_inv_def limit_ok_def forget_def)
  ultimately show ?thesis unfolding tunnel_inv_def fail_request_def using limit_remove by blast
qed

lemma established_slots:
  assumes "tunnel_inv t" and "ph \<in> connecting_ids t" and "established ph p (forget ph t) = (s, t2)"
  shows "tunnel_inv t2" "s < tn_next t2" "Socket s \<in> set (tn_sockets t2)" "tn_next t \<le> s"
    "tn_hooks t2 = tn_hooks t" "tn_served t2 = tn_served t" "tn_requests t2 = tn_requests t"
    "tn_failed t2 = tn_failed t" "tn_connecting t2 = tn_connecting (forget ph t)"
proof -
  let ?n = "tn_next t"
  have d: "distinct (tn_sockets t)" and ph: "Placeholder ph \<in> set (tn_sockets t)"
    and ids: "\<And>s. s \<in> set (tn_sockets t) \<Longrightarrow> slot_id s < ?n"
    and hk: "\<And>n. n \<in> hooked_ids t \<Longrightarrow> n < ?n"
    and pl: "\<And>n. Placeholder n \<in> set (tn_sockets t) \<longleftrightarrow> n \<in> connecting_ids t"
    using assms(1,2) by (auto simp: tunnel_inv_def slots_ok_def)
  have fresh: "Socket n \<notin> set (tn_sockets t)" if "?n \<le> n" for n using ids [of "Socket n"] that by auto
  let ?s1 = "replace_slot (Placeholder ph) (Socket ?n) (tn_sockets t)"
  have d1: "distinct ?s1" by (rule replace_slot_distinct [OF d fresh]) simp
  have set1: "set ?s1 = insert (Socket ?n) (set (tn_sockets t) - {Placeholder ph})"
    using ph by (simp add: replace_slot_set d)
  let ?s2 = "replace_slot (Socket ?n) (Socket (Suc ?n)) ?s1"
  have d2: "distinct ?s2" by (rule replace_slot_distinct [OF d1]) (use fresh [of "Suc ?n"] set1 in auto)
  have set2: "set ?s2 = insert (Socket (Suc ?n)) (set (tn_sockets t) - {Placeholder ph})"
    using fresh [of ?n] by (auto simp: replace_slot_set d1 set1)
  have t2: "s = (if tn_secure t then Suc ?n else ?n)" "tn_next t2 = Suc s"
      "tn_sockets t2 = (if tn_secure t then ?s2 else ?s1)" "tn_connecting t2 = tn_connecting (forget ph t)"
      "tn_hooks t2 = tn_hooks t" "tn_maxSockets t2 = tn_maxSockets t" "tn_requests t2 = tn_requests t"
      "tn_served t2 = tn_served t" "tn_failed t2 = tn_failed t"
    using assms(3) by (auto simp: established_def Let_def forget_def split: if_splits)
  have c: "connecting_ids t2 = connecting_ids t - {ph}"
    using connecting_ids_forget [of ph t] by (simp add: connecting_ids_def t2)
  have "limit_ok t2" using assms(1) by (auto simp: tunnel_inv_def limit_ok_def t2)
  moreover have "slots_ok {} t2"
    unfolding slots_ok_def c
    using d1 d2 set1 set2 ids pl hk
    by (auto simp: t2 hooked_ids_def less_Suc_eq dest!: ids)
  ultimately show "tunnel_inv t2" by (simp add: tunnel_inv_def)
  show "s < tn_next t2" "Socket s \<in> set (tn_sockets t2)" "?n \<le> s" using set1 set2 by (auto simp: t2)
qed (use assms(3) in \<open>auto simp: established_def Let_def forget_def split: if_splits\<close>)

lemma connecting_member: "map_of (tn_connecting t) ph = Some x \<Longrightarrow> ph \<in> connecting_ids t"
  by (force simp: connecting_ids_def dest: map_of_SomeD)

lemma inv_onConnect: "tunnel_inv t \<Longrightarrow> tunnel_inv (onConnect ph code head t)"
proof (cases "map_of (tn_connecting t) ph")
  case (Some x)
  assume inv: "tunnel_inv t"
  obtain p hooked where x: "x = (p, hooked)" by (cases x)
  note m = connecting_member [OF Some]
  obtain s t2 where e: "established ph p (forget ph t) = (s, t2)" by (cases "established ph p (forget ph t)")
  note es = established_slots [OF inv m e]
  have "tunnel_inv (t2\<lparr>tn_hooks := (if hooked then (s, p) # tn_hooks t2 else tn_hooks t2),
                      tn_served := tn_served t2 @ [(pd_req p, s)]\<rparr>)"
    using es(1,2) by (auto simp: tunnel_inv_def limit_ok_def slots_ok_def connecting_ids_def hooked_ids_def)
  then show ?thesis using inv_fail [OF inv m] by (simp add: onConnect_def Some x Let_def e)
qed (simp add: onConnect_def)

lemma inv_onError: "tunnel_inv t \<Longrightarrow> tunnel_inv (onError ph cause t)"
  using inv_fail connecting_member by (auto simp: onError_def split: option.splits prod.splits)

lemma take_matching_nonempty: "take_matching o2 ps = Some x \<Longrightarrow> ps \<noteq> []"
  by auto

lemma inv_onFree: "tunnel_inv t \<Longrightarrow> tunnel_inv (onFree s t)"
proof (cases "map_of (tn_hooks t) s")
  case (Some o2)
  assume inv: "tunnel_inv t"
  let ?t = "t\<lparr>tn_destroyed := tn_destroyed t @ [s]\<rparr>"
  have "tunnel_inv ?t"
    using inv by (simp add: tunnel_inv_def limit_ok_def slots_ok_def connecting_ids_def hooked_ids_def)
  then have "tunnel_inv (removeSocket (Socket s) ?t)"
    using slots_remove [of "{}" ?t "Socket s"] limit_remove by (auto simp: tunnel_inv_def)
  moreover have "tunnel_inv (t\<lparr>tn_requests := rest, tn_served := tn_served t @ [(pd_req p, s)]\<rparr>)"
    if "take_matching o2 (tn_requests t) = Some (p, rest)" for p rest
    using inv take_matching_nonempty [OF that]
    by (auto simp: tunnel_inv_def limit_ok_def slots_ok_def connecting_ids_def hooked_ids_def)
  ultimately show ?thesis by (auto simp: onFree_def Some split: option.split)
qed (simp add: onFree_def)

lemma inv_onClose: "tunnel_inv t \<Longrightarrow> tunnel_inv (onCloseOrRemove s t)"
proof (cases "map_of (tn_hooks t) s = None")
  case False
  assume inv: "tunnel_inv t"
  then have "tunnel_inv (removeSocket (Socket s) t)"
    using slots_remove [of "{}" t "Socket s"] limit_remove by (auto simp: tunnel_inv_def)
  with False show ?thesis
    by (auto simp: onCloseOrRemove_def Let_def tunnel_inv_def limit_ok_def slots_ok_def connecting_ids_def
        hooked_ids_def)
qed (simp add: onCloseOrRemove_def)

lemma inv_step: "tunnel_inv t \<Longrightarrow> tunnel_inv (tunnel_step e t)"
  by (cases e) (simp_all add: inv_addRequest inv_onConnect inv_onError inv_onFree inv_onClose)

interpretation tunnel_machine: event_machine
  "\<lambda>t. \<exists>secure proxy m. t = TunnelingAgent secure proxy m" tunnel_step tunnel_inv
  by unfold_locales (auto intro: inv_start inv_step)

section \<open>No request is lost\<close>

text \<open>Where a request is: queued, waiting for its CONNECT, handed a socket, or failed.\<close>

definition places :: "tunnel \<Rightarrow> nat multiset" where
  "places t = mset (map pd_req (tn_requests t)) + mset (map (\<lambda>(i, p, b). pd_req p) (tn_connecting t)) +
     mset (map fst (tn_served t)) + mset (map fst (tn_failed t))"

definition added :: "tunnel_event \<Rightarrow> nat multiset" where
  "added e = (case e of AddRequest p \<Rightarrow> {#pd_req p#} | _ \<Rightarrow> {#})"

lemma places_create: "places (createSocket p b t) = add_mset (pd_req p) (places t)"
  by (simp add: places_def createSocket_def)

lemma places_remove: "places (removeSocket s t) = places t"
  by (auto simp: removeSocket_def Let_def places_create split: list.split) (auto simp: places_def)

lemma forget_connecting:
  "distinct (map fst xs) \<Longrightarrow> map_of xs ph = Some (p, b) \<Longrightarrow>
   mset (map (\<lambda>(i, p, b). pd_req p) xs) =
   add_mset (pd_req p) (mset (map (\<lambda>(i, p, b). pd_req p) (filter (\<lambda>(i, _). i \<noteq> ph) xs)))"
proof (induction xs)
  case (Cons x xs)
  obtain i q c where x: "x = (i, q, c)" by (cases x)
  show ?case
  proof (cases "i = ph")
    case True
    have "filter (\<lambda>(i, _). i \<noteq> ph) xs = xs"
      using Cons.prems(1) x True by (intro filter_True) (force)
    with Cons.prems x True show ?thesis by simp
  next
    case False
    with Cons x show ?thesis by simp
  qed
qed simp

text \<open>Connections in progress have different numbers, so each is forgotten once.\<close>

definition distinct_inv :: "tunnel \<Rightarrow> bool" where
  "distinct_inv t \<longleftrightarrow> distinct (map fst (tn_connecting t)) \<and> (\<forall>n\<in>connecting_ids t. n < tn_next t)"

lemma distinct_create: "distinct_inv t \<Longrightarrow> distinct_inv (createSocket p b t)"
  by (force simp: distinct_inv_def connecting_ids_def createSocket_def less_Suc_eq)

lemma distinct_remove: "distinct_inv t \<Longrightarrow> distinct_inv (removeSocket s t)"
proof -
  assume d: "distinct_inv t"
  then have "distinct_inv (t\<lparr>tn_sockets := x\<rparr>)" "distinct_inv (t\<lparr>tn_sockets := x, tn_requests := y\<rparr>)" for x y
    by (simp_all add: distinct_inv_def connecting_ids_def)
  then show ?thesis using d by (auto simp: removeSocket_def Let_def intro: distinct_create split: list.split)
qed

lemma distinct_forget: "distinct_inv t \<Longrightarrow> distinct_inv (forget ph t)"
proof -
  assume d: "distinct_inv t"
  have "distinct (map fst xs) \<Longrightarrow> distinct (map fst (filter (\<lambda>(i, _). i \<noteq> ph) xs))" for xs :: "(nat \<times> pending \<times> bool) list"
    by (rule distinct_map_filter)
  moreover have "tn_next (forget ph t) = tn_next t" by (simp add: forget_def)
  ultimately show ?thesis using d connecting_ids_forget [of ph t]
    by (simp add: distinct_inv_def forget_def)
qed

lemma distinct_frame:
  assumes "distinct_inv t" and "tn_connecting t' = tn_connecting t" and "tn_next t \<le> tn_next t'"
  shows "distinct_inv t'"
  using assms unfolding distinct_inv_def connecting_ids_def by (auto intro: less_le_trans)

lemma established_frame:
  assumes "established ph p t = (s, t2)"
  shows "tn_connecting t2 = tn_connecting t" "tn_next t \<le> tn_next t2" "tn_requests t2 = tn_requests t"
    "tn_served t2 = tn_served t" "tn_failed t2 = tn_failed t"
  using assms by (auto simp: established_def Let_def split: if_splits)

lemma fail_request_step:
  assumes "distinct_inv t" and "map_of (tn_connecting t) ph = Some (p, b)"
  shows "distinct_inv (fail_request ph p msg (forget ph t)) \<and>
    places (fail_request ph p msg (forget ph t)) = places t"
proof
  show "distinct_inv (fail_request ph p msg (forget ph t))"
    unfolding fail_request_def
    by (rule distinct_remove, rule distinct_frame [OF distinct_forget [OF assms(1), of ph]]) simp_all
  show "places (fail_request ph p msg (forget ph t)) = places t"
    using forget_connecting [OF _ assms(2)] assms(1)
    by (simp add: fail_request_def places_remove distinct_inv_def) (simp add: places_def forget_def)
qed

lemma take_matching_mset:
  "take_matching o2 ps = Some (p, qs) \<Longrightarrow> mset (map pd_req ps) = add_mset (pd_req p) (mset (map pd_req qs))"
  by (induction ps arbitrary: qs) (auto split: if_splits)

lemma onConnect_step:
  assumes "distinct_inv t"
  shows "distinct_inv (onConnect ph code head t) \<and> places (onConnect ph code head t) = places t"
proof (cases "map_of (tn_connecting t) ph")
  case (Some x)
  obtain p hooked where x: "x = (p, hooked)" by (cases x)
  obtain s t2 where e: "established ph p (forget ph t) = (s, t2)" by (cases "established ph p (forget ph t)")
  note es = established_frame [OF e]
  let ?t = "t2\<lparr>tn_hooks := (if hooked then (s, p) # tn_hooks t2 else tn_hooks t2),
                      tn_served := tn_served t2 @ [(pd_req p, s)]\<rparr>"
  have "distinct_inv ?t"
    by (rule distinct_frame [OF distinct_forget [OF assms, of ph]]) (simp_all add: es)
  moreover have "places ?t = places t"
    using forget_connecting [OF _ Some [unfolded x]] assms
    by (simp add: places_def es distinct_inv_def) (simp add: forget_def)
  ultimately show ?thesis
    using fail_request_step [OF assms Some [unfolded x]] by (simp add: onConnect_def Some x Let_def e)
qed (simp add: onConnect_def assms)

lemma distinct_step_places:
  "distinct_inv t \<Longrightarrow> distinct_inv (tunnel_step e t) \<and> places (tunnel_step e t) = places t + added e"
proof (cases e)
  case (AddRequest p)
  assume d: "distinct_inv t"
  have "distinct_inv (t\<lparr>tn_requests := tn_requests t @ [p]\<rparr>)" by (rule distinct_frame [OF d]) simp_all
  with d show ?thesis
    by (simp add: AddRequest addRequest_def distinct_create places_create added_def)
      (simp add: places_def)
next
  case (Connected ph code head)
  assume "distinct_inv t"
  from onConnect_step [OF this] show ?thesis by (simp add: Connected added_def)
next
  case (ConnectFailed ph cause)
  assume "distinct_inv t"
  from fail_request_step [OF this] this show ?thesis
    by (auto simp: ConnectFailed added_def onError_def split: option.split)
next
  case (SocketFree s)
  assume d: "distinct_inv t"
  then have "distinct_inv (t\<lparr>tn_destroyed := x\<rparr>)" "distinct_inv (t\<lparr>tn_requests := y, tn_served := z\<rparr>)" for x y z
    by (simp_all add: distinct_inv_def connecting_ids_def)
  moreover have "places (t\<lparr>tn_destroyed := x\<rparr>) = places t" for x by (simp add: places_def)
  moreover have "places (t\<lparr>tn_requests := qs, tn_served := tn_served t @ [(pd_req p, s)]\<rparr>) = places t"
    if "take_matching o2 (tn_requests t) = Some (p, qs)" for o2 p qs
    using take_matching_mset [OF that] by (simp add: places_def)
  ultimately show ?thesis using d
    by (auto simp: SocketFree added_def onFree_def distinct_remove places_remove split: option.split)
next
  case (SocketClose s)
  assume d: "distinct_inv t"
  have "distinct_inv ((removeSocket (Socket s) t)\<lparr>tn_hooks := x\<rparr>)" for x
    by (rule distinct_frame [OF distinct_remove [OF d, of "Socket s"]]) simp_all
  moreover have "places ((removeSocket (Socket s) t)\<lparr>tn_hooks := x\<rparr>) = places t" for x
    using places_remove [of "Socket s" t] by (simp add: places_def)
  ultimately show ?thesis using d by (simp add: SocketClose added_def onCloseOrRemove_def Let_def)
qed

lemma places_run: "distinct_inv t \<Longrightarrow> places (fold tunnel_step es t) = places t + sum_list (map added es)"
  by (induction es arbitrary: t) (simp_all add: distinct_step_places)

lemma distinct_start: "distinct_inv (TunnelingAgent secure proxy m)"
  by (simp add: distinct_inv_def connecting_ids_def TunnelingAgent_def)

lemma places_start: "places (TunnelingAgent secure proxy m) = {#}"
  by (simp add: places_def TunnelingAgent_def)

section \<open>Slots without listeners\<close>

text \<open>A socket in a slot for which no \<open>free\<close> or \<open>close\<close> listener was installed.\<close>

definition orphan :: "nat \<Rightarrow> tunnel \<Rightarrow> bool" where
  "orphan s t \<longleftrightarrow> tunnel_inv t \<and> Socket s \<in> set (tn_sockets t) \<and> s \<notin> hooked_ids t"

lemma orphan_less: "orphan s t \<Longrightarrow> s < tn_next t"
  by (force simp: orphan_def tunnel_inv_def slots_ok_def)

lemma orphan_remove:
  assumes "Socket s \<in> set (tn_sockets t)" and "x \<noteq> Socket s"
  shows "Socket s \<in> set (tn_sockets (removeSocket x t))"
  using assms by (auto simp: removeSocket_def Let_def in_set_remove1 split: list.split)

lemma hooks_remove [simp]: "tn_hooks (removeSocket x t) = tn_hooks t"
  by (simp add: removeSocket_def Let_def split: list.split)

lemma sockets_frame [simp]:
  "tn_sockets (forget ph t) = tn_sockets t" "tn_hooks (forget ph t) = tn_hooks t"
  by (simp_all add: forget_def)

lemma orphan_fail: "Socket s \<in> set (tn_sockets t) \<Longrightarrow> Socket s \<in> set (tn_sockets (fail_request ph p msg (forget ph t)))"
  unfolding fail_request_def by (rule orphan_remove) simp_all

lemma hooks_fail [simp]: "tn_hooks (fail_request ph p msg (forget ph t)) = tn_hooks t"
  by (simp add: fail_request_def)

lemma orphan_established:
  assumes "orphan s t" and "established ph p (forget ph t) = (n, t2)"
  shows "Socket s \<in> set (tn_sockets t2)" "n \<noteq> s"
proof -
  have s: "s < tn_next t" "Socket s \<in> set (tn_sockets t)" "distinct (tn_sockets t)"
    using orphan_less [OF assms(1)] assms(1) by (auto simp: orphan_def tunnel_inv_def slots_ok_def)
  have keep: "Socket s \<in> set (replace_slot a b xs)" if "Socket s \<in> set xs" "a \<noteq> Socket s" for a b xs
    using that by (induction xs) auto
  show "Socket s \<in> set (tn_sockets t2)" "n \<noteq> s"
    using assms(2) s by (auto simp: established_def Let_def forget_def keep split: if_splits)
qed

lemma orphan_step: "orphan s t \<Longrightarrow> orphan s (tunnel_step e t)"
proof -
  assume o: "orphan s t"
  then have inv: "tunnel_inv (tunnel_step e t)" using inv_step by (simp add: orphan_def)
  have m: "Socket s \<in> set (tn_sockets t)" and h: "s \<notin> hooked_ids t" using o by (auto simp: orphan_def)
  have hk: "i \<noteq> s" if "map_of (tn_hooks t) i = Some x" for i x
    using h that by (force simp: hooked_ids_def dest: map_of_SomeD)
  have "Socket s \<in> set (tn_sockets (tunnel_step e t)) \<and> s \<notin> hooked_ids (tunnel_step e t)"
  proof (cases e)
    case (AddRequest p)
    then show ?thesis using m h by (simp add: addRequest_def hooked_ids_def)
  next
    case (Connected ph code head)
    show ?thesis
    proof (cases "map_of (tn_connecting t) ph")
      case (Some x)
      obtain p b where x: "x = (p, b)" by (cases x)
      obtain n t2 where est: "established ph p (forget ph t) = (n, t2)" by (cases "established ph p (forget ph t)")
      have "tn_hooks t2 = tn_hooks t" using est by (auto simp: established_def Let_def forget_def split: if_splits)
      then show ?thesis using m h orphan_fail [OF m] orphan_established [OF o est]
        by (simp add: Connected onConnect_def Some x Let_def est hooked_ids_def)
    qed (use m h in \<open>simp add: Connected onConnect_def\<close>)
  next
    case (ConnectFailed ph cause)
    then show ?thesis using m h orphan_fail [OF m] by (auto simp: onError_def hooked_ids_def split: option.split)
  next
    case (SocketFree i)
    then show ?thesis using m h hk orphan_remove
      by (auto simp: onFree_def hooked_ids_def split: option.split)
  next
    case (SocketClose i)
    then show ?thesis using m h hk orphan_remove
      by (auto simp: onCloseOrRemove_def Let_def hooked_ids_def)
  qed
  with inv show ?thesis by (simp add: orphan_def)
qed

interpretation orphaned: event_machine "orphan s" tunnel_step "orphan s" for s
  by unfold_locales (auto intro: orphan_step)

text \<open>The slot limit is fixed when the agent is made.\<close>

lemma max_remove [simp]: "tn_maxSockets (removeSocket x t) = tn_maxSockets t"
  by (simp add: removeSocket_def Let_def split: list.split)

lemma max_forget [simp]: "tn_maxSockets (forget ph t) = tn_maxSockets t"
  by (simp add: forget_def)

lemma max_fail [simp]: "tn_maxSockets (fail_request ph p m t) = tn_maxSockets t"
  by (simp add: fail_request_def)

lemma max_established: "established ph p t = (s, t2) \<Longrightarrow> tn_maxSockets t2 = tn_maxSockets t"
  by (auto simp: established_def Let_def split: if_splits)

lemma max_step: "tn_maxSockets (tunnel_step e t) = tn_maxSockets t"
  by (cases e)
    (auto simp: addRequest_def onConnect_def onError_def onFree_def onCloseOrRemove_def Let_def
      dest!: max_established split: option.split prod.splits)

section \<open>Properties\<close>

definition demo_pending :: "nat \<Rightarrow> pending" where
  "demo_pending n = \<lparr>pd_req = n, pd_host = ''oras.test'', pd_port = 443, pd_localAddress = None, pd_hostHeader = None\<rparr>"

text \<open>
  C8: however requests, CONNECT answers and socket events interleave, the agent never has more than
  \<open>maxSockets\<close> sockets, it queues requests only while all slots are taken, and no socket is in two
  slots.
\<close>

theorem tunnel_slot_limit:
  assumes "0 < m"
  shows "length (tn_sockets (fold tunnel_step es (TunnelingAgent secure proxy (Some m)))) \<le> m \<and>
    (tn_requests (fold tunnel_step es (TunnelingAgent secure proxy (Some m))) \<noteq> [] \<longrightarrow>
       length (tn_sockets (fold tunnel_step es (TunnelingAgent secure proxy (Some m)))) = m) \<and>
    distinct (tn_sockets (fold tunnel_step es (TunnelingAgent secure proxy (Some m))))"
proof -
  let ?t = "fold tunnel_step es (TunnelingAgent secure proxy (Some m))"
  have "tunnel_inv ?t" by (rule tunnel_machine.reach_inv) blast
  moreover have "tn_maxSockets (tunnel_step e t) = tn_maxSockets t" for e t
    by (rule max_step)
  then have "tn_maxSockets ?t = tn_maxSockets (TunnelingAgent secure proxy (Some m))"
    by (induction es rule: rev_induct) simp_all
  then have "tn_maxSockets ?t = Some m" using assms by (simp add: TunnelingAgent_def)
  ultimately show ?thesis by (auto simp: tunnel_inv_def limit_ok_def slots_ok_def)
qed

theorem tunnel_slot_limit_witness:
  "length (tn_sockets (fold tunnel_step [AddRequest (demo_pending 0), AddRequest (demo_pending 1)]
     (TunnelingAgent True [] (Some 1)))) \<le> 1"
  by (rule tunnel_slot_limit [THEN conjunct1]) simp

text \<open>
  C7: no request is lost and none is served twice: after any events, every request that was added is in
  exactly one place: queued, waiting for its CONNECT, handed a socket, or failed.
\<close>

theorem tunnel_loses_no_request:
  "mset (map pd_req (tn_requests (fold tunnel_step es (TunnelingAgent secure proxy m)))) +
   mset (map (\<lambda>(i, p, b). pd_req p) (tn_connecting (fold tunnel_step es (TunnelingAgent secure proxy m)))) +
   mset (map fst (tn_served (fold tunnel_step es (TunnelingAgent secure proxy m)))) +
   mset (map fst (tn_failed (fold tunnel_step es (TunnelingAgent secure proxy m)))) =
   mset (concat (map (\<lambda>e. case e of AddRequest p \<Rightarrow> [pd_req p] | _ \<Rightarrow> []) es))"
proof -
  have "sum_list (map added es) = mset (concat (map (\<lambda>e. case e of AddRequest p \<Rightarrow> [pd_req p] | _ \<Rightarrow> []) es))"
    by (induction es) (auto simp: added_def split: tunnel_event.split)
  with places_run [OF distinct_start, of es secure proxy m] places_start show ?thesis
    by (simp add: places_def)
qed

text \<open>
  A socket that a queued request got through \<open>removeSocket\<close> is never released: it has no listeners,
  so whatever happens later it keeps its slot, even when the connection is closed.
\<close>

theorem tunnel_slot_leak:
  assumes "tunnel_inv t" and "Socket s \<in> set (tn_sockets t)" and "s \<notin> fst ` set (tn_hooks t)"
  shows "Socket s \<in> set (tn_sockets (fold tunnel_step es t))"
proof -
  have "orphan s t" using assms by (simp add: orphan_def hooked_ids_def)
  then have "orphan s (fold tunnel_step es t)" by (rule orphaned.reach_inv)
  then show ?thesis by (simp add: orphan_def)
qed

theorem tunnel_slot_leak_witness:
  "Socket 2 \<in> set (tn_sockets (fold tunnel_step [SocketFree 2, SocketClose 2, AddRequest (demo_pending 2)]
     (fold tunnel_step [AddRequest (demo_pending 0), AddRequest (demo_pending 1), ConnectFailed 0 ''refused'', Connected 1 200 []]
       (TunnelingAgent False [] (Some 1)))))"
proof (rule tunnel_slot_leak)
  let ?t = "fold tunnel_step [AddRequest (demo_pending 0), AddRequest (demo_pending 1), ConnectFailed 0 ''refused'', Connected 1 200 []]
       (TunnelingAgent False [] (Some 1))"
  show "tunnel_inv ?t" by (rule tunnel_machine.reach_inv) blast
  show "Socket 2 \<in> set (tn_sockets ?t)" "2 \<notin> fst ` set (tn_hooks ?t)" by code_simp+
qed

end
