(* ===== verification/Sorting.thy ===== *)
theory Sorting
  imports Prelude "HOL-Library.Multiset"
begin

text \<open>
  \<open>Array.prototype.sort\<close> with a comparison function. The language leaves the algorithm open but
  requires a stable result, which is unique when the comparison is consistent; \<open>js_sort\<close> computes it.
  A comparison returns a number, or \<open>NaN\<close> (\<open>None\<close>), which counts as zero.

  The interface \<open>comparator\<close> is what consistency means on a domain of values; its lemmas say that
  the result is ordered, a permutation, and keeps equal elements in order. Each comparison function of
  the program interprets it.
\<close>

definition cmp_value :: "int option \<Rightarrow> int" where
  "cmp_value c = (case c of None \<Rightarrow> 0 | Some n \<Rightarrow> n)"

fun js_insert :: "('a \<Rightarrow> 'a \<Rightarrow> int option) \<Rightarrow> 'a \<Rightarrow> 'a list \<Rightarrow> 'a list" where
  "js_insert cmp x [] = [x]"
| "js_insert cmp x (y # ys) =
     (if cmp_value (cmp x y) \<le> 0 then x # y # ys else y # js_insert cmp x ys)"

fun js_sort :: "('a \<Rightarrow> 'a \<Rightarrow> int option) \<Rightarrow> 'a list \<Rightarrow> 'a list" where
  "js_sort cmp [] = []"
| "js_sort cmp (x # xs) = js_insert cmp x (js_sort cmp xs)"

lemma mset_js_insert [simp]: "mset (js_insert cmp x ys) = add_mset x (mset ys)"
  by (induction ys) auto

lemma mset_js_sort [simp]: "mset (js_sort cmp xs) = mset xs"
  by (induction xs) auto

lemma set_js_sort [simp]: "set (js_sort cmp xs) = set xs"
  by (metis mset_js_sort set_mset_mset)

lemma set_js_insert [simp]: "set (js_insert cmp x ys) = insert x (set ys)"
  by (induction ys) auto

lemma length_js_sort [simp]: "length (js_sort cmp xs) = length xs"
  by (metis mset_js_sort size_mset)

lemma distinct_js_sort [simp]: "distinct (js_sort cmp xs) = distinct xs"
  by (metis mset_js_sort mset_eq_imp_distinct_iff)

locale comparator =
  fixes cmp :: "'a \<Rightarrow> 'a \<Rightarrow> int option" and dom :: "'a \<Rightarrow> bool"
  assumes refl: "dom x \<Longrightarrow> cmp_value (cmp x x) = 0"
    and swap: "dom x \<Longrightarrow> dom y \<Longrightarrow> cmp_value (cmp y x) < 0 \<longleftrightarrow> 0 < cmp_value (cmp x y)"
    and trans: "dom x \<Longrightarrow> dom y \<Longrightarrow> dom z \<Longrightarrow> cmp_value (cmp x y) \<le> 0 \<Longrightarrow> cmp_value (cmp y z) \<le> 0 \<Longrightarrow>
      cmp_value (cmp x z) \<le> 0"
begin

definition le :: "'a \<Rightarrow> 'a \<Rightarrow> bool" where
  "le x y \<longleftrightarrow> cmp_value (cmp x y) \<le> 0"

lemma total: "dom x \<Longrightarrow> dom y \<Longrightarrow> le x y \<or> le y x"
  using swap [of x y] swap [of y x] by (auto simp: le_def)

lemma insert_sorted:
  "dom x \<Longrightarrow> list_all dom ys \<Longrightarrow> sorted_wrt le ys \<Longrightarrow> sorted_wrt le (js_insert cmp x ys)"
proof (induction ys)
  case (Cons y ys)
  show ?case
  proof (cases "cmp_value (cmp x y) \<le> 0")
    case True
    have "le x z" if "z \<in> set ys" for z
      using trans [of x y z] True that Cons.prems by (auto simp: le_def list_all_iff)
    with True Cons.prems show ?thesis by (simp add: le_def)
  next
    case False
    have "le y x" using swap [of x y] False Cons.prems by (simp add: le_def)
    with False Cons show ?thesis by auto
  qed
qed simp

lemma sort_sorted: "list_all dom xs \<Longrightarrow> sorted_wrt le (js_sort cmp xs)"
proof (induction xs)
  case (Cons x xs)
  then have "list_all dom (js_sort cmp xs)" by (simp add: list_all_iff)
  with Cons show ?case by (simp add: insert_sorted)
qed simp

text \<open>Elements equal under the comparison keep their order.\<close>

lemma insert_stable:
  assumes "dom x" "dom z" "list_all dom ys" "sorted_wrt le ys"
  shows "filter (\<lambda>y. cmp_value (cmp z y) = 0) (js_insert cmp x ys) =
    filter (\<lambda>y. cmp_value (cmp z y) = 0) (x # ys)"
  using assms(3,4)
proof (induction ys)
  case (Cons y ys)
  show ?case
  proof (cases "cmp_value (cmp x y) \<le> 0")
    case False
    have "cmp_value (cmp z y) \<noteq> 0" if "cmp_value (cmp z x) = 0"
    proof
      assume y: "cmp_value (cmp z y) = 0"
      have "cmp_value (cmp x z) \<le> 0" using swap [of z x] swap [of x z] that assms by auto
      from trans [OF _ _ _ this, of y] y False assms Cons.prems show False by auto
    qed
    with False Cons show ?thesis by auto
  qed simp
qed simp

lemma sort_stable:
  assumes "list_all dom xs" "dom z"
  shows "filter (\<lambda>y. cmp_value (cmp z y) = 0) (js_sort cmp xs) = filter (\<lambda>y. cmp_value (cmp z y) = 0) xs"
  using assms
proof (induction xs)
  case (Cons x xs)
  have "list_all dom (js_sort cmp xs)" using Cons.prems by (simp add: list_all_iff)
  with Cons show ?case using insert_stable [of x z "js_sort cmp xs"] sort_sorted [of xs] by simp
qed simp

text \<open>Sorting an ordered list changes nothing, so sorting twice is sorting once.\<close>

lemma sort_id: "sorted_wrt le xs \<Longrightarrow> js_sort cmp xs = xs"
proof (induction xs)
  case (Cons x xs)
  then show ?case by (cases xs) (auto simp: le_def)
qed simp

lemma sort_idem: "list_all dom xs \<Longrightarrow> js_sort cmp (js_sort cmp xs) = js_sort cmp xs"
  by (rule sort_id) (rule sort_sorted)

text \<open>The last element, which \<open>pop()\<close> returns, is a greatest one.\<close>

lemma last_greatest:
  assumes "list_all dom xs" "x \<in> set xs"
  shows "le x (last (js_sort cmp xs))"
proof -
  let ?s = "js_sort cmp xs"
  have ne: "?s \<noteq> []" using assms(2) by (metis list.set_cases set_js_sort list.distinct(1))
  have x: "x \<in> set (butlast ?s @ [last ?s])" using assms(2) append_butlast_last_id [OF ne] by simp
  have "sorted_wrt le (butlast ?s @ [last ?s])" using sort_sorted [OF assms(1)] append_butlast_last_id [OF ne] by simp
  with x assms show ?thesis
    using refl [of x] by (auto simp: sorted_wrt_append le_def list_all_iff)
qed

end

end
