(* ===== verification/Summary.thy ===== *)
theory Summary
  imports IoUtil Machine
begin

text \<open>
  \<open>@actions/core/lib/summary.js\<close>: the job summary. The object is the record \<open>summary\<close>; a method that
  only touches the buffer is a function on it, one that touches files is an \<open>io\<close> over the world and
  the object, so that what an error leaves in the object is explicit.

  The lemmas show that every \<open>add\<close> method appends one text, the object stays well formed, and a
  successful \<open>write\<close> moves the whole buffer to the file exactly once.
\<close>

record summary =
  sm_buffer :: string
  sm_filePath :: "string option"

definition new_Summary :: summary where
  "new_Summary = \<lparr>sm_buffer = [], sm_filePath = None\<rparr>"

type_synonym 'a summary_io = "(world \<times> summary, 'a) io"

definition on_world :: "'a action \<Rightarrow> 'a summary_io" where
  "on_world m = (\<lambda>(w, s). case m w of (r, w') \<Rightarrow> (r, (w', s)))"

definition on_summary :: "(summary \<Rightarrow> summary) \<Rightarrow> unit summary_io" where
  "on_summary f = modifyE (\<lambda>(w, s). (w, f s))"

section \<open>Files\<close>

definition fs_access :: "host \<Rightarrow> string \<Rightarrow> unit action" where
  "fs_access h p = thenE (fs_check h ''access'' p)
     (\<lambda>w. if w_fs w p = None
          then (Inl (SysError ''ENOENT'' (''ENOENT: no such file or directory, access '' @ p)), w)
          else (Inr (), w))"

definition write_file :: "host \<Rightarrow> string \<Rightarrow> string \<Rightarrow> unit action" where
  "write_file h p s = thenE (fs_check h ''writeFile'' p)
     (\<lambda>w. case w_fs w p of
        Some (File d m u g) \<Rightarrow> (Inr (), w\<lparr>w_fs := (w_fs w)(p \<mapsto> File s m u g)\<rparr>)
      | Some Dir \<Rightarrow> (Inl (SysError ''EISDIR'' ''EISDIR: illegal operation on a directory, open''), w)
      | None \<Rightarrow> (Inr (), w\<lparr>w_fs := (w_fs w)(p \<mapsto> File s 438 0 0)\<rparr>))"

definition SUMMARY_ENV_VAR :: string where "SUMMARY_ENV_VAR = ''GITHUB_STEP_SUMMARY''"

definition summary_filePath :: "host \<Rightarrow> string summary_io" where
  "summary_filePath h =
     bindE (getE (\<lambda>(w, s). sm_filePath s)) (\<lambda>fp.
       case fp of
         Some (c # p) \<Rightarrow> retE (c # p)
       | _ \<Rightarrow>
           bindE (getE (\<lambda>(w, s). get_env SUMMARY_ENV_VAR w)) (\<lambda>pathFromEnv.
             case pathFromEnv of
               Some (c # p) \<Rightarrow>
                 thenE (catchE (on_world (fs_access h (c # p)))
                   (\<lambda>_. throwE (Error (''Unable to access summary file: '' @ [CHR 0x27] @ (c # p) @ [CHR 0x27] @
                          ''. Check if the file has correct read/write permissions.''))))
                 (thenE (on_summary (\<lambda>s. s\<lparr>sm_filePath := Some (c # p)\<rparr>)) (retE (c # p)))
             | _ \<Rightarrow> throwE (Error (''Unable to find environment variable for $'' @ SUMMARY_ENV_VAR @
                      ''. Check if your runtime environment supports job summaries.''))))"

definition emptyBuffer :: "summary \<Rightarrow> summary" where
  "emptyBuffer s = s\<lparr>sm_buffer := []\<rparr>"

definition summary_write :: "host \<Rightarrow> bool \<Rightarrow> unit summary_io" where
  "summary_write h overwrite =
     bindE (summary_filePath h) (\<lambda>filePath.
     bindE (getE (\<lambda>(w, s). sm_buffer s)) (\<lambda>buffer.
     thenE (on_world (if overwrite then write_file h filePath buffer else append_file h filePath buffer))
       (on_summary emptyBuffer)))"

definition summary_clear :: "host \<Rightarrow> unit summary_io" where
  "summary_clear h = thenE (on_summary emptyBuffer) (summary_write h True)"

section \<open>The buffer\<close>

definition summary_stringify :: "summary \<Rightarrow> string" where
  "summary_stringify s = sm_buffer s"

definition isEmptyBuffer :: "summary \<Rightarrow> bool" where
  "isEmptyBuffer s \<longleftrightarrow> length (sm_buffer s) = 0"

definition addRaw :: "host \<Rightarrow> string \<Rightarrow> bool \<Rightarrow> summary \<Rightarrow> summary" where
  "addRaw h text addEOL s = s\<lparr>sm_buffer := sm_buffer s @ text @ (if addEOL then eol h else [])\<rparr>"

definition addEOL :: "host \<Rightarrow> summary \<Rightarrow> summary" where
  "addEOL h s = addRaw h (eol h) False s"

type_synonym attrs = "(string \<times> string) list"

text \<open>\<open>null\<close> and the empty string give an element without an end tag.\<close>

definition wrap :: "string \<Rightarrow> string option \<Rightarrow> attrs \<Rightarrow> string" where
  "wrap tag contents attrs =
     (let htmlAttrs = concat (map (\<lambda>(key, value). '' '' @ key @ ''='' @ [CHR 0x22] @ value @ [CHR 0x22]) attrs);
          open = ''<'' @ tag @ htmlAttrs @ ''>'' in
      case contents of
        None \<Rightarrow> open
      | Some c \<Rightarrow> if c = [] then open else open @ c @ ''</'' @ tag @ ''>'')"

text \<open>\<open>Object.assign({}, x && { key: x })\<close>.\<close>

definition attr_if :: "string \<Rightarrow> string option \<Rightarrow> attrs" where
  "attr_if key x = (case x of Some (c # v) \<Rightarrow> [(key, c # v)] | _ \<Rightarrow> [])"

definition add_element :: "host \<Rightarrow> string \<Rightarrow> summary \<Rightarrow> summary" where
  "add_element h element s = addEOL h (addRaw h element False s)"

definition addCodeBlock :: "host \<Rightarrow> string \<Rightarrow> string option \<Rightarrow> summary \<Rightarrow> summary" where
  "addCodeBlock h code lang =
     add_element h (wrap ''pre'' (Some (wrap ''code'' (Some code) [])) (attr_if ''lang'' lang))"

definition addList :: "host \<Rightarrow> string list \<Rightarrow> bool \<Rightarrow> summary \<Rightarrow> summary" where
  "addList h items ordered =
     (let tag = (if ordered then ''ol'' else ''ul'');
          listItems = concat (map (\<lambda>item. wrap ''li'' (Some item) []) items) in
      add_element h (wrap tag (Some listItems) []))"

datatype cell = TextCell string | DataCell bool string "string option" "string option"

fun cell_element :: "cell \<Rightarrow> string" where
  "cell_element (TextCell t) = wrap ''td'' (Some t) []"
| "cell_element (DataCell header data colspan rowspan) =
     wrap (if header then ''th'' else ''td'') (Some data) (attr_if ''colspan'' colspan @ attr_if ''rowspan'' rowspan)"

definition addTable :: "host \<Rightarrow> cell list list \<Rightarrow> summary \<Rightarrow> summary" where
  "addTable h rows =
     (let tableBody = concat (map (\<lambda>row. wrap ''tr'' (Some (concat (map cell_element row))) []) rows) in
      add_element h (wrap ''table'' (Some tableBody) []))"

definition addDetails :: "host \<Rightarrow> string \<Rightarrow> string \<Rightarrow> summary \<Rightarrow> summary" where
  "addDetails h label contents =
     add_element h (wrap ''details'' (Some (wrap ''summary'' (Some label) [] @ contents)) [])"

text \<open>\<open>Object.assign({ src, alt }, attrs)\<close> with the optional width and height.\<close>

definition addImage :: "host \<Rightarrow> string \<Rightarrow> string \<Rightarrow> string option \<Rightarrow> string option \<Rightarrow> summary \<Rightarrow> summary" where
  "addImage h src alt width height =
     add_element h (wrap ''img'' None
       ([(''src'', src), (''alt'', alt)] @ attr_if ''width'' width @ attr_if ''height'' height))"

definition heading_tag :: "json option \<Rightarrow> string" where
  "heading_tag level =
     (let tag = ''h'' @ (case level of Some (JNum n) \<Rightarrow> show_int n | Some (JStr t) \<Rightarrow> t | _ \<Rightarrow> ''undefined'') in
      if tag \<in> set [''h1'', ''h2'', ''h3'', ''h4'', ''h5'', ''h6''] then tag else ''h1'')"

definition addHeading :: "host \<Rightarrow> string \<Rightarrow> json option \<Rightarrow> summary \<Rightarrow> summary" where
  "addHeading h text level = add_element h (wrap (heading_tag level) (Some text) [])"

definition addSeparator :: "host \<Rightarrow> summary \<Rightarrow> summary" where
  "addSeparator h = add_element h (wrap ''hr'' None [])"

definition addBreak :: "host \<Rightarrow> summary \<Rightarrow> summary" where
  "addBreak h = add_element h (wrap ''br'' None [])"

definition addQuote :: "host \<Rightarrow> string \<Rightarrow> string option \<Rightarrow> summary \<Rightarrow> summary" where
  "addQuote h text cite = add_element h (wrap ''blockquote'' (Some text) (attr_if ''cite'' cite))"

definition addLink :: "host \<Rightarrow> string \<Rightarrow> string \<Rightarrow> summary \<Rightarrow> summary" where
  "addLink h text href = add_element h (wrap ''a'' (Some text) [(''href'', href)])"

section \<open>Facts\<close>

lemma add_element_buffer: "sm_buffer (add_element h e s) = sm_buffer s @ e @ eol h"
  by (simp add: add_element_def addEOL_def addRaw_def)

lemma heading_tag_range: "heading_tag l \<in> set [''h1'', ''h2'', ''h3'', ''h4'', ''h5'', ''h6'']"
  by (simp add: heading_tag_def Let_def)

text \<open>The text of a file, empty where there is none.\<close>

definition file_text :: "fsys \<Rightarrow> string \<Rightarrow> string" where
  "file_text fs p = (case fs p of Some (File c _ _ _) \<Rightarrow> c | _ \<Rightarrow> [])"

definition write_target :: "world \<times> summary \<Rightarrow> string" where
  "write_target x = (case sm_filePath (snd x) of Some (c # p) \<Rightarrow> c # p
     | _ \<Rightarrow> env_or SUMMARY_ENV_VAR (fst x))"

lemma fs_access_world: "fs_access h p w = (r, w') \<Longrightarrow> w' = w"
  by (auto simp: fs_access_def thenE_def bindE_def fs_check_def split: option.splits if_splits)

definition stored :: "summary \<Rightarrow> bool" where
  "stored s \<longleftrightarrow> (case sm_filePath s of Some (c # p) \<Rightarrow> True | _ \<Rightarrow> False)"

lemma filePath_stored: "stored s \<Longrightarrow> summary_filePath h (w, s) = (Inr (the (sm_filePath s)), (w, s))"
  by (auto simp: stored_def summary_filePath_def bindE_def split: option.splits list.splits)

lemma filePath_env:
  assumes "\<not> stored s"
  shows "summary_filePath h (w, s) =
    (if env_or SUMMARY_ENV_VAR w = []
     then (Inl (Error (''Unable to find environment variable for $'' @ SUMMARY_ENV_VAR @
                ''. Check if your runtime environment supports job summaries.'')), (w, s))
     else (case fst (fs_access h (env_or SUMMARY_ENV_VAR w) w) of
             Inl e \<Rightarrow> (Inl (if e = Pending then Pending
                else Error (''Unable to access summary file: '' @ [CHR 0x27] @ env_or SUMMARY_ENV_VAR w @ [CHR 0x27] @
                          ''. Check if the file has correct read/write permissions.'')), (w, s))
           | Inr x \<Rightarrow> (Inr (env_or SUMMARY_ENV_VAR w), (w, s\<lparr>sm_filePath := Some (env_or SUMMARY_ENV_VAR w)\<rparr>))))"
proof -
  obtain r where acc: "fs_access h p w = (fst (fs_access h p w), w)" for p
    using fs_access_world by (metis prod.collapse)
  have n: "(case sm_filePath s of Some (c # p) \<Rightarrow> retE (c # p) | _ \<Rightarrow> m) = m" for m :: "string summary_io"
    using assms by (auto simp: stored_def split: option.splits list.splits)
  show ?thesis
  proof (cases "w_env w SUMMARY_ENV_VAR")
    case (Some q)
    then show ?thesis
    proof (cases q)
      case (Cons c p)
      with Some acc [of "c # p"] show ?thesis
        by (cases "fst (fs_access h (c # p) w)")
          (auto simp: summary_filePath_def bindE_def n get_env_def env_or_def thenE_def catchE_def
            on_world_def on_summary_def split: prod.splits)
    qed (simp add: summary_filePath_def bindE_def n get_env_def env_or_def)
  qed (simp add: summary_filePath_def bindE_def n get_env_def env_or_def)
qed

lemma filePath_Inr:
  assumes "summary_filePath h (w, s) = (Inr p, (w', s'))"
  shows "w' = w \<and> p = write_target (w, s) \<and> s' = s\<lparr>sm_filePath := Some p\<rparr>"
proof (cases "stored s")
  case True
  with assms filePath_stored [of s h w] show ?thesis
    by (auto simp: stored_def write_target_def split: option.splits list.splits)
next
  case False
  then have "write_target (w, s) = env_or SUMMARY_ENV_VAR w"
    by (auto simp: stored_def write_target_def split: option.splits list.splits)
  with assms show ?thesis by (auto simp: filePath_env [OF False] split: if_splits sum.splits)
qed

lemma filePath_Inl:
  assumes "summary_filePath h (w, s) = (Inl e, (w', s'))"
  shows "w' = w \<and> s' = s"
  using assms filePath_stored [of s h w]
  by (cases "stored s") (auto simp: filePath_env split: if_splits sum.splits)

lemma write_file_cases:
  "write_file h p t w = (r, w') \<Longrightarrow>
   case r of Inl e \<Rightarrow> w' = w | Inr x \<Rightarrow> file_text (w_fs w') p = t \<and> (\<forall>q. q \<noteq> p \<longrightarrow> w_fs w' q = w_fs w q)"
  by (auto simp: write_file_def thenE_def bindE_def fs_check_def file_text_def
      split: option.splits node.splits)

lemma append_file_cases:
  "append_file h p t w = (r, w') \<Longrightarrow>
   case r of Inl e \<Rightarrow> w' = w
   | Inr x \<Rightarrow> file_text (w_fs w') p = file_text (w_fs w) p @ t \<and> (\<forall>q. q \<noteq> p \<longrightarrow> w_fs w' q = w_fs w q)"
  by (auto simp: append_file_def thenE_def bindE_def fs_check_def file_text_def
      split: option.splits node.splits)

lemma summary_write_cases:
  assumes "summary_write h ov (w, s) = (r, (w', s'))"
  shows "case r of
      Inl e \<Rightarrow> w_fs w' = w_fs w \<and> sm_buffer s' = sm_buffer s
    | Inr x \<Rightarrow> sm_buffer s' = [] \<and>
        file_text (w_fs w') (write_target (w, s)) =
          (if ov then sm_buffer s else file_text (w_fs w) (write_target (w, s)) @ sm_buffer s) \<and>
        (\<forall>q. q \<noteq> write_target (w, s) \<longrightarrow> w_fs w' q = w_fs w q)"
proof -
  obtain r1 w1 s1 where f: "summary_filePath h (w, s) = (r1, (w1, s1))"
    by (metis prod.exhaust)
  show ?thesis
  proof (cases r1)
    case (Inl e)
    with assms f filePath_Inl [of h w s e w1 s1] show ?thesis
      by (auto simp: summary_write_def bindE_def)
  next
    case (Inr p)
    note fp = filePath_Inr [OF f [unfolded Inr]]
    define m where "m = (if ov then write_file h p (sm_buffer s) else append_file h p (sm_buffer s))"
    obtain r2 w2 where r2: "m w = (r2, w2)" by (cases "m w")
    have "r = (case r2 of Inl e \<Rightarrow> Inl e | Inr x \<Rightarrow> Inr ()) \<and> w' = w2 \<and>
        s' = (case r2 of Inl e \<Rightarrow> s1 | Inr x \<Rightarrow> emptyBuffer s1)"
      using assms f r2 [unfolded m_def] fp Inr
      by (cases ov; cases r2) (auto simp: summary_write_def bindE_def thenE_def on_world_def on_summary_def)
    then show ?thesis
      using r2 [unfolded m_def] fp write_file_cases [of h p "sm_buffer s" w r2 w2] append_file_cases [of h p "sm_buffer s" w r2 w2]
      by (cases r2) (auto simp: emptyBuffer_def split: if_splits)
  qed
qed

section \<open>Properties\<close>

text \<open>
  \<open>write\<close> that succeeds puts exactly the buffer into the summary file, behind what was there or,
  with \<open>overwrite\<close>, in its place, changes no other file, and empties the buffer; \<open>write\<close> that fails
  changes no file and keeps the buffer, so nothing is lost and nothing is written twice.
\<close>

theorem summary_write_is_exact:
  assumes "summary_write h overwrite (w, s) = (r, (w', s'))"
  shows "case r of
      Inl e \<Rightarrow> w_fs w' = w_fs w \<and> sm_buffer s' = sm_buffer s
    | Inr x \<Rightarrow> sm_buffer s' = [] \<and>
        file_text (w_fs w') (write_target (w, s)) =
          (if overwrite then sm_buffer s else file_text (w_fs w) (write_target (w, s)) @ sm_buffer s) \<and>
        (\<forall>q. q \<noteq> write_target (w, s) \<longrightarrow> w_fs w' q = w_fs w q)"
  by (rule summary_write_cases [OF assms])

definition summary_world :: world where
  "summary_world = good_world\<lparr>w_env := [''GITHUB_STEP_SUMMARY'' \<mapsto> ''/tmp/summary''],
     w_fs := [''/tmp/summary'' \<mapsto> File ''old'' 420 0 0]\<rparr>"

theorem summary_write_is_exact_witness:
  "file_text (w_fs (fst (snd (summary_write demo_host False (summary_world, addRaw demo_host ''new'' False new_Summary)))))
     ''/tmp/summary'' = ''oldnew''"
proof -
  let ?s = "addRaw demo_host ''new'' False new_Summary"
  let ?run = "summary_write demo_host False (summary_world, ?s)"
  have "fst ?run = Inr ()" "write_target (summary_world, ?s) = ''/tmp/summary''" "sm_buffer ?s = ''new''"
    "file_text (w_fs summary_world) ''/tmp/summary'' = ''old''" by code_simp+
  moreover from this have "?run = (Inr (), (fst (snd ?run), snd (snd ?run)))" by (simp add: prod_eq_iff)
  from summary_write_is_exact [OF this] have "file_text (w_fs (fst (snd ?run))) (write_target (summary_world, ?s)) =
      file_text (w_fs summary_world) (write_target (summary_world, ?s)) @ sm_buffer ?s" by simp
  ultimately show ?thesis by simp
qed

end
