(* ===== verification/UpdateReleases.thy ===== *)
theory UpdateReleases
  imports Sorting Release Summary Doubles
begin

text \<open>
  \<open>.github/scripts/update-releases.mjs\<close>: adds missing ORAS releases to \<open>releases.json\<close>. The global
  \<open>fetch\<close> is an argument, a function from a URL and headers to an answer; the file and the
  environment are the world's.

  A version is a string; the pattern that recognises archive names escapes only its dots, so versions
  are taken to have no other character special to a regular expression. \<open>Number\<close> is modelled on decimal
  integers with an optional sign, rounded to a double, on the empty string, and on strings that are no
  numbers; fractions, exponents and other radices do not occur.
\<close>

section \<open>Fetching\<close>

record fetch_response =
  fr_status :: nat
  fr_statusText :: string
  fr_text :: string

type_synonym fetcher = "string \<Rightarrow> (string \<times> string) list \<Rightarrow> fetch_response res"

definition ORAS_REPO :: string where "ORAS_REPO = ''oras-project/oras''"

definition fetch_ok :: "fetch_response \<Rightarrow> bool" where
  "fetch_ok r \<longleftrightarrow> 200 \<le> fr_status r \<and> fr_status r \<le> 299"

definition get_failed :: "string \<Rightarrow> fetch_response \<Rightarrow> exn" where
  "get_failed url r = Error (''GET '' @ url @ '' -> '' @ show_nat (fr_status r) @ '' '' @ fr_statusText r)"

definition ghFetch :: "host \<Rightarrow> fetcher \<Rightarrow> string \<Rightarrow> json action" where
  "ghFetch h fetch url =
     bindE (getE (env_or ''GITHUB_TOKEN'')) (\<lambda>token.
       let headers = [(''Accept'', ''application/vnd.github+json''), (''User-Agent'', ''setup-oras-update-releases'')] @
             (if token \<noteq> [] then [(''Authorization'', ''Bearer '' @ token)] else []) in
       bindE (liftE (fetch url headers)) (\<lambda>res.
         if \<not> fetch_ok res then throwE (get_failed url res)
         else (case h_json h False (fr_text res) of
                 None \<Rightarrow> throwE (Error ''SyntaxError'') | Some j \<Rightarrow> retE j)))"

definition fetchText :: "fetcher \<Rightarrow> string \<Rightarrow> string res" where
  "fetchText fetch url =
     res_bind (fetch url []) (\<lambda>res. if \<not> fetch_ok res then Inl (get_failed url res) else Inr (fr_text res))"

section \<open>parseChecksums\<close>

text \<open>
  The pattern \<open>^oras_VERSION_([^_]+)_([^.]+)\.(tar\.gz|zip)$\<close>: the platform ends at the first underscore
  and the architecture at the first dot.
\<close>

definition match_filename :: "string \<Rightarrow> string \<Rightarrow> (string \<times> string \<times> string) option" where
  "match_filename version filename =
     (let pre = ''oras_'' @ version @ ''_'' in
      if \<not> starts_with filename pre then None
      else (let rest = drop (length pre) filename;
                platform = takeWhile (\<lambda>c. c \<noteq> CHR ''_'') rest;
                rest2 = drop (length platform) rest in
            if platform = [] \<or> rest2 = [] then None
            else (let arch = takeWhile (\<lambda>c. c \<noteq> CHR ''.'') (tl rest2);
                      ext = drop (length arch) (tl rest2) in
                  if arch = [] \<or> ext \<notin> {''.tar.gz'', ''.zip''} then None
                  else Some (platform, arch, tl ext))))"

definition release_entry :: "string \<Rightarrow> string \<Rightarrow> string \<Rightarrow> release" where
  "release_entry version checksum filename =
     \<lparr>rel_checksum = checksum,
      rel_url = ''https://github.com/'' @ ORAS_REPO @ ''/releases/download/v'' @ version @ ''/'' @ filename\<rparr>"

text \<open>\<open>entry[platform] ??= {}; entry[platform][arch] = ...\<close>\<close>

definition add_entry :: "platforms \<Rightarrow> string \<Rightarrow> string \<Rightarrow> release \<Rightarrow> platforms" where
  "add_entry entry platform arch r =
     (case obj_get entry platform of
        None \<Rightarrow> obj_put entry platform [(arch, r)]
      | Some archs \<Rightarrow> obj_put entry platform (obj_put archs arch r))"

definition checksum_line :: "string \<Rightarrow> platforms \<Rightarrow> string \<Rightarrow> platforms" where
  "checksum_line version entry rawLine =
     (case split_ws (js_trim rawLine) of
        checksum # filename # _ \<Rightarrow>
          (case match_filename version filename of
             None \<Rightarrow> entry
           | Some (platform, arch, ext) \<Rightarrow> add_entry entry platform arch (release_entry version checksum filename))
      | _ \<Rightarrow> entry)"

definition parseChecksums :: "string \<Rightarrow> string \<Rightarrow> platforms res" where
  "parseChecksums text version =
     (let entry = foldl (checksum_line version) [] (split_char CHR 0x0A text) in
      if entry = [] then Inl (Error (''No release artifacts parsed from checksums file for v'' @ version))
      else Inr entry)"

definition checksums_url :: "string \<Rightarrow> string" where
  "checksums_url version =
     ''https://github.com/'' @ ORAS_REPO @ ''/releases/download/v'' @ version @ ''/oras_'' @ version @ ''_checksums.txt''"

definition fetchVersionEntry :: "fetcher \<Rightarrow> string \<Rightarrow> platforms res" where
  "fetchVersionEntry fetch version =
     res_bind (fetchText fetch (checksums_url version)) (\<lambda>text. parseChecksums text version)"

section \<open>Versions\<close>

text \<open>\<open>/^v\d+\.\d+\.\d+$/\<close>\<close>

definition is_release_tag :: "string \<Rightarrow> bool" where
  "is_release_tag t =
     (case t of
        c # v \<Rightarrow> c = CHR ''v'' \<and>
          (case split_char CHR ''.'' v of
             [a, b, d] \<Rightarrow> list_all (\<lambda>p. p \<noteq> [] \<and> list_all is_digit p) [a, b, d]
           | _ \<Rightarrow> False)
      | [] \<Rightarrow> False)"

definition strip_v :: "string \<Rightarrow> string" where
  "strip_v t = (case t of c # v \<Rightarrow> if c = CHR ''v'' then v else t | [] \<Rightarrow> [])"

definition json_field :: "json \<Rightarrow> string \<Rightarrow> json option" where
  "json_field j k = (case j of JObj ps \<Rightarrow> obj_get ps k | _ \<Rightarrow> None)"

definition listed_versions :: "json \<Rightarrow> string list" where
  "listed_versions j =
     (case j of
        JArr rs \<Rightarrow>
          map strip_v (filter is_release_tag
            (map (\<lambda>r. case json_field r ''tag_name'' of Some (JStr t) \<Rightarrow> t | _ \<Rightarrow> ''undefined'')
               (filter (\<lambda>r. \<not> truthy (json_field r ''draft'') \<and> \<not> truthy (json_field r ''prerelease'')) rs)))
      | _ \<Rightarrow> [])"

definition listUpstreamVersions :: "host \<Rightarrow> fetcher \<Rightarrow> string list action" where
  "listUpstreamVersions h fetch =
     bindE (ghFetch h fetch (''https://api.github.com/repos/'' @ ORAS_REPO @ ''/releases?per_page=100''))
       (\<lambda>releases. case releases of
          JArr rs \<Rightarrow> retE (listed_versions releases)
        | _ \<Rightarrow> throwE (TypeError ''releases.filter is not a function''))"

text \<open>A component of a version: absent, not a number, or a number.\<close>

datatype js_number = Undefined | NaN | Num int

definition js_Number :: "string \<Rightarrow> js_number" where
  "js_Number s =
     (let t = js_trim s; value = (\<lambda>d. int (fl53 (nat_of_digits d))) in
      if list_all is_digit t then Num (value t)
      else (case t of
              c # d \<Rightarrow> if d \<noteq> [] \<and> list_all is_digit d
                        then (if c = CHR ''+'' then Num (value d) else if c = CHR ''-'' then Num (- value d) else NaN)
                        else NaN
            | [] \<Rightarrow> NaN))"

definition nth_number :: "js_number list \<Rightarrow> nat \<Rightarrow> js_number" where
  "nth_number xs i = (if i < length xs then xs ! i else Undefined)"

text \<open>\<open>a !== b\<close>, and \<open>a - b\<close>.\<close>

fun number_differs :: "js_number \<Rightarrow> js_number \<Rightarrow> bool" where
  "number_differs (Num a) (Num b) = (a \<noteq> b)"
| "number_differs Undefined Undefined = False"
| "number_differs _ _ = True"

fun number_minus :: "js_number \<Rightarrow> js_number \<Rightarrow> int option" where
  "number_minus (Num a) (Num b) = Some (a - b)"
| "number_minus _ _ = None"

definition version_numbers :: "string \<Rightarrow> js_number list" where
  "version_numbers v = map js_Number (split_char CHR ''.'' v)"

fun compare_from :: "js_number list \<Rightarrow> js_number list \<Rightarrow> nat list \<Rightarrow> int option" where
  "compare_from pa pb [] = Some 0"
| "compare_from pa pb (i # is) =
     (if number_differs (nth_number pa i) (nth_number pb i)
      then number_minus (nth_number pa i) (nth_number pb i)
      else compare_from pa pb is)"

definition compareSemver :: "string \<Rightarrow> string \<Rightarrow> int option" where
  "compareSemver a b = compare_from (version_numbers a) (version_numbers b) [0, 1, 2]"

section \<open>main\<close>

definition release_json :: "release \<Rightarrow> json" where
  "release_json r = JObj [(''checksum'', JStr (rel_checksum r)), (''url'', JStr (rel_url r))]"

definition platforms_json :: "platforms \<Rightarrow> json" where
  "platforms_json ps = JObj (map (\<lambda>(p, as). (p, JObj (map (\<lambda>(a, r). (a, release_json r)) as))) ps)"

definition read_file :: "host \<Rightarrow> string \<Rightarrow> string action" where
  "read_file h p = thenE (fs_check h ''open'' p)
     (\<lambda>w. case w_fs w p of
        Some (File c _ _ _) \<Rightarrow> (Inr c, w)
      | Some Dir \<Rightarrow> (Inl (SysError ''EISDIR'' ''EISDIR: illegal operation on a directory, read''), w)
      | None \<Rightarrow> (Inl (SysError ''ENOENT'' (''ENOENT: no such file or directory, open '' @
                   [CHR 0x27] @ p @ [CHR 0x27])), w))"

definition report_added :: "host \<Rightarrow> string \<Rightarrow> unit action" where
  "report_added h added =
     bindE (getE (env_or ''GITHUB_OUTPUT'')) (\<lambda>f.
       if f = [] then retE () else append_file h f (''ADDED_VERSIONS='' @ added @ [CHR 0x0A]))"

fun add_versions ::
  "fetcher \<Rightarrow> string list \<Rightarrow> (string \<times> json) list \<Rightarrow> (string \<times> json) list action" where
  "add_versions fetch [] releases = retE releases"
| "add_versions fetch (version # vs) releases =
     thenE (console_log (''Adding v'' @ version @ ''...''))
       (bindE (liftE (fetchVersionEntry fetch version)) (\<lambda>entry.
          add_versions fetch vs (obj_put releases version (platforms_json entry))))"

definition sorted_releases :: "(string \<times> json) list \<Rightarrow> (string \<times> json) list" where
  "sorted_releases releases =
     map (\<lambda>k. (k, the (obj_get releases k))) (js_sort compareSemver (map fst releases))"

text \<open>Candidates newer than the newest tracked version; without one, comparing throws.\<close>

definition newer_than :: "string option \<Rightarrow> string list \<Rightarrow> string list res" where
  "newer_than currentMax vs =
     (case currentMax of
        None \<Rightarrow> if vs = [] then Inr [] else Inl (read_of_undefined ''split'')
      | Some m \<Rightarrow> Inr (filter (\<lambda>v. 0 < cmp_value (compareSemver v m)) vs))"

definition last_opt :: "'a list \<Rightarrow> 'a option" where
  "last_opt xs = (if xs = [] then None else Some (last xs))"

definition missing_versions ::
  "host \<Rightarrow> fetcher \<Rightarrow> string list \<Rightarrow> (string \<times> json) list \<Rightarrow> string list action" where
  "missing_versions h fetch cliVersions releases =
     (if cliVersions \<noteq> []
      then retE (filter (\<lambda>v. \<not> in_object v releases) (map strip_v cliVersions))
      else
        bindE (listUpstreamVersions h fetch) (\<lambda>candidates.
          liftE (newer_than (last_opt (js_sort compareSemver (map fst releases)))
                   (filter (\<lambda>v. \<not> in_object v releases) candidates))))"

definition update_main :: "host \<Rightarrow> fetcher \<Rightarrow> string \<Rightarrow> string list \<Rightarrow> unit action" where
  "update_main h fetch RELEASES_JSON cliVersions =
     bindE (read_file h RELEASES_JSON) (\<lambda>raw.
       case h_json h False raw of
         Some (JObj releases) \<Rightarrow>
           bindE (missing_versions h fetch cliVersions releases) (\<lambda>missing.
             if missing = []
             then thenE (console_log ''No new versions to add.'') (report_added h [])
             else
               bindE (add_versions fetch missing releases) (\<lambda>releases'.
               thenE (write_file h RELEASES_JSON
                        (stringify_indent 4 [] (JObj (sorted_releases releases')) @ [CHR 0x0A]))
               (thenE (console_log (''Added '' @ show_nat (length missing) @ '' version(s): '' @ join '', '' missing))
                 (report_added h (join '','' missing)))))
       | _ \<Rightarrow> throwE (Error ''SyntaxError''))"

text \<open>The rejection handler of \<open>main()\<close>; the stack trace is reduced to its first line.\<close>

definition update_releases :: "host \<Rightarrow> fetcher \<Rightarrow> string \<Rightarrow> string list \<Rightarrow> unit action" where
  "update_releases h fetch RELEASES_JSON cliVersions =
     catchE (update_main h fetch RELEASES_JSON cliVersions)
       (\<lambda>err. thenE (write_err (err_to_string err @ [CHR 0x0A])) (set_exit_code 1))"

section \<open>Comparing versions\<close>

definition plain_version :: "string \<Rightarrow> bool" where
  "plain_version v \<longleftrightarrow> is_release_tag (CHR ''v'' # v)"

text \<open>The double a string of digits denotes, and the three numbers of a plain version.\<close>

definition digits_value :: "string \<Rightarrow> int" where
  "digits_value s = int (fl53 (nat_of_digits s))"

definition triple_of :: "string \<Rightarrow> int \<times> int \<times> int" where
  "triple_of v = (case split_char CHR ''.'' v of
     [a, b, c] \<Rightarrow> (digits_value a, digits_value b, digits_value c) | _ \<Rightarrow> (0, 0, 0))"

lemma digits_no_ws: "is_digit c \<Longrightarrow> \<not> is_ws c"
  by (auto simp: is_digit_def is_ws_def Let_def)

lemma trim_digits: "list_all is_digit s \<Longrightarrow> js_trim s = s"
proof -
  assume d: "list_all is_digit s"
  have "dropWhile is_ws t = t" if "list_all is_digit t" for t
    using that digits_no_ws by (cases t) auto
  from this [OF d] this [of "rev s"] d show ?thesis
    by (simp add: js_trim_def js_trim_start_def js_trim_end_def list_all_iff)
qed

lemma js_Number_digits: "list_all is_digit s \<Longrightarrow> js_Number s = Num (digits_value s)"
  by (simp add: js_Number_def trim_digits digits_value_def)

lemma plain_versionE:
  assumes "plain_version v"
  obtains a b c where "split_char CHR ''.'' v = [a, b, c]"
    "version_numbers v = [Num (digits_value a), Num (digits_value b), Num (digits_value c)]"
    "triple_of v = (digits_value a, digits_value b, digits_value c)"
  using assms
  by (auto simp: plain_version_def is_release_tag_def version_numbers_def js_Number_digits
      triple_of_def split: list.splits)

definition triple_cmp :: "int \<times> int \<times> int \<Rightarrow> int \<times> int \<times> int \<Rightarrow> int" where
  "triple_cmp x y = (case (x, y) of ((a, b, c), (d, e, f)) \<Rightarrow>
     if a \<noteq> d then a - d else if b \<noteq> e then b - e else c - f)"

lemma compareSemver_plain:
  assumes "plain_version v" "plain_version u"
  shows "compareSemver v u = Some (triple_cmp (triple_of v) (triple_of u))"
  using assms
  by (elim plain_versionE) (simp add: compareSemver_def nth_number_def triple_cmp_def)

interpretation semver_order: comparator compareSemver plain_version
proof
  fix x y z
  show "plain_version x \<Longrightarrow> cmp_value (compareSemver x x) = 0"
    by (simp add: compareSemver_plain cmp_value_def triple_cmp_def split: prod.split)
  show "plain_version x \<Longrightarrow> plain_version y \<Longrightarrow>
      cmp_value (compareSemver y x) < 0 \<longleftrightarrow> 0 < cmp_value (compareSemver x y)"
    by (auto simp: compareSemver_plain cmp_value_def triple_cmp_def split: prod.split)
  show "plain_version x \<Longrightarrow> plain_version y \<Longrightarrow> plain_version z \<Longrightarrow> cmp_value (compareSemver x y) \<le> 0 \<Longrightarrow>
      cmp_value (compareSemver y z) \<le> 0 \<Longrightarrow> cmp_value (compareSemver x z) \<le> 0"
    by (auto simp: compareSemver_plain cmp_value_def triple_cmp_def split: prod.splits if_splits)
qed

text \<open>Listed versions are plain.\<close>

lemma listed_plain: "v \<in> set (listed_versions j) \<Longrightarrow> plain_version v"
proof -
  have tag: "plain_version (strip_v t)" if "is_release_tag t" for t
  proof -
    have "t \<noteq> []" using that by (auto simp: is_release_tag_def)
    then obtain c u where t: "t = c # u" by (cases t) auto
    with that have "c = CHR ''v''" by (simp add: is_release_tag_def)
    with that t show ?thesis by (simp add: plain_version_def strip_v_def)
  qed
  assume "v \<in> set (listed_versions j)"
  then obtain t where "is_release_tag t" "v = strip_v t"
    by (cases j) (auto simp: listed_versions_def)
  with tag show ?thesis by simp
qed

section \<open>Reading what a release publishes\<close>

text \<open>A checksum file as a release publishes it: one line per archive.\<close>

definition archive_name :: "string \<Rightarrow> string \<Rightarrow> string \<Rightarrow> string \<Rightarrow> string" where
  "archive_name version platform arch ext =
     ''oras_'' @ version @ ''_'' @ platform @ ''_'' @ arch @ ''.'' @ ext"

definition plain_part :: "string \<Rightarrow> bool" where
  "plain_part s \<longleftrightarrow> s \<noteq> [] \<and> (\<forall>c\<in>set s. \<not> is_ws c \<and> c \<noteq> CHR ''_'' \<and> c \<noteq> CHR ''.'')"

lemma match_archive_name:
  assumes "plain_part platform" "plain_part arch" "ext = ''tar.gz'' \<or> ext = ''zip''"
  shows "match_filename version (archive_name version platform arch ext) = Some (platform, arch, ext)"
proof -
  have p: "takeWhile (\<lambda>c. c \<noteq> CHR ''_'') (platform @ CHR ''_'' # s) = platform" for s
    using assms(1) by (subst takeWhile_append2) (auto simp: plain_part_def)
  have a: "takeWhile (\<lambda>c. c \<noteq> CHR ''.'') (arch @ CHR ''.'' # s) = arch" for s
    using assms(2) by (subst takeWhile_append2) (auto simp: plain_part_def)
  have n: "archive_name version platform arch ext =
      (''oras_'' @ version @ ''_'') @ platform @ CHR ''_'' # arch @ CHR ''.'' # ext"
    by (simp add: archive_name_def)
  show ?thesis
    unfolding match_filename_def Let_def n starts_with_self_append append_eq_conv_conj
    using assms p a by (auto simp: plain_part_def simp del: append_assoc)
qed

lemma split_ws_plain: "\<forall>c\<in>set a. \<not> is_ws c \<Longrightarrow> split_ws a = [a]"
  by (induction a) auto

lemma split_ws_append:
  "\<forall>c\<in>set a. \<not> is_ws c \<Longrightarrow> is_ws d \<Longrightarrow> split_ws (a @ d # s) = a # split_ws (dropWhile is_ws s)"
  by (induction a) auto

definition checksum_text :: "string \<Rightarrow> string \<times> string \<times> string \<times> string \<Rightarrow> string" where
  "checksum_text version x = (case x of (dig, platform, arch, ext) \<Rightarrow>
     dig @ ''  '' @ archive_name version platform arch ext)"

definition plain_text :: "string \<Rightarrow> bool" where
  "plain_text s \<longleftrightarrow> s \<noteq> [] \<and> (\<forall>c\<in>set s. \<not> is_ws c)"

definition plain_entry :: "string \<times> string \<times> string \<times> string \<Rightarrow> bool" where
  "plain_entry x = (case x of (dig, platform, arch, ext) \<Rightarrow>
     plain_text dig \<and> plain_part platform \<and> plain_part arch \<and> ext \<in> {''tar.gz'', ''zip''})"

definition put_entry :: "string \<Rightarrow> platforms \<Rightarrow> string \<times> string \<times> string \<times> string \<Rightarrow> platforms" where
  "put_entry version entry x = (case x of (dig, platform, arch, ext) \<Rightarrow>
     add_entry entry platform arch (release_entry version dig (archive_name version platform arch ext)))"

lemma checksum_line_text:
  assumes "plain_text version" "plain_entry x"
  shows "checksum_line version entry (checksum_text version x) = put_entry version entry x"
proof -
  obtain dig platform arch ext where x: "x = (dig, platform, arch, ext)" by (cases x)
  let ?n = "archive_name version platform arch ext"
  have e: "ext = ''tar.gz'' \<or> ext = ''zip''" and s: "plain_text dig"
    and pa: "plain_part platform" "plain_part arch" using assms x by (auto simp: plain_entry_def)
  have ext: "\<forall>c\<in>set ext. \<not> is_ws c" and le: "ext \<noteq> []" using e by (auto simp: is_ws_def)
  have w: "\<not> is_ws CHR ''o''" "\<not> is_ws CHR ''r''" "\<not> is_ws CHR ''a''" "\<not> is_ws CHR ''s''" "\<not> is_ws CHR ''_''"
    "\<not> is_ws CHR ''.''" by (simp_all add: is_ws_def)
  have n: "\<forall>c\<in>set ?n. \<not> is_ws c"
    using assms(1) pa ext w by (auto simp: archive_name_def plain_text_def plain_part_def)
  have "last (dig @ ''  '' @ ?n) = last ext" using le by (simp add: archive_name_def)
  moreover have "\<not> is_ws (last ext)" using ext le by simp
  moreover have "dig \<noteq> []" "\<not> is_ws (hd dig)" using s by (auto simp: plain_text_def)
  ultimately have "js_trim (dig @ ''  '' @ ?n) = dig @ ''  '' @ ?n"
    by (intro trim_plain) (simp_all only: append_is_Nil_conv hd_append2 simp_thms)
  then have t: "js_trim (checksum_text version x) = dig @ ''  '' @ ?n"
    by (simp only: checksum_text_def x prod.case)
  have "\<not> is_ws (CHR ''o'')" by (simp add: is_ws_def)
  then have d: "dropWhile is_ws (CHR '' '' # ?n) = ?n" by (simp add: archive_name_def is_ws_def)
  have sp: "is_ws (CHR '' '')" and s': "\<forall>c\<in>set dig. \<not> is_ws c" using s by (simp_all add: plain_text_def is_ws_def)
  have "split_ws (dig @ ''  '' @ ?n) = [dig, ?n]"
    using split_ws_append [OF s' sp, of "CHR '' '' # ?n"] unfolding d split_ws_plain [OF n] by simp
  then show ?thesis
    unfolding checksum_line_def t using match_archive_name [OF pa e, of version] by (simp add: put_entry_def x)
qed

lemma checksum_text_no_newline:
  assumes "plain_text version" "plain_entry x"
  shows "CHR 0x0A \<notin> set (checksum_text version x)"
proof -
  obtain dig platform arch ext where x: "x = (dig, platform, arch, ext)" by (cases x)
  have nl: "is_ws (CHR 0x0A)" by (simp add: is_ws_def)
  have "CHR 0x0A \<notin> set dig" "CHR 0x0A \<notin> set version" "CHR 0x0A \<notin> set platform" "CHR 0x0A \<notin> set arch"
    using assms nl by (auto simp: x plain_entry_def plain_text_def plain_part_def)
  moreover have "CHR 0x0A \<notin> set ext" using assms(2) by (auto simp: x plain_entry_def)
  ultimately show ?thesis by (simp add: checksum_text_def x archive_name_def)
qed

lemma parse_published:
  assumes "plain_text version" "list_all plain_entry xs" "xs \<noteq> []"
  shows "parseChecksums (join [CHR 0x0A] (map (checksum_text version) xs)) version =
    Inr (foldl (put_entry version) [] xs)"
proof -
  have "split_char CHR 0x0A (join [CHR 0x0A] (map (checksum_text version) xs)) = map (checksum_text version) xs"
    by (rule split_join) (use assms checksum_text_no_newline in \<open>auto simp: list_all_iff\<close>)
  moreover have "foldl (checksum_line version) e (map (checksum_text version) xs) = foldl (put_entry version) e xs" for e
    using assms(2) by (induction xs arbitrary: e) (simp_all add: checksum_line_text [OF assms(1)])
  moreover have "foldl (put_entry version) e xs \<noteq> []" if "e \<noteq> [] \<or> xs \<noteq> []" for e
    using that by (induction xs arbitrary: e)
      (auto simp: put_entry_def add_entry_def split: prod.splits option.splits)
  ultimately show ?thesis using assms(3) by (simp add: parseChecksums_def)
qed

lemma obj_get_member: "obj_get ob k \<noteq> None \<longleftrightarrow> k \<in> fst ` set ob"
  by (auto simp: obj_get_def map_of_eq_None_iff)

lemma sorted_releases_get: "obj_get (sorted_releases rs) v = obj_get rs v"
  using obj_get_member [of rs v]
  by (auto simp: sorted_releases_def obj_get_def map_of_map_restrict restrict_map_def)

text \<open>The entries \<open>add_versions\<close> leaves, and what it writes.\<close>

definition extends :: "fetcher \<Rightarrow> string list \<Rightarrow> (string \<times> json) list \<Rightarrow> (string \<times> json) list \<Rightarrow> bool" where
  "extends fetch vs rs rs' \<longleftrightarrow>
     (\<forall>v. if v \<in> set vs then \<exists>ps. fetchVersionEntry fetch v = Inr ps \<and> obj_get rs' v = Some (platforms_json ps)
          else obj_get rs' v = obj_get rs v)"

lemma add_versions_frame:
  "add_versions fetch vs rs w = (r, w') \<Longrightarrow> w_fs w' = w_fs w \<and> w_env w' = w_env w"
proof (induction vs arbitrary: rs w)
  case (Cons v vs)
  then show ?case
    by (auto simp: thenE_def bindE_def console_log_def write_out_def split: sum.splits)
qed simp

lemma add_versions_Inr: "add_versions fetch vs rs w = (Inr rs', w') \<Longrightarrow> extends fetch vs rs rs'"
proof (induction vs arbitrary: rs w)
  case (Cons v vs)
  from Cons.prems obtain u1 w1 ps w2 where "fetchVersionEntry fetch v = Inr ps" "w2 = w1"
    and "add_versions fetch vs (obj_put rs v (platforms_json ps)) w2 = (Inr rs', w')"
    unfolding add_versions.simps thenE_def by (elim bindE_InrE) simp
  with Cons.IH [OF this(3)] show ?case by (auto simp: extends_def obj_get_put split: if_splits)
qed (simp add: extends_def)

lemma ghFetch_world: "snd (ghFetch h fetch url w) = w"
  by (auto simp: ghFetch_def bindE_def Let_def split: sum.splits option.splits)

lemma missing_versions_cases:
  assumes "missing_versions h fetch cli rs w = (r, w')"
  shows "w' = w \<and> (\<forall>vs. r = Inr vs \<longrightarrow> (\<forall>v\<in>set vs. obj_get rs v = None))"
proof -
  have new: "obj_get rs v = None" if "\<not> in_object v rs" for v using that by (simp add: in_object_def)
  have up: "snd (listUpstreamVersions h fetch w) = w"
    using ghFetch_world [of h fetch _ w]
    by (auto simp: listUpstreamVersions_def bindE_def split: prod.splits sum.splits json.splits) (metis snd_conv)+
  show ?thesis
  proof (cases "cli = []")
    case False
    then show ?thesis using assms new by (auto simp: missing_versions_def)
  next
    case True
    then show ?thesis using assms new up
      by (auto simp: missing_versions_def bindE_def newer_than_def split: prod.splits sum.splits option.splits if_splits)
  qed
qed

lemma report_added_frame:
  assumes "report_added h t w = (r, w')" "env_or ''GITHUB_OUTPUT'' w \<noteq> p"
  shows "w_fs w' p = w_fs w p"
  using assms append_file_cases [of h "env_or ''GITHUB_OUTPUT'' w" "''ADDED_VERSIONS='' @ t @ [CHR 0x0A]" w r w']
  by (cases r) (auto simp: report_added_def bindE_def split: if_splits)

definition written_releases :: "fetcher \<Rightarrow> (string \<times> json) list \<Rightarrow> string \<Rightarrow> bool" where
  "written_releases fetch rs t \<longleftrightarrow>
     (\<exists>vs rs'. t = stringify_indent 4 [] (JObj rs') @ [CHR 0x0A] \<and> (\<forall>v\<in>set vs. obj_get rs v = None) \<and>
        extends fetch vs rs rs')"

abbreviation publish_rest :: "host \<Rightarrow> string \<Rightarrow> string list \<Rightarrow> (string \<times> json) list \<Rightarrow> unit action" where
  "publish_rest h R vs rs' \<equiv>
     thenE (write_file h R (stringify_indent 4 [] (JObj (sorted_releases rs')) @ [CHR 0x0A]))
       (thenE (console_log (''Added '' @ show_nat (length vs) @ '' version(s): '' @ join '', '' vs))
         (report_added h (join '','' vs)))"

lemma publish_rest_cases:
  assumes run: "publish_rest h R vs rs' w = (r, w')" and out: "env_or ''GITHUB_OUTPUT'' w \<noteq> R"
  shows "w_fs w' R = w_fs w R \<or>
    file_text (w_fs w') R = stringify_indent 4 [] (JObj (sorted_releases rs')) @ [CHR 0x0A]"
proof -
  let ?t = "stringify_indent 4 [] (JObj (sorted_releases rs')) @ [CHR 0x0A]"
  obtain f w1 where wr: "write_file h R ?t w = (f, w1)" by fastforce
  show ?thesis
  proof (cases f)
    case (Inl e)
    with wr write_file_cases [OF wr] run show ?thesis by (auto simp: bindE_def thenE_def)
  next
    case (Inr x)
    have env: "w_env w1 = w_env w" using wr
      by (auto simp: write_file_def thenE_def bindE_def fs_check_def split: option.splits node.splits)
    have "report_added h (join '','' vs) (snd (console_log (''Added '' @ show_nat (length vs) @
        '' version(s): '' @ join '', '' vs) w1)) = (r, w')"
      using run wr Inr by (simp add: bindE_def thenE_def console_log_def write_out_def)
    from report_added_frame [OF this, of R] out env have "w_fs w' R = w_fs w1 R"
      by (simp add: console_log_def write_out_def env_or_def)
    with write_file_cases [OF wr] Inr show ?thesis by (simp add: file_text_def)
  qed
qed

lemma publish_cases:
  assumes run: "bindE (add_versions fetch vs rs) (publish_rest h R vs) w = (r, w')"
    and fresh: "\<forall>v\<in>set vs. obj_get rs v = None" and out: "env_or ''GITHUB_OUTPUT'' w \<noteq> R"
  shows "w_fs w' R = w_fs w R \<or> written_releases fetch rs (file_text (w_fs w') R)"
proof -
  obtain a w1 where add: "add_versions fetch vs rs w = (a, w1)" by fastforce
  note frame = add_versions_frame [OF add]
  show ?thesis
  proof (cases a)
    case (Inl e)
    with run add frame show ?thesis by (auto simp: bindE_def)
  next
    case (Inr rs')
    have "extends fetch vs rs (sorted_releases rs')"
      using add_versions_Inr [OF add [unfolded Inr]] by (simp add: extends_def sorted_releases_get)
    moreover have "publish_rest h R vs rs' w1 = (r, w')" using run add Inr by (simp add: bindE_def)
    from publish_rest_cases [OF this] frame out have "w_fs w' R = w_fs w R \<or>
        file_text (w_fs w') R = stringify_indent 4 [] (JObj (sorted_releases rs')) @ [CHR 0x0A]"
      by (simp add: env_or_def)
    ultimately show ?thesis using fresh unfolding written_releases_def by blast
  qed
qed

lemma update_main_cases:
  assumes raw: "w_fs w R = Some (File raw md u g)" and rs: "h_json h False raw = Some (JObj rs)"
    and out: "env_or ''GITHUB_OUTPUT'' w \<noteq> R" and run: "update_main h fetch R cli w = (r, w')"
  shows "w_fs w' R = w_fs w R \<or> written_releases fetch rs (file_text (w_fs w') R)"
proof (cases "h_fail h ''open'' R (w_fs w)")
  case (Some e)
  then show ?thesis
    using run by (auto simp: update_main_def read_file_def fs_check_def thenE_def bindE_def split: option.splits)
next
  case None
  then have read: "read_file h R w = (Inr raw, w)"
    using raw by (simp add: read_file_def fs_check_def thenE_def bindE_def)
  obtain m where m: "missing_versions h fetch cli rs w = (m, w)"
    using missing_versions_cases by (metis surj_pair)
  show ?thesis
  proof (cases m)
    case (Inl e)
    then show ?thesis using run read rs m by (auto simp: update_main_def bindE_def)
  next
    case (Inr vs)
    then have fresh: "\<forall>v\<in>set vs. obj_get rs v = None" using missing_versions_cases [OF m] by simp
    show ?thesis
    proof (cases "vs = []")
      case True
      then have "report_added h [] (snd (console_log ''No new versions to add.'' w)) = (r, w')"
        using run read rs m Inr by (simp add: update_main_def bindE_def thenE_def console_log_def write_out_def)
      from report_added_frame [OF this, of R] out show ?thesis
        by (simp add: console_log_def write_out_def env_or_def)
    next
      case False
      then have "bindE (add_versions fetch vs rs) (publish_rest h R vs) w = (r, w')"
        using run read rs m Inr by (simp add: update_main_def bindE_def [of "read_file h R"]
            bindE_def [of "missing_versions h fetch cli rs"])
      from publish_cases [OF this fresh out] show ?thesis .
    qed
  qed
qed

lemma update_releases_cases:
  assumes "w_fs w R = Some (File raw md u g)" "h_json h False raw = Some (JObj rs)"
    and "env_or ''GITHUB_OUTPUT'' w \<noteq> R" and run: "update_releases h fetch R cli w = (r, w')"
  shows "w_fs w' R = w_fs w R \<or> written_releases fetch rs (file_text (w_fs w') R)"
proof -
  obtain m w1 where m: "update_main h fetch R cli w = (m, w1)" by fastforce
  have "w_fs w' = w_fs w1"
    using run m by (auto simp: update_releases_def catchE_def thenE_def bindE_def write_err_def set_exit_code_def
        split: sum.splits if_splits)
  with update_main_cases [OF assms(1-3) m] show ?thesis by simp
qed

section \<open>Properties\<close>

text \<open>
  C12: a run of the update script, whatever the network answers, either leaves \<open>releases.json\<close> as it was
  or writes a file in which every release that was there is unchanged and every new one is exactly what
  was parsed from the checksum file the project publishes for that version.
\<close>

theorem update_keeps_releases:
  assumes "w_fs w R = Some (File raw md u g)" "h_json h False raw = Some (JObj rs)"
    and "env_or ''GITHUB_OUTPUT'' w \<noteq> R" and "update_releases h fetch R cli w = (r, w')"
  shows "w_fs w' R = w_fs w R \<or>
    (\<exists>rs'. file_text (w_fs w') R = stringify_indent 4 [] (JObj rs') @ [CHR 0x0A] \<and>
      (\<forall>v. obj_get rs v \<noteq> None \<longrightarrow> obj_get rs' v = obj_get rs v) \<and>
      (\<forall>v. obj_get rs' v \<noteq> obj_get rs v \<longrightarrow>
         (\<exists>ps. fetchVersionEntry fetch v = Inr ps \<and> obj_get rs' v = Some (platforms_json ps))))"
  using update_releases_cases [OF assms] unfolding written_releases_def extends_def by metis

definition update_host :: host where
  "update_host = demo_host\<lparr>h_json := (\<lambda>d s. Some (JObj [(''1.3.3'', JObj [])]))\<rparr>"

definition update_world :: world where
  "update_world = good_world\<lparr>w_fs := [''releases.json'' \<mapsto> File ''{}'' 420 0 0]\<rparr>"

definition update_fetch :: fetcher where
  "update_fetch url hs = Inr \<lparr>fr_status = 200, fr_statusText = [],
     fr_text = ''c0ffee  oras_1.4.0_linux_amd64.tar.gz''\<rparr>"

definition update_run :: "unit res \<times> world" where
  "update_run = update_releases update_host update_fetch ''releases.json'' [''v1.4.0''] update_world"

theorem update_keeps_releases_witness:
  "file_text (w_fs (snd update_run)) ''releases.json'' \<noteq> file_text (w_fs update_world) ''releases.json'' \<and>
   (\<exists>rs'. file_text (w_fs (snd update_run)) ''releases.json'' = stringify_indent 4 [] (JObj rs') @ [CHR 0x0A] \<and>
      obj_get rs' ''1.3.3'' = Some (JObj []))"
proof -
  have f: "w_fs update_world ''releases.json'' = Some (File ''{}'' 420 0 0)" by (simp add: update_world_def)
  have j: "h_json update_host False ''{}'' = Some (JObj [(''1.3.3'', JObj [])])" by (simp add: update_host_def)
  have o: "env_or ''GITHUB_OUTPUT'' update_world \<noteq> ''releases.json''" by code_simp
  have r: "update_releases update_host update_fetch ''releases.json'' [''v1.4.0''] update_world = (fst update_run, snd update_run)"
    by (simp add: update_run_def)
  have n: "file_text (w_fs (snd update_run)) ''releases.json'' \<noteq> file_text (w_fs update_world) ''releases.json''"
    by code_simp
  then have "w_fs (snd update_run) ''releases.json'' \<noteq> w_fs update_world ''releases.json''"
    by (auto simp: file_text_def)
  with update_keeps_releases [OF f j o r] n show ?thesis by (auto simp: obj_get_def)
qed

text \<open>
  Sorting plain versions orders them by their numbers, not as text, keeps every version, and puts
  the greatest last, which is what the script takes as the newest tracked release.
\<close>

theorem versions_sorted_numerically:
  assumes "list_all plain_version vs"
  shows "mset (js_sort compareSemver vs) = mset vs \<and>
    sorted_wrt (\<lambda>v u. triple_cmp (triple_of v) (triple_of u) \<le> 0) (js_sort compareSemver vs) \<and>
    (\<forall>m. last_opt (js_sort compareSemver vs) = Some m \<longrightarrow>
       (\<forall>v\<in>set vs. triple_cmp (triple_of v) (triple_of m) \<le> 0))"
proof -
  have le: "semver_order.le v u \<longleftrightarrow> triple_cmp (triple_of v) (triple_of u) \<le> 0" if "v \<in> set vs" "u \<in> set vs" for v u
    using that assms by (simp add: semver_order.le_def compareSemver_plain cmp_value_def list_all_iff)
  have "sorted_wrt semver_order.le (js_sort compareSemver vs)" by (rule semver_order.sort_sorted [OF assms])
  then have "sorted_wrt (\<lambda>v u. triple_cmp (triple_of v) (triple_of u) \<le> 0) (js_sort compareSemver vs)"
    by (rule sorted_wrt_mono_rel [rotated]) (simp add: le)
  moreover have "triple_cmp (triple_of v) (triple_of m) \<le> 0"
    if m: "last_opt (js_sort compareSemver vs) = Some m" and v: "v \<in> set vs" for m v
  proof -
    have "m \<in> set vs" using m by (auto simp: last_opt_def split: if_splits)
        (metis last_in_set set_js_sort)
    with semver_order.last_greatest [OF assms v] m v le show ?thesis
      by (auto simp: last_opt_def split: if_splits)
  qed
  ultimately show ?thesis by simp
qed

theorem versions_sorted_numerically_witness:
  "sorted_wrt (\<lambda>v u. triple_cmp (triple_of v) (triple_of u) \<le> 0)
     (js_sort compareSemver [''1.10.0'', ''1.9.0'', ''1.2.3''])"
proof -
  have "list_all plain_version [''1.10.0'', ''1.9.0'', ''1.2.3'']" by code_simp
  from versions_sorted_numerically [OF this] show ?thesis by blast
qed

text \<open>What a release says for a platform and an architecture.\<close>

definition release_found :: "platforms \<Rightarrow> string \<Rightarrow> string \<Rightarrow> release option" where
  "release_found ps p a = (case obj_get ps p of None \<Rightarrow> None | Some archs \<Rightarrow> obj_get archs a)"

definition key_of :: "string \<times> string \<times> string \<times> string \<Rightarrow> string \<times> string" where
  "key_of x = (fst (snd x), fst (snd (snd x)))"

definition published :: "string \<Rightarrow> string \<times> string \<times> string \<times> string \<Rightarrow> release" where
  "published version x = (case x of (dig, p, a, ext) \<Rightarrow> release_entry version dig (archive_name version p a ext))"

lemma obj_get_single: "obj_get [(k, v)] j = (if j = k then Some v else None)"
  by (simp add: obj_get_def)

lemma lookup_put_entry:
  "release_found (put_entry version e x) p a =
     (if key_of x = (p, a) then Some (published version x) else release_found e p a)"
  by (cases x) (auto simp: release_found_def put_entry_def add_entry_def key_of_def published_def obj_get_put
      obj_get_single split: option.splits)

lemma lookup_put_entries:
  "distinct (map key_of xs) \<Longrightarrow>
   release_found (foldl (put_entry version) e xs) p a =
     (case find (\<lambda>x. key_of x = (p, a)) xs of None \<Rightarrow> release_found e p a | Some x \<Rightarrow> Some (published version x))"
proof (induction xs arbitrary: e)
  case (Cons x xs)
  have "find (\<lambda>y. key_of y = (p, a)) xs = None" if "key_of x = (p, a)"
    using that Cons.prems by (auto simp: find_None_iff image_iff)
  with Cons show ?case by (auto simp: lookup_put_entry split: option.splits)
qed simp

text \<open>
  Parsing the checksum file that a release publishes is exact: for every platform and architecture
  it finds the archive published for it, with its digest and download address, and it finds nothing
  for the others.
\<close>

theorem checksums_roundtrip:
  assumes "plain_text version" "list_all plain_entry xs" "xs \<noteq> []" "distinct (map key_of xs)"
  shows "\<exists>ps. parseChecksums (join [CHR 0x0A] (map (checksum_text version) xs)) version = Inr ps \<and>
    (\<forall>p a. release_found ps p a = map_option (published version) (find (\<lambda>x. key_of x = (p, a)) xs))"
  using parse_published [OF assms(1-3)] lookup_put_entries [OF assms(4), of version "[]"]
  by (auto simp: release_found_def obj_get_def option.case_eq_if split: option.split)

theorem checksums_roundtrip_witness:
  "\<exists>ps. parseChecksums (join [CHR 0x0A] (map (checksum_text ''1.3.3'')
       [(''beef'', ''linux'', ''amd64'', ''tar.gz''), (''c0ffee'', ''windows'', ''amd64'', ''zip'')])) ''1.3.3'' = Inr ps \<and>
     release_found ps ''windows'' ''amd64'' =
       Some (published ''1.3.3'' (''c0ffee'', ''windows'', ''amd64'', ''zip'')) \<and>
     release_found ps ''darwin'' ''amd64'' = None"
proof -
  let ?xs = "[(''beef'', ''linux'', ''amd64'', ''tar.gz''), (''c0ffee'', ''windows'', ''amd64'', ''zip'')]"
  have "plain_text ''1.3.3''" "list_all plain_entry ?xs" "?xs \<noteq> []" "distinct (map key_of ?xs)" by code_simp+
  from checksums_roundtrip [OF this] show ?thesis by (auto simp: key_of_def)
qed

end
