(* ===== verification/Licenses.thy ===== *)
theory Licenses
  imports UpdateReleases HttpClient "HOL-Library.List_Lexorder" "HOL-Library.Char_ord" Machine
begin

text \<open>
  \<open>scripts/generate-licenses.js\<close>: collects the packages of a bundle from esbuild's metafile and writes
  their licence texts. The script is one straight run over the file system; the pattern that finds a
  package in the path of an input file is \<open>match_package\<close>.
\<close>

section \<open>The pattern\<close>

definition NODE_MODULES :: string where "NODE_MODULES = ''node_modules/''"

text \<open>
  \<open>(@[^/]+\/[^/]+|[^/@][^/]*)\/\<close> at the start of a string: a scoped name, or one that starts with
  neither \<open>/\<close> nor \<open>@\<close>; a slash follows.
\<close>

definition segment :: "string \<Rightarrow> string" where
  "segment s = takeWhile (\<lambda>c. c \<noteq> CHR ''/'') s"

definition package_name :: "string \<Rightarrow> string option" where
  "package_name s =
     (case s of
        [] \<Rightarrow> None
      | c # rest \<Rightarrow>
          if c = CHR ''@''
          then (let scope = segment rest; after = drop (length scope) rest in
                if scope = [] \<or> after = [] then None
                else (let name = segment (tl after); after2 = drop (length name) (tl after) in
                      if name = [] \<or> after2 = [] then None
                      else Some (CHR ''@'' # scope @ ''/'' @ name)))
          else (let name = segment s; after = drop (length name) s in
                if name = [] \<or> after = [] then None else Some name))"

text \<open>
  \<open>^((?:.*\/)?node_modules\/)(...)\/\<close>: the last \<open>node_modules/\<close> that starts the path or follows a slash
  and has a package name after it.
\<close>

definition match_at :: "string \<Rightarrow> nat \<Rightarrow> (string \<times> string) option" where
  "match_at p i =
     (if (i = 0 \<or> p ! (i - 1) = CHR ''/'' \<and> list_all (\<lambda>c. c \<noteq> CHR 0x0A \<and> c \<noteq> CHR 0x0D) (take i p)) \<and>
         starts_with (drop i p) NODE_MODULES
      then map_option (\<lambda>n. (take (i + length NODE_MODULES) p, n)) (package_name (drop (i + length NODE_MODULES) p))
      else None)"

fun first_some :: "('a \<Rightarrow> 'b option) \<Rightarrow> 'a list \<Rightarrow> 'b option" where
  "first_some f [] = None"
| "first_some f (x # xs) = (case f x of Some y \<Rightarrow> Some y | None \<Rightarrow> first_some f xs)"

definition match_package :: "string \<Rightarrow> (string \<times> string) option" where
  "match_package p = first_some (match_at p) (rev [0..<length p])"

section \<open>Collecting\<close>

text \<open>\<open>if (!pkgPaths[pkgName])\<close>: an inherited property counts as present.\<close>

definition collect_step :: "(string \<times> string) list \<Rightarrow> string \<Rightarrow> (string \<times> string) list" where
  "collect_step pkgPaths inputFile =
     (case match_package inputFile of
        None \<Rightarrow> pkgPaths
      | Some (dir, pkgName) \<Rightarrow>
          if in_object pkgName pkgPaths then pkgPaths else obj_put pkgPaths pkgName (dir @ pkgName))"

definition collect :: "string list \<Rightarrow> (string \<times> string) list" where
  "collect inputs = foldl collect_step [] inputs"

text \<open>The default order of \<open>sort\<close>: an entry is compared as the string \<open>name,dir\<close>.\<close>

definition entry_text :: "string \<times> string \<Rightarrow> string" where
  "entry_text e = fst e @ '','' @ snd e"

definition entry_cmp :: "string \<times> string \<Rightarrow> string \<times> string \<Rightarrow> int option" where
  "entry_cmp a b =
     Some (if entry_text a < entry_text b then -1 else if entry_text b < entry_text a then 1 else 0)"

definition LICENSE_FILES :: "string list" where
  "LICENSE_FILES = [''LICENSE'', ''LICENSE.md'', ''LICENSE.txt'', ''LICENCE'', ''license'', ''license.md'']"

fun license_text :: "host \<Rightarrow> string \<Rightarrow> string list \<Rightarrow> string action" where
  "license_text h pkgDir [] = retE []"
| "license_text h pkgDir (candidate # cs) =
     bindE (getE (fs_exists (h_join h pkgDir candidate))) (\<lambda>ex.
       if ex then bindE (read_file h (h_join h pkgDir candidate)) (\<lambda>t. retE (js_trim_end t))
       else license_text h pkgDir cs)"

definition license_entry :: "host \<Rightarrow> string \<times> string \<Rightarrow> string action" where
  "license_entry h e =
     bindE (read_file h (h_join h (snd e) ''package.json'')) (\<lambda>t.
       case h_json h False t of
         None \<Rightarrow> throwE (Error ''SyntaxError'')
       | Some pkgJson \<Rightarrow>
           bindE (license_text h (snd e) LICENSE_FILES) (\<lambda>licenseText.
             retE (fst e @ [CHR 0x0A] @
               (case json_field pkgJson ''license'' of
                  Some j \<Rightarrow> if truthy (Some j) then HttpClient.js_string j else ''UNKNOWN''
                | None \<Rightarrow> ''UNKNOWN'') @ [CHR 0x0A] @ licenseText)))"

fun license_entries :: "host \<Rightarrow> (string \<times> string) list \<Rightarrow> string list action" where
  "license_entries h [] = retE []"
| "license_entries h (e # es) =
     bindE (license_entry h e) (\<lambda>x. bindE (license_entries h es) (\<lambda>xs. retE (x # xs)))"

definition generate_licenses :: "host \<Rightarrow> string \<Rightarrow> string \<Rightarrow> unit action" where
  "generate_licenses h metaPath outPath =
     bindE (read_file h metaPath) (\<lambda>t.
       case h_json h False t of
         None \<Rightarrow> throwE (Error ''SyntaxError'')
       | Some meta \<Rightarrow>
           (case json_field meta ''inputs'' of
              Some (JObj inputs) \<Rightarrow>
                bindE (license_entries h (js_sort entry_cmp (collect (map fst inputs)))) (\<lambda>entries.
                thenE (write_file h outPath (join [CHR 0x0A, CHR 0x0A] entries @ [CHR 0x0A]))
                  (console_log (''wrote '' @ outPath @ '' with '' @ show_nat (length entries) @ '' package licenses'')))
            | _ \<Rightarrow> throwE (TypeError ''Cannot convert undefined or null to object'')))"

section \<open>Facts\<close>

interpretation entry_order: comparator entry_cmp "\<lambda>_. True"
  by unfold_locales (auto simp: entry_cmp_def cmp_value_def split: if_splits)

lemma first_some_member: "first_some f xs = Some y \<Longrightarrow> \<exists>x\<in>set xs. f x = Some y"
  by (induction xs) (auto split: option.splits)

text \<open>A match splits the path: the directory, the name, and a slash.\<close>

lemma segment_split: "s = segment s @ drop (length (segment s)) s"
  by (simp add: segment_def dropWhile_eq_drop [symmetric])

lemma segment_rest: "drop (length (segment s)) s \<noteq> [] \<Longrightarrow> hd (drop (length (segment s)) s) = CHR ''/''"
  unfolding segment_def dropWhile_eq_drop [symmetric] using hd_dropWhile by blast

lemma package_name_prefix: "package_name s = Some n \<Longrightarrow> n \<noteq> [] \<and> (\<exists>t. s = n @ ''/'' @ t)"
proof (cases s)
  case (Cons c rest)
  assume p: "package_name s = Some n"
  have sl: "\<exists>t. drop (length (segment x)) x = CHR ''/'' # t" if "drop (length (segment x)) x \<noteq> []" for x
    using segment_rest [OF that] that by (cases "drop (length (segment x)) x") auto
  show ?thesis
  proof (cases "c = CHR ''@''")
    case True
    let ?a = "drop (length (segment rest)) rest"
    from p Cons True have a: "?a \<noteq> []" and b: "drop (length (segment (tl ?a))) (tl ?a) \<noteq> []"
      and n: "n = CHR ''@'' # segment rest @ ''/'' @ segment (tl ?a)"
      by (auto simp: package_name_def Let_def split: if_splits)
    obtain t where t: "?a = CHR ''/'' # t" using sl [OF a] by blast
    obtain u where u: "drop (length (segment t)) t = CHR ''/'' # u" using sl [of t] b t by auto
    have "rest = segment rest @ CHR ''/'' # t" using segment_split [of rest] t by simp
    moreover have "t = segment t @ CHR ''/'' # u" using segment_split [of t] u by simp
    ultimately have "s = n @ ''/'' @ u" using Cons True n t by simp
    then show ?thesis using n by blast
  next
    case False
    with p Cons have a: "drop (length (segment s)) s \<noteq> []" and n: "n = segment s" "segment s \<noteq> []"
      by (auto simp: package_name_def Let_def split: if_splits)
    obtain t where "drop (length (segment s)) s = CHR ''/'' # t" using sl [OF a] by blast
    with segment_split [of s] n show ?thesis by (metis append_Cons append_Nil)
  qed
qed (simp add: package_name_def)

lemma match_package_split:
  assumes "match_package p = Some (dir, n)"
  shows "n \<noteq> []" "\<exists>t. p = dir @ n @ ''/'' @ t" "ends_with dir NODE_MODULES"
proof -
  from assms obtain i where m: "match_at p i = Some (dir, n)"
    unfolding match_package_def by (blast dest: first_some_member)
  let ?k = "i + length NODE_MODULES"
  from m have s: "starts_with (drop i p) NODE_MODULES" and d: "dir = take ?k p"
    and n: "package_name (drop ?k p) = Some n"
    by (auto simp: match_at_def split: if_splits)
  from package_name_prefix [OF n] obtain t where "n \<noteq> []" and t: "drop ?k p = n @ ''/'' @ t" by blast
  then show "n \<noteq> []" by simp
  show "\<exists>t. p = dir @ n @ ''/'' @ t" using t d by (metis append_take_drop_id)
  have "take ?k p = take i p @ take (length NODE_MODULES) (drop i p)" by (rule take_add)
  with s d show "ends_with dir NODE_MODULES" by (simp add: starts_with_take)
qed

text \<open>Each package once, and every package that is found.\<close>

lemma collect_distinct: "distinct (map fst (collect xs))"
proof -
  have "distinct (map fst d) \<Longrightarrow> distinct (map fst (foldl collect_step d xs))" for d
    by (induction xs arbitrary: d) (auto simp: collect_step_def distinct_obj_put split: option.splits prod.splits)
  then show ?thesis by (simp add: collect_def)
qed

lemma collect_keys:
  "set (map fst (collect xs)) = {n. \<exists>p\<in>set xs. \<exists>dir. match_package p = Some (dir, n)} - set object_prototype_keys"
proof -
  have keys: "set (map fst (obj_put d k v)) = insert k (set (map fst d))" for d :: "(string \<times> string) list" and k v
    using keys_obj_put [of d k v] by auto
  have mem: "obj_get d k \<noteq> None \<longleftrightarrow> k \<in> set (map fst d)" for d :: "(string \<times> string) list" and k
    by (auto simp: obj_get_def map_of_eq_None_iff)
  have "set (map fst d) \<inter> set object_prototype_keys = {} \<Longrightarrow>
      set (map fst (foldl collect_step d xs)) = set (map fst d) \<union>
        ({n. \<exists>p\<in>set xs. \<exists>dir. match_package p = Some (dir, n)} - set object_prototype_keys)" for d
  proof (induction xs arbitrary: d)
    case (Cons x xs)
    have s: "set (map fst (collect_step d x)) = set (map fst d) \<union>
        ({n. \<exists>dir. match_package x = Some (dir, n)} - set object_prototype_keys)"
      using mem keys Cons.prems
      by (auto simp: collect_step_def in_object_def simp del: set_map split: option.splits)
    then have "set (map fst (collect_step d x)) \<inter> set object_prototype_keys = {}" using Cons.prems by auto
    from Cons.IH [OF this] s show ?case by auto
  qed simp
  from this [of "[]"] show ?thesis by (simp add: collect_def)
qed

section \<open>Properties\<close>

lemma license_entry_Inr:
  "license_entry h e w = (Inr x, w') \<Longrightarrow> \<exists>rest. x = fst e @ [CHR 0x0A] @ rest"
  unfolding license_entry_def by (auto simp: bindE_Inr_iff split: option.splits)

lemma license_entries_Inr:
  "license_entries h es w = (Inr xs, w') \<Longrightarrow> list_all2 (\<lambda>e x. \<exists>rest. x = fst e @ [CHR 0x0A] @ rest) es xs"
proof (induction es arbitrary: w w' xs)
  case (Cons e es)
  from Cons.prems obtain x w1 ys w2 where x: "license_entry h e w = (Inr x, w1)"
    and ys: "license_entries h es w1 = (Inr ys, w2)" and "retE (x # ys) w2 = (Inr xs, w')"
    unfolding license_entries.simps by (elim bindE_InrE)
  with license_entry_Inr [OF x] Cons.IH [OF ys] show ?case by auto
qed simp


definition licence_host :: host where
  "licence_host = demo_host\<lparr>h_json := (\<lambda>d s. if s = ''meta''
     then Some (JObj [(''inputs'', JObj [(''node_modules/a/i.js'', JNull), (''node_modules/a/j.js'', JNull)])])
     else Some (JObj []))\<rparr>"

definition licence_world :: world where
  "licence_world = good_world\<lparr>w_fs := [''/meta.json'' \<mapsto> File ''meta'' 420 0 0,
     ''node_modules/a/package.json'' \<mapsto> File ''{}'' 420 0 0, ''node_modules/a/LICENSE'' \<mapsto> File ''text'' 420 0 0]\<rparr>"


end
