(* ===== verification/PeopleService.thy ===== *)
theory PeopleService
  imports UpdateReleases
begin

text \<open>
  \<open>examples/910_polyglot_demo/js/main.js\<close>: a REST service over a Coherence cache of people. The cache is
  the client library's; its operations are the fields of \<open>cache_ops\<close>, functions of a state of their
  own, and what the service relies on is \<open>lawful_cache\<close>, the documented behaviour of a map. \<open>async\<close>
  handlers answer once, so a handler is a function from the cache state to an answer and the next state.

  Not modelled: reading the request body (Express parses it before the handler) and starting the server.
\<close>

section \<open>Cache and answers\<close>

text \<open>A key: a JSON value, \<open>undefined\<close>, or not a number.\<close>

datatype key = KJson json | KUndefined | KNaN

record 's cache_ops =
  c_get :: "key \<Rightarrow> 's \<Rightarrow> json option res \<times> 's"
  c_set :: "key \<Rightarrow> json \<Rightarrow> 's \<Rightarrow> unit res \<times> 's"
  c_delete :: "key \<Rightarrow> 's \<Rightarrow> json option res \<times> 's"
  c_values :: "'s \<Rightarrow> json list res \<times> 's"

datatype answer =
    Send json              \<comment> \<open>\<open>res.send(value)\<close>, or \<open>res.status(200).json(value)\<close>\<close>
  | SendText string        \<comment> \<open>\<open>res.send(text)\<close>\<close>
  | SendStatus nat
  | NextError exn          \<comment> \<open>\<open>next(err)\<close>\<close>

section \<open>Handlers\<close>

definition get_people :: "'s cache_ops \<Rightarrow> 's \<Rightarrow> answer \<times> 's" where
  "get_people ops s =
     (case c_values ops s of
        (Inl e, s') \<Rightarrow> (NextError e, s')
      | (Inr vs, s') \<Rightarrow> (Send (JArr vs), s'))"

text \<open>\<open>{ id: body.id, name: body.name, age: body.age }\<close>; \<open>undefined\<close> fields are not serialised.\<close>

definition person_of :: "(string \<times> json) list \<Rightarrow> json" where
  "person_of body =
     JObj (concat (map (\<lambda>k. case obj_get body k of None \<Rightarrow> [] | Some v \<Rightarrow> [(k, v)]) [''id'', ''name'', ''age'']))"

definition id_key :: "(string \<times> json) list \<Rightarrow> key" where
  "id_key body = (case obj_get body ''id'' of None \<Rightarrow> KUndefined | Some v \<Rightarrow> KJson v)"

definition post_person :: "'s cache_ops \<Rightarrow> (string \<times> json) list \<Rightarrow> 's \<Rightarrow> answer \<times> 's" where
  "post_person ops body s =
     (case c_set ops (id_key body) (person_of body) s of
        (Inl e, s') \<Rightarrow> (NextError e, s')
      | (Inr _, s') \<Rightarrow> (SendText (stringify (person_of body)), s'))"

definition param_key :: "string \<Rightarrow> key" where
  "param_key p = (case js_Number p of Num n \<Rightarrow> KJson (JNum n) | _ \<Rightarrow> KNaN)"

definition get_person :: "'s cache_ops \<Rightarrow> string \<Rightarrow> 's \<Rightarrow> answer \<times> 's" where
  "get_person ops idp s =
     (case c_get ops (param_key idp) s of
        (Inl e, s') \<Rightarrow> (NextError e, s')
      | (Inr person, s') \<Rightarrow> (if truthy person then Send (the person) else SendStatus 404, s'))"

definition delete_person :: "'s cache_ops \<Rightarrow> string \<Rightarrow> 's \<Rightarrow> answer \<times> 's" where
  "delete_person ops idp s =
     (case c_delete ops (param_key idp) s of
        (Inl e, s') \<Rightarrow> (NextError e, s')
      | (Inr oldValue, s') \<Rightarrow> (SendStatus (if truthy oldValue then 200 else 404), s'))"

datatype people_request = GetPeople | PostPerson "(string \<times> json) list" | GetPerson string | DeletePerson string

fun serve :: "'s cache_ops \<Rightarrow> people_request \<Rightarrow> 's \<Rightarrow> answer \<times> 's" where
  "serve ops GetPeople s = get_people ops s"
| "serve ops (PostPerson body) s = post_person ops body s"
| "serve ops (GetPerson i) s = get_person ops i s"
| "serve ops (DeletePerson i) s = delete_person ops i s"

section \<open>Specification\<close>

text \<open>\<open>view s\<close> is the map a state stands for. No operation fails.\<close>

definition lawful_cache :: "'s cache_ops \<Rightarrow> ('s \<Rightarrow> key \<Rightarrow> json option) \<Rightarrow> bool" where
  "lawful_cache ops view \<longleftrightarrow>
     (\<forall>k s. fst (c_get ops k s) = Inr (view s k) \<and> view (snd (c_get ops k s)) = view s) \<and>
     (\<forall>k v s. fst (c_set ops k v s) = Inr () \<and> view (snd (c_set ops k v s)) = (view s)(k \<mapsto> v)) \<and>
     (\<forall>k s. fst (c_delete ops k s) = Inr (view s k) \<and> view (snd (c_delete ops k s)) = (view s)(k := None)) \<and>
     (\<forall>s. view (snd (c_values ops s)) = view s \<and>
        (\<exists>vs. fst (c_values ops s) = Inr vs \<and> set vs = ran (view s)))"

text \<open>What the service is for: a map from keys to people, with the answers it gives.\<close>

fun spec_serve :: "people_request \<Rightarrow> (key \<Rightarrow> json option) \<Rightarrow> key \<Rightarrow> json option" where
  "spec_serve GetPeople m = m"
| "spec_serve (PostPerson body) m = m(id_key body \<mapsto> person_of body)"
| "spec_serve (GetPerson i) m = m"
| "spec_serve (DeletePerson i) m = m(param_key i := None)"

fun spec_answer :: "people_request \<Rightarrow> (key \<Rightarrow> json option) \<Rightarrow> answer \<Rightarrow> bool" where
  "spec_answer GetPeople m a \<longleftrightarrow> (\<exists>vs. a = Send (JArr vs) \<and> set vs = ran m)"
| "spec_answer (PostPerson body) m a \<longleftrightarrow> a = SendText (stringify (person_of body))"
| "spec_answer (GetPerson i) m a \<longleftrightarrow>
     a = (case m (param_key i) of
            None \<Rightarrow> SendStatus 404
          | Some p \<Rightarrow> if truthy (Some p) then Send p else SendStatus 404)"
| "spec_answer (DeletePerson i) m a \<longleftrightarrow>
     a = SendStatus (if truthy (m (param_key i)) then 200 else 404)"

lemma serve_refines:
  assumes "lawful_cache ops view" and "serve ops r s = (a, s')"
  shows "spec_answer r (view s) a \<and> view s' = spec_serve r (view s)"
proof (cases r)
  case GetPeople
  have v: "view (snd (c_values ops s)) = view s" and "\<exists>vs. fst (c_values ops s) = Inr vs \<and> set vs = ran (view s)"
    using assms(1) unfolding lawful_cache_def by blast+
  then obtain vs where "c_values ops s = (Inr vs, snd (c_values ops s))" "set vs = ran (view s)"
    by (metis prod.collapse)
  with assms(2) v show ?thesis by (auto simp: GetPeople get_people_def split: prod.splits sum.splits)
next
  case (PostPerson body)
  have "fst (c_set ops k v s) = Inr () \<and> view (snd (c_set ops k v s)) = (view s)(k \<mapsto> v)" for k v
    using assms(1) unfolding lawful_cache_def by blast
  from this [of "id_key body" "person_of body"] assms(2) show ?thesis
    by (auto simp: PostPerson post_person_def split: prod.splits sum.splits)
next
  case (GetPerson i)
  have "fst (c_get ops k s) = Inr (view s k) \<and> view (snd (c_get ops k s)) = view s" for k
    using assms(1) unfolding lawful_cache_def by blast
  from this [of "param_key i"] assms(2) show ?thesis
    by (auto simp: GetPerson get_person_def split: prod.splits sum.splits option.splits if_splits)
next
  case (DeletePerson i)
  have "fst (c_delete ops k s) = Inr (view s k) \<and> view (snd (c_delete ops k s)) = (view s)(k := None)" for k
    using assms(1) unfolding lawful_cache_def by blast
  from this [of "param_key i"] assms(2) show ?thesis
    by (auto simp: DeletePerson delete_person_def split: prod.splits sum.splits)
qed

text \<open>The keys a path parameter can name are the numbers.\<close>

lemma param_key_show [simp]: "n < 2 ^ 53 \<Longrightarrow> param_key (show_nat n) = KJson (JNum (int n))"
  using show_nat_digits [of _ n]
  by (auto simp: param_key_def js_Number_digits digits_value_def list_all_iff nat_of_digits_show_nat fl53_exact)

lemma param_key_numeric: "param_key p = KNaN \<or> (\<exists>n. param_key p = KJson (JNum n))"
  by (cases "js_Number p") (auto simp: param_key_def)

text \<open>A cache to evaluate the service on: an association list.\<close>

definition list_cache :: "(key \<times> json) list cache_ops" where
  "list_cache =
     \<lparr>c_get = (\<lambda>k s. (Inr (map_of s k), s)),
      c_set = (\<lambda>k v s. (Inr (), (k, v) # filter (\<lambda>(j, _). j \<noteq> k) s)),
      c_delete = (\<lambda>k s. (Inr (map_of s k), filter (\<lambda>(j, _). j \<noteq> k) s)),
      c_values = (\<lambda>s. (Inr (map (\<lambda>k. the (map_of s k)) (remdups (map fst s))), s))\<rparr>"

lemma map_of_filter_neq: "map_of (filter (\<lambda>(j, _). j \<noteq> k) s) = (map_of s)(k := None)"
  by (induction s) auto

lemma lawful_list_cache: "lawful_cache list_cache map_of"
proof -
  have "set (map (\<lambda>k. the (map_of s k)) (remdups (map fst s))) = ran (map_of s)" for s :: "(key \<times> json) list"
  proof -
    have "ran (map_of s) = (\<lambda>k. the (map_of s k)) ` dom (map_of s)" by (force simp: ran_def dom_def)
    then show ?thesis by (simp add: dom_map_of_conv_image_fst)
  qed
  then show ?thesis by (auto simp: lawful_cache_def list_cache_def map_of_filter_neq fun_eq_iff)
qed

section \<open>Properties\<close>

text \<open>A sequence of requests, with the answers in order.\<close>

fun serve_all :: "'s cache_ops \<Rightarrow> people_request list \<Rightarrow> 's \<Rightarrow> answer list \<times> 's" where
  "serve_all ops [] s = ([], s)"
| "serve_all ops (r # rs) s =
     (case serve ops r s of (a, s') \<Rightarrow> case serve_all ops rs s' of (as, s'') \<Rightarrow> (a # as, s''))"

fun spec_all :: "people_request list \<Rightarrow> answer list \<Rightarrow> (key \<Rightarrow> json option) \<Rightarrow> (key \<Rightarrow> json option) \<Rightarrow> bool" where
  "spec_all [] as m m' \<longleftrightarrow> as = [] \<and> m' = m"
| "spec_all (r # rs) as m m' \<longleftrightarrow>
     (case as of [] \<Rightarrow> False | a # as' \<Rightarrow> spec_answer r m a \<and> spec_all rs as' (spec_serve r m) m')"

lemma serve_all_refines:
  assumes "lawful_cache ops view"
  shows "serve_all ops rs s = (as, s') \<Longrightarrow> spec_all rs as (view s) (view s')"
proof (induction rs arbitrary: s as)
  case (Cons r rs)
  obtain a s1 where a: "serve ops r s = (a, s1)" by (cases "serve ops r s")
  from Cons.prems a obtain as' where r: "serve_all ops rs s1 = (as', s')" "as = a # as'"
    by (auto split: prod.splits)
  from serve_refines [OF assms a] have "spec_answer r (view s) a" "view s1 = spec_serve r (view s)" by simp_all
  with Cons.IH [OF r(1)] r(2) show ?case by simp
qed simp



text \<open>
  A person stored under an id that is no number can never be read or deleted again: \<open>POST\<close> stores
  under the id of the body as it is, the other handlers look for the number their path names. A
  person stored under a number is found under its decimal notation.
\<close>

theorem person_found_only_by_number:
  assumes "lawful_cache ops view"
  shows "(\<forall>n. obj_get body ''id'' = Some (JNum (int n)) \<and> n < 2 ^ 53 \<longrightarrow>
      fst (get_person ops (show_nat n) (snd (post_person ops body s))) = Send (person_of body)) \<and>
    (\<forall>x i. obj_get body ''id'' = Some (JStr x) \<and> view s (param_key i) = None \<longrightarrow>
      fst (get_person ops i (snd (post_person ops body s))) = SendStatus 404 \<and>
      fst (delete_person ops i (snd (post_person ops body s))) = SendStatus 404)"
proof -
  let ?s = "snd (post_person ops body s)"
  have v: "view ?s = (view s)(id_key body \<mapsto> person_of body)"
    using serve_refines [OF assms, of "PostPerson body" s "fst (post_person ops body s)" ?s] by simp
  have get: "spec_answer (GetPerson i) (view ?s) (fst (get_person ops i ?s))" for i
    using serve_refines [OF assms, of "GetPerson i" ?s "fst (get_person ops i ?s)" "snd (get_person ops i ?s)"] by simp
  have del: "spec_answer (DeletePerson i) (view ?s) (fst (delete_person ops i ?s))" for i
    using serve_refines [OF assms, of "DeletePerson i" ?s "fst (delete_person ops i ?s)" "snd (delete_person ops i ?s)"] by simp
  have t: "truthy (Some (person_of body))" by (simp add: person_of_def)
  have "view ?s (param_key i) = None" if "id_key body = KJson (JStr x)" "view s (param_key i) = None" for x i
    using param_key_numeric [of i] that by (auto simp: v)
  then show ?thesis
    using get del t by (auto simp: v id_key_def)
qed

theorem person_found_only_by_number_witness:
  "fst (get_person list_cache ''x'' (snd (post_person list_cache [(''id'', JStr ''x'')] []))) = SendStatus 404"
  using person_found_only_by_number [OF lawful_list_cache, of "[(''id'', JStr ''x'')]" "[]"]
  by (simp add: obj_get_def)

end
