(* ===== verification/Regex.thy ===== *)
theory Regex
  imports Prelude
begin

text \<open>
  Regular expressions of the language, for the patterns the program uses: character classes, greedy
  repetition, ordered alternatives, groups, and the anchors without flags. \<open>rmatch r st\<close> lists the
  ways \<open>r\<close> can match from a state, in the order in which a backtracking matcher tries them, so the
  first one is the match. A state is the index reached, the rest of the subject, and the groups set,
  the latest first.

  An iteration of a repetition that matches the empty string is rejected, as the language does once
  the minimum is reached. The groups inside a repetition are not reset between its iterations; no
  pattern of the program has such a group.

  \<open>den\<close> says which words a pattern without anchors denotes, with their groups; \<open>rmatch_den\<close> is that
  the matcher finds exactly these.
\<close>

type_synonym groups = "(nat \<times> string) list"
type_synonym rstate = "nat \<times> string \<times> groups"

datatype re =
    Eps
  | Cls "char \<Rightarrow> bool"
  | Cat re re
  | Alt re re
  | Rep nat re
  | Star re
  | Grp nat re
  | Bol
  | Eol

definition shorter :: "rstate \<Rightarrow> rstate \<Rightarrow> bool" where
  "shorter st' st \<longleftrightarrow> length (fst (snd st')) < length (fst (snd st))"

primrec iterate :: "(rstate \<Rightarrow> rstate list) \<Rightarrow> nat \<Rightarrow> rstate \<Rightarrow> rstate list" where
  "iterate f 0 st = [st]"
| "iterate f (Suc n) st = concat (map (iterate f n) (filter (\<lambda>st'. shorter st' st) (f st))) @ [st]"

primrec rmatch :: "re \<Rightarrow> rstate \<Rightarrow> rstate list" where
  "rmatch Eps st = [st]"
| "rmatch (Cls p) st = (case st of (i, c # s, g) \<Rightarrow> if p c then [(Suc i, s, g)] else [] | (i, [], g) \<Rightarrow> [])"
| "rmatch (Cat a b) st = concat (map (rmatch b) (rmatch a st))"
| "rmatch (Alt a b) st = rmatch a st @ rmatch b st"
| "rmatch (Rep n a) st = iterate (rmatch a) n st"
| "rmatch (Star a) st = iterate (rmatch a) (length (fst (snd st))) st"
| "rmatch (Grp k a) st =
     map (\<lambda>(i, s, g). (i, s, (k, take (i - fst st) (fst (snd st))) # g)) (rmatch a st)"
| "rmatch Bol st = (if fst st = 0 then [st] else [])"
| "rmatch Eol st = (if fst (snd st) = [] then [st] else [])"

text \<open>Abbreviations of the notation.\<close>

definition chr :: "char \<Rightarrow> re" where "chr c = Cls (\<lambda>x. x = c)"

definition opt :: "re \<Rightarrow> re" where "opt r = Rep 1 r"

definition many :: "nat \<Rightarrow> re \<Rightarrow> re" where "many n r = Cat r (Rep (n - 1) r)"

fun cats :: "re list \<Rightarrow> re" where
  "cats [] = Eps"
| "cats [r] = r"
| "cats (r # rs) = Cat r (cats rs)"

fun alts :: "re list \<Rightarrow> re" where
  "alts [] = Cls (\<lambda>_. False)"
| "alts [r] = r"
| "alts (r # rs) = Alt r (alts rs)"

text \<open>\<open>exec\<close> from an index: the start, the end and the groups of the leftmost match.\<close>

definition match_here :: "re \<Rightarrow> string \<Rightarrow> nat \<Rightarrow> (nat \<times> nat \<times> groups) option" where
  "match_here r s i = (case rmatch r (i, drop i s, []) of [] \<Rightarrow> None | (j, _, g) # _ \<Rightarrow> Some (i, j, g))"

fun leftmost :: "('a \<Rightarrow> 'b option) \<Rightarrow> 'a list \<Rightarrow> 'b option" where
  "leftmost f [] = None"
| "leftmost f (x # xs) = (case f x of Some y \<Rightarrow> Some y | None \<Rightarrow> leftmost f xs)"

definition exec_from :: "re \<Rightarrow> string \<Rightarrow> nat \<Rightarrow> (nat \<times> nat \<times> groups) option" where
  "exec_from r s i = leftmost (match_here r s) [i..<Suc (length s)]"

definition exec :: "re \<Rightarrow> string \<Rightarrow> groups option" where
  "exec r s = map_option (snd \<circ> snd) (exec_from r s 0)"

definition grp :: "groups \<Rightarrow> nat \<Rightarrow> string option" where
  "grp g k = map_of g k"

definition grp_text :: "groups \<Rightarrow> nat \<Rightarrow> string" where
  "grp_text g k = (case grp g k of None \<Rightarrow> [] | Some s \<Rightarrow> s)"

text \<open>\<open>s.replace(r, f)\<close> without and with the flag \<open>g\<close>; the function gets the matched text and the groups.\<close>

definition replace_first :: "re \<Rightarrow> (string \<Rightarrow> groups \<Rightarrow> string) \<Rightarrow> string \<Rightarrow> string" where
  "replace_first r f s =
     (case exec_from r s 0 of
        None \<Rightarrow> s
      | Some (i, j, g) \<Rightarrow> take i s @ f (take (j - i) (drop i s)) g @ drop j s)"

primrec replace_loop :: "re \<Rightarrow> (string \<Rightarrow> groups \<Rightarrow> string) \<Rightarrow> string \<Rightarrow> nat \<Rightarrow> nat \<Rightarrow> nat \<Rightarrow> string" where
  "replace_loop r f s 0 k i = drop k s"
| "replace_loop r f s (Suc n) k i =
     (case exec_from r s i of
        None \<Rightarrow> drop k s
      | Some (a, b, g) \<Rightarrow>
          take (a - k) (drop k s) @ f (take (b - a) (drop a s)) g @
          replace_loop r f s n b (if b = a then Suc b else b))"

definition replace_global :: "re \<Rightarrow> (string \<Rightarrow> groups \<Rightarrow> string) \<Rightarrow> string \<Rightarrow> string" where
  "replace_global r f s = replace_loop r f s (Suc (length s)) 0 0"

section \<open>What a pattern denotes\<close>

primrec words :: "(string \<Rightarrow> groups \<Rightarrow> bool) \<Rightarrow> nat \<Rightarrow> string \<Rightarrow> groups \<Rightarrow> bool" where
  "words R 0 w g \<longleftrightarrow> w = [] \<and> g = []"
| "words R (Suc n) w g \<longleftrightarrow> (w = [] \<and> g = []) \<or>
     (\<exists>u v gu gv. w = u @ v \<and> u \<noteq> [] \<and> R u gu \<and> words R n v gv \<and> g = gv @ gu)"

primrec den :: "re \<Rightarrow> string \<Rightarrow> groups \<Rightarrow> bool" where
  "den Eps w g \<longleftrightarrow> w = [] \<and> g = []"
| "den (Cls p) w g \<longleftrightarrow> (\<exists>c. w = [c] \<and> p c) \<and> g = []"
| "den (Cat a b) w g \<longleftrightarrow> (\<exists>u v gu gv. w = u @ v \<and> den a u gu \<and> den b v gv \<and> g = gv @ gu)"
| "den (Alt a b) w g \<longleftrightarrow> den a w g \<or> den b w g"
| "den (Rep n a) w g \<longleftrightarrow> words (den a) n w g"
| "den (Star a) w g \<longleftrightarrow> (\<exists>n. words (den a) n w g)"
| "den (Grp k a) w g \<longleftrightarrow> (\<exists>h. den a w h \<and> g = (k, w) # h)"
| "den Bol w g \<longleftrightarrow> False"
| "den Eol w g \<longleftrightarrow> False"

primrec anchor_free :: "re \<Rightarrow> bool" where
  "anchor_free Eps = True"
| "anchor_free (Cls p) = True"
| "anchor_free (Cat a b) = (anchor_free a \<and> anchor_free b)"
| "anchor_free (Alt a b) = (anchor_free a \<and> anchor_free b)"
| "anchor_free (Rep n a) = anchor_free a"
| "anchor_free (Star a) = anchor_free a"
| "anchor_free (Grp k a) = anchor_free a"
| "anchor_free Bol = False"
| "anchor_free Eol = False"

text \<open>A step of a matcher reads a word of \<open>R\<close>.\<close>

definition reads :: "(rstate \<Rightarrow> rstate list) \<Rightarrow> (string \<Rightarrow> groups \<Rightarrow> bool) \<Rightarrow> bool" where
  "reads f R \<longleftrightarrow> (\<forall>i s g j t k. (j, t, k) \<in> set (f (i, s, g)) \<longleftrightarrow>
     (\<exists>w h. R w h \<and> s = w @ t \<and> j = i + length w \<and> k = h @ g))"

lemma readsI:
  "(\<And>i s g j t k. (j, t, k) \<in> set (f (i, s, g)) \<longleftrightarrow> (\<exists>w h. R w h \<and> s = w @ t \<and> j = i + length w \<and> k = h @ g)) \<Longrightarrow>
   reads f R"
  by (simp add: reads_def)

lemma readsD: "reads f R \<Longrightarrow> (j, t, k) \<in> set (f (i, s, g)) \<longleftrightarrow>
    (\<exists>w h. R w h \<and> s = w @ t \<and> j = i + length w \<and> k = h @ g)"
  by (simp add: reads_def)

lemma reads_cat:
  assumes "reads f R" "reads f' R'"
  shows "(\<exists>i' s' g'. (i', s', g') \<in> set (f (i, s, g)) \<and> P s' \<and> (j, t, k) \<in> set (f' (i', s', g'))) \<longleftrightarrow>
    (\<exists>u v gu gv. R u gu \<and> R' v gv \<and> s = u @ v @ t \<and> P (v @ t) \<and> j = i + length u + length v \<and> k = gv @ gu @ g)"
proof
  assume "\<exists>u v gu gv. R u gu \<and> R' v gv \<and> s = u @ v @ t \<and> P (v @ t) \<and> j = i + length u + length v \<and> k = gv @ gu @ g"
  then obtain u v gu gv where "R u gu" "R' v gv" "s = u @ v @ t" "P (v @ t)" "j = i + length u + length v" "k = gv @ gu @ g"
    by blast
  then show "\<exists>i' s' g'. (i', s', g') \<in> set (f (i, s, g)) \<and> P s' \<and> (j, t, k) \<in> set (f' (i', s', g'))"
    unfolding readsD [OF assms(1)] readsD [OF assms(2)]
    by (intro exI [of _ "i + length u"] exI [of _ "v @ t"] exI [of _ "gu @ g"]) auto
qed (unfold readsD [OF assms(1)] readsD [OF assms(2)], auto)

lemma iterate_Suc:
  "(j, t, k) \<in> set (iterate f (Suc n) (i, s, g)) \<longleftrightarrow>
   (\<exists>i' s' g'. (i', s', g') \<in> set (f (i, s, g)) \<and> length s' < length s \<and> (j, t, k) \<in> set (iterate f n (i', s', g'))) \<or>
   (j = i \<and> t = s \<and> k = g)"
  by (auto simp: shorter_def)

lemma reads_iterate: "reads f R \<Longrightarrow> reads (iterate f n) (words R n)"
proof (induction n)
  case 0
  show ?case by (rule readsI) auto
next
  case (Suc n)
  show ?case
  proof (rule readsI)
    fix i s g j t k
    have "(j, t, k) \<in> set (iterate f (Suc n) (i, s, g)) \<longleftrightarrow>
        (\<exists>u v gu gv. R u gu \<and> words R n v gv \<and> s = u @ v @ t \<and> length (v @ t) < length s \<and>
           j = i + length u + length v \<and> k = gv @ gu @ g) \<or> (j = i \<and> t = s \<and> k = g)"
      unfolding iterate_Suc reads_cat [OF Suc.prems Suc.IH [OF Suc.prems]] ..
    also have "\<dots> \<longleftrightarrow> (\<exists>w h. words R (Suc n) w h \<and> s = w @ t \<and> j = i + length w \<and> k = h @ g)" (is "?l \<longleftrightarrow> ?r")
    proof
      assume ?l
      then show ?r
      proof
        assume "\<exists>u v gu gv. R u gu \<and> words R n v gv \<and> s = u @ v @ t \<and> length (v @ t) < length s \<and>
            j = i + length u + length v \<and> k = gv @ gu @ g"
        then obtain u v gu gv where x: "R u gu" "words R n v gv" "s = u @ v @ t" "length (v @ t) < length s"
          "j = i + length u + length v" "k = gv @ gu @ g" by blast
        then have "words R (Suc n) (u @ v) (gv @ gu)" by fastforce
        with x show ?r by (intro exI [of _ "u @ v"] exI [of _ "gv @ gu"]) simp
      qed (intro exI [of _ "[]"], simp)
    next
      assume ?r
      then obtain w h where w: "words R (Suc n) w h" "s = w @ t" "j = i + length w" "k = h @ g" by blast
      then show ?l by (cases "w = [] \<and> h = []") fastforce+
    qed
    finally show "(j, t, k) \<in> set (iterate f (Suc n) (i, s, g)) \<longleftrightarrow>
      (\<exists>w h. words R (Suc n) w h \<and> s = w @ t \<and> j = i + length w \<and> k = h @ g)" .
  qed
qed

text \<open>A repetition of as many words as the subject has characters is unbounded.\<close>

lemma words_mono: "words R n w g \<Longrightarrow> n \<le> m \<Longrightarrow> words R m w g"
proof (induction n arbitrary: m w g)
  case 0
  then show ?case by (cases m) auto
next
  case (Suc n)
  then obtain m' where m: "m = Suc m'" "n \<le> m'" by (cases m) auto
  with Suc show ?case by fastforce
qed

lemma words_length: "words R n w g \<Longrightarrow> words R (length w) w g"
proof (induction n arbitrary: w g)
  case (Suc n)
  show ?case
  proof (cases "w = [] \<and> g = []")
    case False
    with Suc.prems obtain u v gu gv where x: "w = u @ v" "u \<noteq> []" "R u gu" "words R n v gv" "g = gv @ gu" by auto
    from Suc.IH [OF x(4)] have "words R (length w - 1) v gv"
      by (rule words_mono) (use x in \<open>cases u, auto\<close>)
    moreover obtain m where "length w = Suc m" using x by (cases u) auto
    ultimately show ?thesis using x by auto
  qed simp
qed simp

theorem rmatch_den: "anchor_free r \<Longrightarrow> reads (rmatch r) (den r)"
proof (induction r)
  case (Cls p)
  show ?case by (rule readsI) (auto split: list.splits)
next
  case (Cat a b)
  then have a: "reads (rmatch a) (den a)" and b: "reads (rmatch b) (den b)" by auto
  have "(j, t, k) \<in> set (rmatch (Cat a b) (i, s, g)) \<longleftrightarrow>
      (\<exists>i' s' g'. (i', s', g') \<in> set (rmatch a (i, s, g)) \<and> True \<and> (j, t, k) \<in> set (rmatch b (i', s', g')))"
    for i s g j t k by force
  then show ?case unfolding reads_cat [OF a b] by (intro readsI) (force simp: add.assoc)
next
  case (Alt a b)
  then have a: "reads (rmatch a) (den a)" and b: "reads (rmatch b) (den b)" by auto
  show ?case by (rule readsI) (auto simp: readsD [OF a] readsD [OF b])
next
  case (Rep n a)
  then show ?case using reads_iterate by (simp add: reads_def)
next
  case (Star a)
  then have a: "reads (iterate (rmatch a) n) (words (den a) n)" for n using reads_iterate by simp
  have m: "words (den a) n w h \<Longrightarrow> words (den a) (length w + length t) w h" for n w h and t :: string
    by (rule words_mono [OF words_length]) simp_all
  show ?case by (intro readsI) (auto simp: readsD [OF a] intro: m)
next
  case (Grp k a)
  then have a: "reads (rmatch a) (den a)" by simp
  have "(j, t, q) \<in> set (rmatch (Grp k a) (i, s, g)) \<longleftrightarrow>
      (\<exists>q'. (j, t, q') \<in> set (rmatch a (i, s, g)) \<and> q = (k, take (j - i) s) # q')" for i s g j t q
    by force
  then show ?case by (intro readsI) (auto simp: readsD [OF a])
qed (auto intro!: readsI)

end
