(* ===== verification/Semver.thy ===== *)
theory Semver
  imports Doubles Sorting Effects "HOL-Library.List_Lexorder" "HOL-Library.Char_ord"
    "HOL-Library.Product_Lexorder"
begin

text \<open>
  \<open>semver\<close> (\<open>internal/identifiers.js\<close>, \<open>classes/semver.js\<close> and \<open>functions/*.js\<close>), the library behind
  \<open>tool-cache\<close>'s version handling, on strings and with its default options (\<open>loose\<close> and
  \<open>includePrerelease\<close> false): the strict grammar. A version object is the record \<open>semver\<close>;
  \<open>version\<close>, the cached text, is a field as in the class. The facts are in theory \<open>SemverFacts\<close>.

  \<open>identifierBase\<close> is absent, \<open>false\<close>, a number or a string of digits, as its documentation has it;
  a prerelease identifier is read by \<open>isNaN\<close> as \<open>Number\<close> reads it.
\<close>

section \<open>Constants and identifiers\<close>

definition MAX_LENGTH :: nat where "MAX_LENGTH = 256"

definition MAX_SAFE_INTEGER :: nat where "MAX_SAFE_INTEGER = 9007199254740991"

text \<open>An element of \<open>prerelease\<close>: a number or a string.\<close>

datatype ident = PNum nat | PStr string

definition all_digits :: "string \<Rightarrow> bool" where
  "all_digits s \<longleftrightarrow> s \<noteq> [] \<and> list_all is_digit s"

fun ident_numeric :: "ident \<Rightarrow> bool" where
  "ident_numeric (PNum n) = True"
| "ident_numeric (PStr s) = all_digits s"

fun ident_number :: "ident \<Rightarrow> nat" where
  "ident_number (PNum n) = n"
| "ident_number (PStr s) = fl53 (nat_of_digits s)"

fun ident_text :: "ident \<Rightarrow> string" where
  "ident_text (PNum n) = show_nat n"
| "ident_text (PStr s) = s"

definition compareIdentifiers :: "ident \<Rightarrow> ident \<Rightarrow> int" where
  "compareIdentifiers a b =
     (let anum = ident_numeric a; bnum = ident_numeric b in
      if anum \<and> bnum
      then (if ident_number a = ident_number b then 0 else if ident_number a < ident_number b then -1 else 1)
      else if a = b then 0
      else if anum \<and> \<not> bnum then -1
      else if bnum \<and> \<not> anum then 1
      else if ident_text a < ident_text b then -1 else 1)"

definition rcompareIdentifiers :: "ident \<Rightarrow> ident \<Rightarrow> int" where
  "rcompareIdentifiers a b = compareIdentifiers b a"

section \<open>The strict grammar\<close>

text \<open>\<open>0|[1-9]\d*\<close>\<close>

definition numeric_identifier :: "string \<Rightarrow> bool" where
  "numeric_identifier s \<longleftrightarrow> all_digits s \<and> (hd s \<noteq> CHR ''0'' \<or> s = ''0'')"

text \<open>\<open>[a-zA-Z0-9-]\<close>\<close>

definition ident_char :: "char \<Rightarrow> bool" where
  "ident_char c \<longleftrightarrow> is_digit c \<or> c = CHR ''-'' \<or>
     (let n = of_char c :: nat in (97 \<le> n \<and> n \<le> 122) \<or> (65 \<le> n \<and> n \<le> 90))"

definition build_identifier :: "string \<Rightarrow> bool" where
  "build_identifier s \<longleftrightarrow> s \<noteq> [] \<and> list_all ident_char s"

definition prerelease_identifier :: "string \<Rightarrow> bool" where
  "prerelease_identifier s \<longleftrightarrow> build_identifier s \<and> (all_digits s \<longrightarrow> numeric_identifier s)"

definition dot_parts :: "string \<Rightarrow> string list" where
  "dot_parts s = split_char CHR ''.'' s"

text \<open>A part and what follows the first \<open>c\<close>, if there is one.\<close>

definition cut :: "char \<Rightarrow> string \<Rightarrow> string \<times> string option" where
  "cut c s = (let a = takeWhile (\<lambda>x. x \<noteq> c) s in
     (a, if length a = length s then None else Some (drop (Suc (length a)) s)))"

definition prerelease_text :: "string \<Rightarrow> bool" where
  "prerelease_text s \<longleftrightarrow> list_all prerelease_identifier (dot_parts s)"

definition build_text :: "string \<Rightarrow> bool" where
  "build_text s \<longleftrightarrow> list_all build_identifier (dot_parts s)"

text \<open>The groups of \<open>^v?(..)\.(..)\.(..)(?:-(..))?(?:\+(..))?$\<close>.\<close>

definition match_full ::
  "string \<Rightarrow> (string \<times> string \<times> string \<times> string option \<times> string option) option" where
  "match_full s =
     (let s1 = (case s of c # r \<Rightarrow> if c = CHR ''v'' then r else s | [] \<Rightarrow> []);
          (core, build) = cut CHR ''+'' s1;
          (main, pre) = cut CHR ''-'' core in
      case dot_parts main of
        [a, b, c] \<Rightarrow>
          if numeric_identifier a \<and> numeric_identifier b \<and> numeric_identifier c \<and>
             (case pre of None \<Rightarrow> True | Some p \<Rightarrow> prerelease_text p) \<and>
             (case build of None \<Rightarrow> True | Some p \<Rightarrow> build_text p)
          then Some (a, b, c, pre, build) else None
      | _ \<Rightarrow> None)"

section \<open>SemVer\<close>

record semver =
  sv_major :: nat
  sv_minor :: nat
  sv_patch :: nat
  sv_prerelease :: "ident list"
  sv_build :: "string list"
  sv_raw :: string
  sv_version :: string

definition parse_ident :: "string \<Rightarrow> ident" where
  "parse_ident i =
     (if all_digits i \<and> fl53 (nat_of_digits i) < MAX_SAFE_INTEGER then PNum (fl53 (nat_of_digits i)) else PStr i)"

definition prerelease_join :: "ident list \<Rightarrow> string" where
  "prerelease_join ids = join ''.'' (map ident_text ids)"

text \<open>\<open>format\<close>.\<close>

definition format_text :: "semver \<Rightarrow> string" where
  "format_text v =
     show_nat (sv_major v) @ ''.'' @ show_nat (sv_minor v) @ ''.'' @ show_nat (sv_patch v) @
     (if sv_prerelease v \<noteq> [] then ''-'' @ prerelease_join (sv_prerelease v) else [])"

definition reformat :: "semver \<Rightarrow> semver" where
  "reformat v = v\<lparr>sv_version := format_text v\<rparr>"

definition new_SemVer :: "string \<Rightarrow> semver res" where
  "new_SemVer version =
     (if length version > MAX_LENGTH
      then Inl (TypeError (''version is longer than '' @ show_nat MAX_LENGTH @ '' characters''))
      else
        case match_full (js_trim version) of
          None \<Rightarrow> Inl (TypeError (''Invalid Version: '' @ version))
        | Some (a, b, c, pre, build) \<Rightarrow>
            (let major = fl53 (nat_of_digits a); minor = fl53 (nat_of_digits b); patch = fl53 (nat_of_digits c) in
             if major > MAX_SAFE_INTEGER then Inl (TypeError ''Invalid major version'')
             else if minor > MAX_SAFE_INTEGER then Inl (TypeError ''Invalid minor version'')
             else if patch > MAX_SAFE_INTEGER then Inl (TypeError ''Invalid patch version'')
             else Inr (reformat
               \<lparr>sv_major = major, sv_minor = minor, sv_patch = patch,
                sv_prerelease = (case pre of None \<Rightarrow> [] | Some p \<Rightarrow> map parse_ident (dot_parts p)),
                sv_build = (case build of None \<Rightarrow> [] | Some p \<Rightarrow> dot_parts p),
                sv_raw = version, sv_version = []\<rparr>)))"

definition compareMain :: "semver \<Rightarrow> semver \<Rightarrow> int" where
  "compareMain v u =
     (if sv_major v < sv_major u then -1 else if sv_major v > sv_major u then 1
      else if sv_minor v < sv_minor u then -1 else if sv_minor v > sv_minor u then 1
      else if sv_patch v < sv_patch u then -1 else if sv_patch v > sv_patch u then 1
      else 0)"

fun compare_idents :: "ident list \<Rightarrow> ident list \<Rightarrow> int" where
  "compare_idents [] [] = 0"
| "compare_idents (a # as) [] = 1"
| "compare_idents [] (b # bs) = -1"
| "compare_idents (a # as) (b # bs) = (if a = b then compare_idents as bs else compareIdentifiers a b)"

definition comparePre :: "semver \<Rightarrow> semver \<Rightarrow> int" where
  "comparePre v u =
     (if sv_prerelease v \<noteq> [] \<and> sv_prerelease u = [] then -1
      else if sv_prerelease v = [] \<and> sv_prerelease u \<noteq> [] then 1
      else if sv_prerelease v = [] \<and> sv_prerelease u = [] then 0
      else compare_idents (sv_prerelease v) (sv_prerelease u))"

definition compareBuild :: "semver \<Rightarrow> semver \<Rightarrow> int" where
  "compareBuild v u = compare_idents (map PStr (sv_build v)) (map PStr (sv_build u))"

definition sv_compare :: "semver \<Rightarrow> semver \<Rightarrow> int" where
  "sv_compare v u =
     (if sv_version u = sv_version v then 0
      else if compareMain v u \<noteq> 0 then compareMain v u else comparePre v u)"

section \<open>inc\<close>

datatype id_base = BaseUndefined | BaseFalse | BaseNumber nat | BaseText string

text \<open>\<open>Number(identifierBase) ? 1 : 0\<close>\<close>

fun base_of :: "id_base \<Rightarrow> nat" where
  "base_of (BaseNumber n) = (if n = 0 then 0 else 1)"
| "base_of (BaseText s) =
     (if list_all is_digit (js_trim s) \<and> nat_of_digits (js_trim s) \<noteq> 0 then 1 else 0)"
| "base_of _ = 0"

definition digits_or_exponent :: "string \<Rightarrow> bool" where
  "digits_or_exponent s \<longleftrightarrow> s = ''Infinity'' \<or>
     (let a = takeWhile is_digit s; r = drop (length a) s in
      a \<noteq> [] \<and> (case r of [] \<Rightarrow> True
        | e # x \<Rightarrow> (e = CHR ''e'' \<or> e = CHR ''E'') \<and>
            (case x of c # y \<Rightarrow> if c = CHR ''-'' then all_digits y else all_digits x | [] \<Rightarrow> False)))"

definition radix_literal :: "string \<Rightarrow> bool" where
  "radix_literal s \<longleftrightarrow>
     (case s of
        z # x # c # r \<Rightarrow> z = CHR ''0'' \<and>
          (((x = CHR ''x'' \<or> x = CHR ''X'') \<and> list_all (\<lambda>d. is_digit d \<or> upper_char d \<in> set ''ABCDEF'') (c # r)) \<or>
           ((x = CHR ''o'' \<or> x = CHR ''O'') \<and> list_all (\<lambda>d. d \<in> set ''01234567'') (c # r)) \<or>
           ((x = CHR ''b'' \<or> x = CHR ''B'') \<and> list_all (\<lambda>d. d \<in> set ''01'') (c # r)))
      | _ \<Rightarrow> False)"

text \<open>\<open>isNaN\<close> of an identifier: whether its text is no number literal.\<close>

fun ident_nan :: "ident \<Rightarrow> bool" where
  "ident_nan (PNum n) = False"
| "ident_nan (PStr s) =
     (\<not> (radix_literal s \<or> digits_or_exponent (case s of c # r \<Rightarrow> if c = CHR ''-'' then r else s | [] \<Rightarrow> [])))"

text \<open>The last number of the list is incremented, if there is one.\<close>

fun bump_first :: "ident list \<Rightarrow> ident list option" where
  "bump_first [] = None"
| "bump_first (PNum n # is) = Some (PNum (fl53 (Suc n)) # is)"
| "bump_first (PStr s # is) = map_option (Cons (PStr s)) (bump_first is)"

definition bump_last :: "ident list \<Rightarrow> ident list option" where
  "bump_last is = map_option rev (bump_first (rev is))"

definition inc_pre :: "string \<Rightarrow> id_base \<Rightarrow> semver \<Rightarrow> semver res" where
  "inc_pre identifier identifierBase v =
     (let base = base_of identifierBase in
      res_bind
        (if sv_prerelease v = [] then Inr [PNum base]
         else (case bump_last (sv_prerelease v) of
                 Some pre \<Rightarrow> Inr pre
               | None \<Rightarrow>
                   if identifier = prerelease_join (sv_prerelease v) \<and> identifierBase = BaseFalse
                   then Inl (Error ''invalid increment argument: identifier already exists'')
                   else Inr (sv_prerelease v @ [PNum base])))
        (\<lambda>pre.
           if identifier = [] then Inr (v\<lparr>sv_prerelease := pre\<rparr>)
           else
             (let fresh = (if identifierBase = BaseFalse then [PStr identifier] else [PStr identifier, PNum base]) in
              if compareIdentifiers (hd pre) (PStr identifier) = 0
              then Inr (v\<lparr>sv_prerelease :=
                     (if (case tl pre of [] \<Rightarrow> True | x # _ \<Rightarrow> ident_nan x) then fresh else pre)\<rparr>)
              else Inr (v\<lparr>sv_prerelease := fresh\<rparr>))))"

text \<open>The end of \<open>inc\<close>: \<open>raw\<close> is the new text with the build metadata.\<close>

definition finish_inc :: "semver \<Rightarrow> semver" where
  "finish_inc v =
     (let u = reformat v in
      u\<lparr>sv_raw := sv_version u @ (if sv_build u \<noteq> [] then ''+'' @ join ''.'' (sv_build u) else [])\<rparr>)"

definition inc_patch :: "semver \<Rightarrow> semver" where
  "inc_patch v = v\<lparr>sv_patch := (if sv_prerelease v = [] then fl53 (Suc (sv_patch v)) else sv_patch v), sv_prerelease := []\<rparr>"

definition inc_minor :: "semver \<Rightarrow> semver" where
  "inc_minor v =
     v\<lparr>sv_minor := (if sv_patch v \<noteq> 0 \<or> sv_prerelease v = [] then fl53 (Suc (sv_minor v)) else sv_minor v),
       sv_patch := 0, sv_prerelease := []\<rparr>"

definition inc_major :: "semver \<Rightarrow> semver" where
  "inc_major v =
     v\<lparr>sv_major := (if sv_minor v \<noteq> 0 \<or> sv_patch v \<noteq> 0 \<or> sv_prerelease v = [] then fl53 (Suc (sv_major v))
                   else sv_major v),
       sv_minor := 0, sv_patch := 0, sv_prerelease := []\<rparr>"

text \<open>
  The limits the safe patterns put on one identifier: a number has at most 257 digits, another at most
  256 leading digits and 250 characters behind the first other one. A version of at most
  \<open>MAX_LENGTH\<close> characters is within them; the \<open>identifier\<close> argument of \<open>inc\<close> may not be.
\<close>

definition identifier_fits :: "string \<Rightarrow> bool" where
  "identifier_fits s \<longleftrightarrow>
     (if list_all is_digit s then length s \<le> 257
      else length (takeWhile is_digit s) \<le> 256 \<and> length s \<le> length (takeWhile is_digit s) + 251)"

definition inc_arguments :: "string \<Rightarrow> string \<Rightarrow> id_base \<Rightarrow> unit res" where
  "inc_arguments release identifier identifierBase =
     (if \<not> starts_with release ''pre'' then Inr ()
      else if identifier = [] \<and> identifierBase = BaseFalse
      then Inl (Error ''invalid increment argument: identifier is empty'')
      else if identifier \<noteq> [] \<and> \<not> (prerelease_text identifier \<and> list_all identifier_fits (dot_parts identifier))
      then Inl (Error (''invalid identifier: '' @ identifier)) else Inr ())"

definition inc_switch :: "string \<Rightarrow> string \<Rightarrow> id_base \<Rightarrow> semver \<Rightarrow> semver res" where
  "inc_switch release identifier identifierBase v =
     (if release = ''premajor''
      then inc_pre identifier identifierBase
             (v\<lparr>sv_prerelease := [], sv_patch := 0, sv_minor := 0, sv_major := fl53 (Suc (sv_major v))\<rparr>)
      else if release = ''preminor''
      then inc_pre identifier identifierBase
             (v\<lparr>sv_prerelease := [], sv_patch := 0, sv_minor := fl53 (Suc (sv_minor v))\<rparr>)
      else if release = ''prepatch''
      then inc_pre identifier identifierBase (inc_patch (v\<lparr>sv_prerelease := []\<rparr>))
      else if release = ''prerelease''
      then inc_pre identifier identifierBase (if sv_prerelease v = [] then inc_patch v else v)
      else if release = ''release''
      then (if sv_prerelease v = []
            then Inl (Error (''version '' @ sv_raw v @ '' is not a prerelease''))
            else Inr (v\<lparr>sv_prerelease := []\<rparr>))
      else if release = ''major'' then Inr (inc_major v)
      else if release = ''minor'' then Inr (inc_minor v)
      else if release = ''patch'' then Inr (inc_patch v)
      else if release = ''pre'' then inc_pre identifier identifierBase v
      else Inl (Error (''invalid increment argument: '' @ release)))"

definition sv_inc :: "string \<Rightarrow> string \<Rightarrow> id_base \<Rightarrow> semver \<Rightarrow> semver res" where
  "sv_inc release identifier identifierBase v =
     res_bind (inc_arguments release identifier identifierBase) (\<lambda>_.
     res_bind (inc_switch release identifier identifierBase v) (\<lambda>u. Inr (finish_inc u)))"

section \<open>functions\<close>

definition sv_parse :: "string \<Rightarrow> semver option" where
  "sv_parse version = (case new_SemVer version of Inl e \<Rightarrow> None | Inr v \<Rightarrow> Some v)"

definition sv_valid :: "string \<Rightarrow> string option" where
  "sv_valid version = map_option sv_version (sv_parse version)"

definition sv_clean :: "string \<Rightarrow> string option" where
  "sv_clean version =
     map_option sv_version (sv_parse (dropWhile (\<lambda>c. c = CHR ''='' \<or> c = CHR ''v'') (js_trim version)))"

definition semver_inc :: "string \<Rightarrow> string \<Rightarrow> string \<Rightarrow> id_base \<Rightarrow> string option" where
  "semver_inc version release identifier identifierBase =
     (case res_bind (new_SemVer version) (sv_inc release identifier identifierBase) of
        Inl e \<Rightarrow> None | Inr v \<Rightarrow> Some (sv_version v))"

definition semver_diff :: "string \<Rightarrow> string \<Rightarrow> string option res" where
  "semver_diff version1 version2 =
     res_bind (new_SemVer version1) (\<lambda>v1. res_bind (new_SemVer version2) (\<lambda>v2.
       let comparison = sv_compare v1 v2 in
       if comparison = 0 then Inr None
       else
         (let highVersion = (if comparison > 0 then v1 else v2);
              lowVersion = (if comparison > 0 then v2 else v1);
              highHasPre = (sv_prerelease highVersion \<noteq> []);
              lowHasPre = (sv_prerelease lowVersion \<noteq> []);
              prefix = (if highHasPre then ''pre'' else []) in
          Inr (Some
            (if lowHasPre \<and> \<not> highHasPre \<and> sv_patch lowVersion = 0 \<and> sv_minor lowVersion = 0 then ''major''
             else if lowHasPre \<and> \<not> highHasPre \<and> compareMain lowVersion highVersion = 0
             then (if sv_minor lowVersion \<noteq> 0 \<and> sv_patch lowVersion = 0 then ''minor'' else ''patch'')
             else if sv_major v1 \<noteq> sv_major v2 then prefix @ ''major''
             else if sv_minor v1 \<noteq> sv_minor v2 then prefix @ ''minor''
             else if sv_patch v1 \<noteq> sv_patch v2 then prefix @ ''patch''
             else ''prerelease'')))))"

definition semver_major :: "string \<Rightarrow> nat res" where
  "semver_major a = res_bind (new_SemVer a) (\<lambda>v. Inr (sv_major v))"

definition semver_minor :: "string \<Rightarrow> nat res" where
  "semver_minor a = res_bind (new_SemVer a) (\<lambda>v. Inr (sv_minor v))"

definition semver_patch :: "string \<Rightarrow> nat res" where
  "semver_patch a = res_bind (new_SemVer a) (\<lambda>v. Inr (sv_patch v))"

definition semver_prerelease :: "string \<Rightarrow> ident list option" where
  "semver_prerelease version =
     (case sv_parse version of
        None \<Rightarrow> None | Some v \<Rightarrow> if sv_prerelease v \<noteq> [] then Some (sv_prerelease v) else None)"

definition semver_compare :: "string \<Rightarrow> string \<Rightarrow> int res" where
  "semver_compare a b =
     res_bind (new_SemVer a) (\<lambda>v. res_bind (new_SemVer b) (\<lambda>u. Inr (sv_compare v u)))"

definition semver_rcompare :: "string \<Rightarrow> string \<Rightarrow> int res" where
  "semver_rcompare a b = semver_compare b a"

definition semver_compareBuild :: "string \<Rightarrow> string \<Rightarrow> int res" where
  "semver_compareBuild a b =
     res_bind (new_SemVer a) (\<lambda>v. res_bind (new_SemVer b) (\<lambda>u.
       Inr (if sv_compare v u \<noteq> 0 then sv_compare v u else compareBuild v u)))"

definition semver_gt :: "string \<Rightarrow> string \<Rightarrow> bool res" where
  "semver_gt a b = res_bind (semver_compare a b) (\<lambda>c. Inr (c > 0))"

definition semver_lt :: "string \<Rightarrow> string \<Rightarrow> bool res" where
  "semver_lt a b = res_bind (semver_compare a b) (\<lambda>c. Inr (c < 0))"

definition semver_eq :: "string \<Rightarrow> string \<Rightarrow> bool res" where
  "semver_eq a b = res_bind (semver_compare a b) (\<lambda>c. Inr (c = 0))"

definition semver_neq :: "string \<Rightarrow> string \<Rightarrow> bool res" where
  "semver_neq a b = res_bind (semver_compare a b) (\<lambda>c. Inr (c \<noteq> 0))"

definition semver_gte :: "string \<Rightarrow> string \<Rightarrow> bool res" where
  "semver_gte a b = res_bind (semver_compare a b) (\<lambda>c. Inr (c \<ge> 0))"

definition semver_lte :: "string \<Rightarrow> string \<Rightarrow> bool res" where
  "semver_lte a b = res_bind (semver_compare a b) (\<lambda>c. Inr (c \<le> 0))"

text \<open>\<open>cmp\<close> on two strings.\<close>

definition semver_cmp :: "string \<Rightarrow> string \<Rightarrow> string \<Rightarrow> bool res" where
  "semver_cmp a op b =
     (if op = ''==='' then Inr (a = b)
      else if op = ''!=='' then Inr (a \<noteq> b)
      else if op \<in> {[], ''='', ''==''} then semver_eq a b
      else if op = ''!='' then semver_neq a b
      else if op = ''>'' then semver_gt a b
      else if op = ''>='' then semver_gte a b
      else if op = ''<'' then semver_lt a b
      else if op = ''<='' then semver_lte a b
      else Inl (TypeError (''Invalid operator: '' @ op)))"

definition build_cmp :: "string \<Rightarrow> string \<Rightarrow> int option" where
  "build_cmp a b = (case semver_compareBuild a b of Inl e \<Rightarrow> None | Inr n \<Rightarrow> Some n)"

text \<open>\<open>sort\<close> and \<open>rsort\<close>; a list of two or more with an invalid version throws.\<close>

definition semver_sort :: "string list \<Rightarrow> string list res" where
  "semver_sort list =
     (if length list < 2 then Inr list
      else if list_all (\<lambda>a. sv_parse a \<noteq> None) list then Inr (js_sort build_cmp list)
      else Inl (TypeError ''Invalid Version''))"

definition semver_rsort :: "string list \<Rightarrow> string list res" where
  "semver_rsort list =
     (if length list < 2 then Inr list
      else if list_all (\<lambda>a. sv_parse a \<noteq> None) list then Inr (js_sort (\<lambda>a b. build_cmp b a) list)
      else Inl (TypeError ''Invalid Version''))"

end
