(* ===== verification/SemverFacts.thy ===== *)
theory SemverFacts
  imports Semver Machine
begin

text \<open>
  Facts on \<open>semver\<close>. Parsing and formatting are inverse; \<open>compare\<close> is the precedence of the semantic
  versioning standard, the order of \<open>sv_key\<close>, on versions whose identifiers are exact; and every
  kind of increment moves a version up.

  An identifier is exact when it is a number, or no string of digits: a string of digits too large to
  be a safe integer stays a string but is compared as a rounded number, so two of them may compare equal.
\<close>

section \<open>Digits\<close>

lemma digit_char: "is_digit c \<Longrightarrow> char_of (48 + digit_val c) = c"
proof -
  assume "is_digit c"
  then have "48 \<le> (of_char c :: nat)" by (simp add: is_digit_def Let_def)
  then have "48 + digit_val c = of_char c" by (simp add: digit_val_def)
  then show ?thesis by (metis char_of_char)
qed

lemma digit_val_lt: "is_digit c \<Longrightarrow> digit_val c < 10"
  by (auto simp: is_digit_def digit_val_def Let_def)

lemma nat_of_digits_pos: "all_digits s \<Longrightarrow> hd s \<noteq> CHR ''0'' \<Longrightarrow> 0 < nat_of_digits s"
proof (induction s rule: rev_induct)
  case (snoc c t)
  show ?case
  proof (cases "t = []")
    case True
    with snoc.prems have "is_digit c" "c \<noteq> CHR ''0''" by (simp_all add: all_digits_def)
    moreover have "char_of (48 :: nat) = CHR ''0''" by code_simp
    ultimately have "digit_val c \<noteq> 0" using digit_char [of c] by (metis add.right_neutral)
    with True show ?thesis by (simp add: nat_of_digits_def)
  next
    case False
    with snoc show ?thesis by (simp add: all_digits_def nat_of_digits_snoc)
  qed
qed (simp add: all_digits_def)

lemma show_numeric: "numeric_identifier s \<Longrightarrow> show_nat (nat_of_digits s) = s"
proof (induction s rule: rev_induct)
  case (snoc c t)
  then have c: "is_digit c" and d: "list_all is_digit t" by (simp_all add: numeric_identifier_def all_digits_def)
  note v = digit_val_lt [OF c]
  show ?case
  proof (cases "t = []")
    case True
    then show ?thesis using v digit_char [OF c] by (simp add: nat_of_digits_def show_nat.simps [of "digit_val c"])
  next
    case False
    with snoc.prems have h: "hd t \<noteq> CHR ''0''" by (auto simp: numeric_identifier_def)
    with d False have t: "numeric_identifier t" by (simp add: numeric_identifier_def all_digits_def)
    have "0 < nat_of_digits t" using nat_of_digits_pos [of t] d False h by (simp add: all_digits_def)
    then have "\<not> nat_of_digits (t @ [c]) < 10" by (simp add: nat_of_digits_snoc)
    moreover have "nat_of_digits (t @ [c]) div 10 = nat_of_digits t" "nat_of_digits (t @ [c]) mod 10 = digit_val c"
      using v by (simp_all add: nat_of_digits_snoc)
    ultimately have "show_nat (nat_of_digits (t @ [c])) = show_nat (nat_of_digits t) @ [char_of (48 + digit_val c)]"
      by (subst show_nat.simps) (simp only: if_False)
    then show ?thesis using snoc.IH [OF t] digit_char [OF c] by simp
  qed
qed (simp add: numeric_identifier_def all_digits_def)

section \<open>Safe integers\<close>

lemma bit_count_power: "bit_count (2 ^ k) = Suc k"
  by (induction k) (simp_all add: bit_count_pos)

lemma fl53_le: "n \<le> 2 ^ 53 \<Longrightarrow> fl53 n = n"
proof (cases "n = 2 ^ 53")
  case True
  have "bit_count n = 54" unfolding True bit_count_power by simp
  with True show ?thesis by (simp add: fl53_def)
qed (simp add: fl53_exact)

lemma bit_count_upper: "n < 2 ^ bit_count n"
proof (induction n rule: less_induct)
  case (less n)
  show ?case
  proof (cases "n = 0")
    case False
    with less [of "n div 2"] have "n div 2 < 2 ^ bit_count (n div 2)" by simp
    with False show ?thesis by (simp add: bit_count_pos)
  qed simp
qed

lemma fl53_large: "2 ^ 53 \<le> n \<Longrightarrow> 2 ^ 53 \<le> fl53 n"
proof -
  assume n: "2 ^ 53 \<le> n"
  let ?s = "bit_count n - 53"
  have "\<not> bit_count n \<le> 53" if "n < 2 ^ bit_count n"
    using that n power_increasing [of "bit_count n" 53 "2::nat"] by linarith
  moreover have "n < 2 ^ bit_count n" by (rule bit_count_upper)
  ultimately have b: "53 < bit_count n" by simp
  have "2 ^ (bit_count n - 1) \<le> n" using bit_count_ge [of n] n by simp
  moreover have "bit_count n - 1 = 52 + ?s" using b by simp
  ultimately have "2 ^ 52 * 2 ^ ?s \<le> n" by (metis power_add)
  then have q: "2 ^ 52 \<le> n div 2 ^ ?s" by (simp add: less_eq_div_iff_mult_less_eq)
  have "2 ^ 53 \<le> (2::nat) ^ 52 * 2 ^ ?s"
    using b power_increasing [of 1 ?s "2::nat"] by simp
  also have "\<dots> \<le> n div 2 ^ ?s * 2 ^ ?s" using q by (rule mult_le_mono1)
  also have "\<dots> \<le> fl53 n" by (simp add: fl53_def Let_def)
  finally show ?thesis .
qed

lemma fl53_safe: "fl53 n \<le> MAX_SAFE_INTEGER \<Longrightarrow> fl53 n = n"
  using fl53_large [of n] fl53_exact [of n] by (cases "n < 2 ^ 53") (auto simp: MAX_SAFE_INTEGER_def)

section \<open>Parsing and formatting\<close>

lemma cut_none: "c \<notin> set s \<Longrightarrow> cut c s = (s, None)"
proof -
  assume "c \<notin> set s"
  then have "takeWhile (\<lambda>x. x \<noteq> c) s = s" by (auto simp: takeWhile_eq_all_conv)
  then show ?thesis unfolding cut_def Let_def by (simp only: simp_thms if_True)
qed

lemma cut_some: "c \<notin> set a \<Longrightarrow> cut c (a @ c # r) = (a, Some r)"
proof -
  assume "c \<notin> set a"
  then have "takeWhile (\<lambda>x. x \<noteq> c) (a @ c # r) = a" by (subst takeWhile_append2) auto
  then show ?thesis by (simp add: cut_def)
qed

definition tail_text :: "char \<Rightarrow> string option \<Rightarrow> string" where
  "tail_text c t = (case t of None \<Rightarrow> [] | Some p \<Rightarrow> c # p)"

lemma cut_text: "c \<notin> set a \<Longrightarrow> cut c (a @ tail_text c t) = (a, t)"
  by (cases t) (simp_all add: tail_text_def cut_none cut_some)

lemma cut_split: "cut c s = (a, t) \<Longrightarrow> s = a @ tail_text c t"
proof -
  assume c: "cut c s = (a, t)"
  let ?a = "takeWhile (\<lambda>x. x \<noteq> c) s"
  have s: "s = ?a @ dropWhile (\<lambda>x. x \<noteq> c) s" by simp
  show ?thesis
  proof (cases "dropWhile (\<lambda>x. x \<noteq> c) s")
    case Nil
    then have "?a = s" using s by (metis append_Nil2)
    then have "cut c s = (s, None)" unfolding cut_def Let_def by (simp only: simp_thms if_True)
    with c show ?thesis by (simp add: tail_text_def)
  next
    case (Cons d r)
    then have d: "d = c" using hd_dropWhile [of "\<lambda>x. x \<noteq> c" s] by simp
    have s': "s = ?a @ c # r" using s Cons d by simp
    then have "length ?a \<noteq> length s" by (metis append_Nil2 append_eq_append_conv list.discI length_append)
    moreover have "drop (Suc (length ?a)) s = r" by (subst (2) s') simp
    ultimately show ?thesis using c s' by (auto simp: cut_def tail_text_def Let_def)
  qed
qed

text \<open>The text of a version.\<close>

definition main_text :: "string \<Rightarrow> string \<Rightarrow> string \<Rightarrow> string" where
  "main_text a b c = join ''.'' [a, b, c]"

definition good_parts :: "string \<Rightarrow> string \<Rightarrow> string \<Rightarrow> string option \<Rightarrow> string option \<Rightarrow> bool" where
  "good_parts a b c pre build \<longleftrightarrow>
     numeric_identifier a \<and> numeric_identifier b \<and> numeric_identifier c \<and>
     (case pre of None \<Rightarrow> True | Some p \<Rightarrow> prerelease_text p) \<and>
     (case build of None \<Rightarrow> True | Some p \<Rightarrow> build_text p)"

lemma digit_not: "is_digit c \<Longrightarrow> c \<noteq> CHR ''.'' \<and> c \<noteq> CHR ''-'' \<and> c \<noteq> CHR ''+'' \<and> c \<noteq> CHR ''v'' \<and> \<not> is_ws c"
  by (auto simp: is_digit_def is_ws_def Let_def)

lemma ident_char_not: "ident_char c \<Longrightarrow> c \<noteq> CHR ''.'' \<and> c \<noteq> CHR ''+'' \<and> \<not> is_ws c"
proof -
  assume i: "ident_char c"
  show ?thesis
  proof (cases "is_digit c")
    case False
    with i consider "c = CHR ''-''" | "65 \<le> (of_char c :: nat) \<and> (of_char c :: nat) \<le> 122"
      by (auto simp: ident_char_def Let_def)
    then show ?thesis by cases (auto simp: is_ws_def)
  qed (use digit_not in blast)
qed

lemma digit_ident_char: "is_digit c \<Longrightarrow> ident_char c"
  by (simp add: ident_char_def)

lemma numeric_no: "numeric_identifier a \<Longrightarrow> x \<in> set a \<Longrightarrow> is_digit x"
  by (auto simp: numeric_identifier_def all_digits_def list_all_iff)

lemma parts_chars:
  assumes "list_all (list_all ident_char) (dot_parts p)" "x \<in> set p"
  shows "x = CHR ''.'' \<or> ident_char x"
proof -
  have p: "join ''.'' (dot_parts p) = p" unfolding dot_parts_def by (rule join_split_char)
  have "set (join ''.'' ps) \<subseteq> insert CHR ''.'' (\<Union> (set (map set ps)))" for ps
    by (induction "''.''" ps rule: join.induct) auto
  from subsetD [OF this] p assms(2) have "x \<in> insert CHR ''.'' (\<Union> (set (map set (dot_parts p))))" by metis
  with assms(1) show ?thesis by (auto simp: list_all_iff)
qed

lemma prerelease_chars: "prerelease_text p \<Longrightarrow> x \<in> set p \<Longrightarrow> x = CHR ''.'' \<or> ident_char x"
  by (rule parts_chars) (auto simp: prerelease_text_def prerelease_identifier_def build_identifier_def list_all_iff)

lemma main_text_chars:
  "numeric_identifier a \<Longrightarrow> numeric_identifier b \<Longrightarrow> numeric_identifier c \<Longrightarrow> x \<in> set (main_text a b c) \<Longrightarrow>
   x = CHR ''.'' \<or> is_digit x"
  using numeric_no [of a x] numeric_no [of b x] numeric_no [of c x] by (auto simp: main_text_def)

lemma match_full_text:
  assumes "good_parts a b c pre build"
  shows "match_full (main_text a b c @ tail_text CHR ''-'' pre @ tail_text CHR ''+'' build) = Some (a, b, c, pre, build)"
proof -
  let ?m = "main_text a b c"
  note num = assms [unfolded good_parts_def]
  have ch: "x = CHR ''.'' \<or> is_digit x" if "x \<in> set ?m" for x
    using that num main_text_chars by blast
  have h: "?m \<noteq> []" "hd ?m \<noteq> CHR ''v''"
    using num digit_not by (auto simp: main_text_def numeric_identifier_def all_digits_def neq_Nil_conv)
  have "CHR ''-'' \<notin> set ?m" "CHR ''+'' \<notin> set ?m" using ch digit_not by fastforce+
  moreover have "CHR ''+'' \<notin> set (tail_text CHR ''-'' pre)"
    using num prerelease_chars ident_char_not by (auto simp: tail_text_def split: option.splits)
  moreover have "dot_parts ?m = [a, b, c]"
    unfolding dot_parts_def main_text_def by (rule split_join) (use num numeric_no digit_not in auto)
  moreover have "(case ?m @ r of [] \<Rightarrow> [] | d # s \<Rightarrow> if d = CHR ''v'' then s else ?m @ r) = ?m @ r" for r
    using h by (cases ?m) auto
  ultimately show ?thesis
    using num cut_text [of "CHR ''+''" "?m @ tail_text CHR ''-'' pre" build]
    by (simp add: match_full_def cut_text)
qed

lemma match_full_Some:
  assumes "match_full s = Some (a, b, c, pre, build)"
  shows "good_parts a b c pre build \<and>
    length (main_text a b c @ tail_text CHR ''-'' pre @ tail_text CHR ''+'' build) \<le> length s"
proof -
  define s1 where "s1 = (case s of [] \<Rightarrow> [] | d # r \<Rightarrow> if d = CHR ''v'' then r else s)"
  have l: "length s1 \<le> length s" by (simp add: s1_def split: list.split)
  obtain core build' where c1: "cut CHR ''+'' s1 = (core, build')" by fastforce
  obtain main pre' where c2: "cut CHR ''-'' core = (main, pre')" by fastforce
  from assms c1 c2 have g: "good_parts a b c pre build" and m: "dot_parts main = [a, b, c]" "pre' = pre" "build' = build"
    by (auto simp: match_full_def good_parts_def s1_def [symmetric] split: list.splits if_splits)
  have "main = main_text a b c" using m(1) join_split_char [of "CHR ''.''" main] by (simp add: main_text_def dot_parts_def)
  with cut_split [OF c1] cut_split [OF c2] m l g show ?thesis by simp
qed

section \<open>Round trip\<close>

lemma parse_ident_text: "prerelease_identifier x \<Longrightarrow> ident_text (parse_ident x) = x"
proof -
  assume p: "prerelease_identifier x"
  show ?thesis
  proof (cases "all_digits x \<and> fl53 (nat_of_digits x) < MAX_SAFE_INTEGER")
    case True
    then have "fl53 (nat_of_digits x) = nat_of_digits x" by (intro fl53_safe) simp
    moreover have "numeric_identifier x" using p True by (simp add: prerelease_identifier_def)
    ultimately show ?thesis using True by (simp add: parse_ident_def show_numeric)
  next
    case False
    then show ?thesis by (auto simp: parse_ident_def)
  qed
qed

lemma prerelease_join_parse: "prerelease_text p \<Longrightarrow> prerelease_join (map parse_ident (dot_parts p)) = p"
proof -
  assume "prerelease_text p"
  then have "map (ident_text \<circ> parse_ident) (dot_parts p) = dot_parts p"
    by (intro map_idI) (auto simp: prerelease_text_def list_all_iff parse_ident_text)
  then have "prerelease_join (map parse_ident (dot_parts p)) = join ''.'' (dot_parts p)"
    by (simp only: prerelease_join_def map_map)
  then show ?thesis by (simp add: dot_parts_def join_split_char)
qed

lemma dot_parts_nonempty [simp]: "dot_parts p \<noteq> []"
  by (simp add: dot_parts_def)

text \<open>What the constructor stores.\<close>

definition built :: "string \<Rightarrow> string \<Rightarrow> string \<Rightarrow> string option \<Rightarrow> string option \<Rightarrow> string \<Rightarrow> semver" where
  "built a b c pre build raw =
     \<lparr>sv_major = nat_of_digits a, sv_minor = nat_of_digits b, sv_patch = nat_of_digits c,
      sv_prerelease = (case pre of None \<Rightarrow> [] | Some p \<Rightarrow> map parse_ident (dot_parts p)),
      sv_build = (case build of None \<Rightarrow> [] | Some p \<Rightarrow> dot_parts p),
      sv_raw = raw, sv_version = main_text a b c @ tail_text CHR ''-'' pre\<rparr>"

definition safe_parts :: "string \<Rightarrow> string \<Rightarrow> string \<Rightarrow> bool" where
  "safe_parts a b c \<longleftrightarrow> nat_of_digits a \<le> MAX_SAFE_INTEGER \<and> nat_of_digits b \<le> MAX_SAFE_INTEGER \<and>
     nat_of_digits c \<le> MAX_SAFE_INTEGER"

lemma new_SemVer_Some:
  assumes "length t \<le> MAX_LENGTH" "match_full (js_trim t) = Some (a, b, c, pre, build)"
    and safe: "safe_parts a b c"
  shows "new_SemVer t = Inr (built a b c pre build t)"
proof -
  have g: "good_parts a b c pre build" using match_full_Some [OF assms(2)] by blast
  have "fl53 (nat_of_digits x) = nat_of_digits x" if "nat_of_digits x \<le> MAX_SAFE_INTEGER" for x
    using that by (intro fl53_le) (simp add: MAX_SAFE_INTEGER_def)
  note f = this [of a] this [of b] this [of c]
  from assms f g show ?thesis
    by (cases pre) (simp_all add: new_SemVer_def Let_def safe_parts_def reformat_def format_text_def built_def main_text_def
        tail_text_def good_parts_def show_numeric prerelease_join_parse)
qed

lemma new_SemVer_Inr:
  assumes "new_SemVer t = Inr v"
  obtains a b c pre build where "good_parts a b c pre build" "safe_parts a b c" "v = built a b c pre build t"
    "length (main_text a b c @ tail_text CHR ''-'' pre) \<le> MAX_LENGTH"
proof -
  from assms obtain a b c pre build where l: "length t \<le> MAX_LENGTH" and m: "match_full (js_trim t) = Some (a, b, c, pre, build)"
    and f: "fl53 (nat_of_digits a) \<le> MAX_SAFE_INTEGER" "fl53 (nat_of_digits b) \<le> MAX_SAFE_INTEGER"
      "fl53 (nat_of_digits c) \<le> MAX_SAFE_INTEGER"
    by (auto simp: new_SemVer_def Let_def split: if_splits option.splits)
  from f have s: "safe_parts a b c" using f [THEN fl53_safe] by (simp add: safe_parts_def)
  have "length (js_trim t) \<le> length t"
    by (metis js_trim_def js_trim_end_def js_trim_start_def length_dropWhile_le length_rev order_trans)
  with match_full_Some [OF m] l have n: "length (main_text a b c @ tail_text CHR ''-'' pre) \<le> MAX_LENGTH" by simp
  have g: "good_parts a b c pre build" using match_full_Some [OF m] by (rule conjunct1)
  have v: "v = built a b c pre build t" using new_SemVer_Some [OF l m s] assms by simp
  show ?thesis by (rule that [OF g s v n])
qed

lemma version_trim:
  assumes "good_parts a b c pre build"
  shows "js_trim (main_text a b c @ tail_text CHR ''-'' pre) = main_text a b c @ tail_text CHR ''-'' pre" (is "js_trim ?s = ?s")
proof -
  have "\<not> is_ws x" if "x \<in> set ?s" for x
  proof -
    from that consider "x \<in> set (main_text a b c)" | "x = CHR ''-''" | p where "pre = Some p" "x \<in> set p"
      by (auto simp: tail_text_def split: option.splits)
    then show ?thesis
    proof cases
      case 1
      then have "x = CHR ''.'' \<or> is_digit x" using main_text_chars [of a b c x] assms by (simp add: good_parts_def)
      then show ?thesis
      proof
        assume "is_digit x"
        from digit_not [OF this] show ?thesis by blast
      qed (simp add: is_ws_def)
    next
      case 2
      then show ?thesis by (simp add: is_ws_def)
    next
      case 3
      then have "x = CHR ''.'' \<or> ident_char x" using prerelease_chars [of p x] assms by (simp add: good_parts_def)
      then show ?thesis
      proof
        assume "ident_char x"
        from ident_char_not [OF this] show ?thesis by blast
      qed (simp add: is_ws_def)
    qed
  qed
  moreover have "?s \<noteq> []" by (simp add: main_text_def)
  ultimately show ?thesis using hd_in_set last_in_set by (metis trim_plain)
qed

lemma reparse:
  assumes "new_SemVer t = Inr v"
  shows "new_SemVer (sv_version v) = Inr (v\<lparr>sv_build := [], sv_raw := sv_version v\<rparr>)"
proof -
  from assms obtain a b c pre build where g: "good_parts a b c pre build" and s: "safe_parts a b c"
    and v: "v = built a b c pre build t" and l: "length (main_text a b c @ tail_text CHR ''-'' pre) \<le> MAX_LENGTH"
    by (rule new_SemVer_Inr)
  from g have "good_parts a b c pre None" by (simp add: good_parts_def)
  from match_full_text [OF this] have "match_full (main_text a b c @ tail_text CHR ''-'' pre) = Some (a, b, c, pre, None)"
    by (simp add: tail_text_def)
  then have "match_full (js_trim (main_text a b c @ tail_text CHR ''-'' pre)) = Some (a, b, c, pre, None)"
    unfolding version_trim [OF g] .
  from new_SemVer_Some [OF l this s] v show ?thesis by (simp add: built_def)
qed

section \<open>Precedence\<close>

text \<open>Numbers come before strings, numbers by value, strings by their characters.\<close>

instantiation ident :: linorder
begin

fun less_eq_ident :: "ident \<Rightarrow> ident \<Rightarrow> bool" where
  "less_eq_ident (PNum m) (PNum n) = (m \<le> n)"
| "less_eq_ident (PNum m) (PStr t) = True"
| "less_eq_ident (PStr s) (PNum n) = False"
| "less_eq_ident (PStr s) (PStr t) = (s \<le> t)"

definition less_ident :: "ident \<Rightarrow> ident \<Rightarrow> bool" where
  "less_ident a b \<longleftrightarrow> a \<le> b \<and> \<not> b \<le> a"

instance
proof
  fix x y z :: ident
  show "x < y \<longleftrightarrow> x \<le> y \<and> \<not> y \<le> x" by (rule less_ident_def)
  show "x \<le> x" by (cases x) auto
  show "x \<le> y \<Longrightarrow> y \<le> z \<Longrightarrow> x \<le> z" by (cases x; cases y; cases z) auto
  show "x \<le> y \<Longrightarrow> y \<le> x \<Longrightarrow> x = y" by (cases x; cases y) auto
  show "x \<le> y \<or> y \<le> x" by (cases x; cases y) auto
qed

end

fun exact_ident :: "ident \<Rightarrow> bool" where
  "exact_ident (PNum n) = True"
| "exact_ident (PStr s) = (s \<noteq> [] \<and> \<not> all_digits s \<and> CHR ''.'' \<notin> set s)"

definition exact :: "semver \<Rightarrow> bool" where
  "exact v \<longleftrightarrow> list_all exact_ident (sv_prerelease v) \<and> sv_version v = format_text v"

text \<open>A version without prerelease identifiers comes after all with the same numbers that have some.\<close>

definition sv_key :: "semver \<Rightarrow> nat \<times> nat \<times> nat \<times> bool \<times> ident list" where
  "sv_key v = (sv_major v, sv_minor v, sv_patch v, sv_prerelease v = [], sv_prerelease v)"

definition order_of :: "'a :: linorder \<Rightarrow> 'a \<Rightarrow> int" where
  "order_of a b = (if a < b then -1 else if a = b then 0 else 1)"

lemma compareIdentifiers_order:
  "exact_ident a \<Longrightarrow> exact_ident b \<Longrightarrow> compareIdentifiers a b = order_of a b"
  by (cases a; cases b) (auto simp: compareIdentifiers_def order_of_def less_ident_def)

lemma compare_idents_order:
  "list_all exact_ident as \<Longrightarrow> list_all exact_ident bs \<Longrightarrow> compare_idents as bs = order_of as bs"
proof (induction as bs rule: compare_idents.induct)
  case (4 a as b bs)
  then show ?case using compareIdentifiers_order [of a b] by (auto simp: order_of_def)
qed (simp_all add: order_of_def)

lemma compare_key:
  assumes "list_all exact_ident (sv_prerelease v)" "list_all exact_ident (sv_prerelease u)"
  shows "(if compareMain v u \<noteq> 0 then compareMain v u else comparePre v u) = order_of (sv_key v) (sv_key u)"
  using compare_idents_order [OF assms]
  by (cases "sv_prerelease v = []"; cases "sv_prerelease u = []")
    (auto simp: compareMain_def comparePre_def sv_key_def order_of_def less_prod_def)

text \<open>The text determines an exact version.\<close>

lemma format_main_tail: "format_text v =
    main_text (show_nat (sv_major v)) (show_nat (sv_minor v)) (show_nat (sv_patch v)) @
    tail_text CHR ''-'' (if sv_prerelease v = [] then None else Some (prerelease_join (sv_prerelease v)))"
  by (simp add: format_text_def main_text_def tail_text_def)

lemma ident_text_no_dot: "exact_ident i \<Longrightarrow> CHR ''.'' \<notin> set (ident_text i)"
  using show_nat_digits digit_not by (cases i) auto

lemma ident_text_inj: "exact_ident i \<Longrightarrow> exact_ident j \<Longrightarrow> ident_text i = ident_text j \<Longrightarrow> i = j"
proof -
  have "all_digits (show_nat n)" for n using show_nat_digits by (auto simp: all_digits_def list_all_iff)
  then show "exact_ident i \<Longrightarrow> exact_ident j \<Longrightarrow> ident_text i = ident_text j \<Longrightarrow> i = j"
    by (cases i; cases j) (auto dest: show_nat_inj)
qed

lemma show_no: "CHR ''.'' \<notin> set (show_nat n)" "CHR ''-'' \<notin> set (show_nat n)"
  using show_nat_digits digit_not by blast+

lemma idents_inj:
  assumes "list_all exact_ident as" "list_all exact_ident bs" "map ident_text as = map ident_text bs"
  shows "as = bs"
proof -
  have "list_all2 (\<lambda>i j. ident_text i = ident_text j) as bs"
    using assms(3) by (simp add: list_all2_map1 [symmetric] list_all2_map2 [symmetric] list_all2_conv_all_nth) (metis length_map nth_map)
  then have "list_all2 (=) as bs"
    using assms(1,2) by (auto simp: list_all2_conv_all_nth list_all_length intro: ident_text_inj)
  then show ?thesis by (simp add: list.rel_eq)
qed

lemma format_inj:
  assumes "list_all exact_ident (sv_prerelease v)" "list_all exact_ident (sv_prerelease u)"
    and "format_text v = format_text u"
  shows "sv_key v = sv_key u"
proof -
  let ?m = "\<lambda>v. main_text (show_nat (sv_major v)) (show_nat (sv_minor v)) (show_nat (sv_patch v))"
  let ?p = "\<lambda>v. if sv_prerelease v = [] then None else Some (prerelease_join (sv_prerelease v))"
  have m: "CHR ''-'' \<notin> set (?m v)" for v using show_no by (auto simp: main_text_def)
  have "cut CHR ''-'' (format_text v) = (?m v, ?p v)" for v
    unfolding format_main_tail by (rule cut_text [OF m])
  from this [of v] this [of u] assms(3) have main: "?m v = ?m u" and pre: "?p v = ?p u" by simp_all
  have "dot_parts (?m v) = [show_nat (sv_major v), show_nat (sv_minor v), show_nat (sv_patch v)]" for v
    unfolding dot_parts_def main_text_def by (rule split_join) (use show_no in auto)
  from this [of v] this [of u] have "[show_nat (sv_major v), show_nat (sv_minor v), show_nat (sv_patch v)] =
      [show_nat (sv_major u), show_nat (sv_minor u), show_nat (sv_patch u)]"
    unfolding main by (rule trans [OF sym])
  then have nums: "sv_major v = sv_major u" "sv_minor v = sv_minor u" "sv_patch v = sv_patch u"
    by (simp_all add: show_nat_inj)
  have parts: "dot_parts (prerelease_join is) = map ident_text is" if "is \<noteq> []" "list_all exact_ident is" for "is"
    unfolding dot_parts_def prerelease_join_def
    by (rule split_join) (use that ident_text_no_dot in \<open>auto simp: list_all_iff\<close>)
  have "sv_prerelease v = sv_prerelease u"
  proof (cases "sv_prerelease v = []")
    case True
    with pre show ?thesis by (auto split: if_splits)
  next
    case False
    with pre have "sv_prerelease u \<noteq> []" "prerelease_join (sv_prerelease v) = prerelease_join (sv_prerelease u)"
      by (auto split: if_splits)
    with parts [OF False assms(1)] parts [OF _ assms(2)] show ?thesis using idents_inj [OF assms(1,2)] by simp
  qed
  with nums show ?thesis by (simp add: sv_key_def)
qed

lemma sv_compare_order: "exact v \<Longrightarrow> exact u \<Longrightarrow> sv_compare v u = order_of (sv_key v) (sv_key u)"
  using compare_key [of v u] format_inj [of v u] by (auto simp: sv_compare_def exact_def order_of_def)

interpretation version_order: comparator "\<lambda>v u. Some (sv_compare v u)" exact
  by unfold_locales (auto simp: sv_compare_order cmp_value_def order_of_def split: if_splits)

text \<open>Parsed versions store their text.\<close>

lemma parsed_text: "new_SemVer t = Inr v \<Longrightarrow> sv_version v = format_text v"
proof -
  assume "new_SemVer t = Inr v"
  then obtain a b c pre build where "good_parts a b c pre build" "v = built a b c pre build t" by (elim new_SemVer_Inr)
  then show ?thesis
    by (cases pre) (simp_all add: built_def good_parts_def format_text_def main_text_def tail_text_def show_numeric
        prerelease_join_parse)
qed

lemma parsed_number: "new_SemVer t = Inr v \<Longrightarrow> PNum n \<in> set (sv_prerelease v) \<Longrightarrow> n < MAX_SAFE_INTEGER"
proof -
  assume "new_SemVer t = Inr v" "PNum n \<in> set (sv_prerelease v)"
  then obtain a b c pre build where "v = built a b c pre build t" by (elim new_SemVer_Inr)
  with \<open>PNum n \<in> set (sv_prerelease v)\<close> show ?thesis
    by (auto simp: built_def parse_ident_def split: option.splits if_splits)
qed

lemma parsed_safe:
  "new_SemVer t = Inr v \<Longrightarrow> sv_major v \<le> MAX_SAFE_INTEGER \<and> sv_minor v \<le> MAX_SAFE_INTEGER \<and> sv_patch v \<le> MAX_SAFE_INTEGER"
  by (elim new_SemVer_Inr) (simp add: built_def safe_parts_def)

section \<open>Increments\<close>

lemma less_append_right: "length xs = length ys \<Longrightarrow> xs < ys \<Longrightarrow> xs @ zs < ys @ (zs :: 'a :: linorder list)"
  by (induction xs ys rule: list_induct2) auto

lemma less_append_left: "xs < ys \<Longrightarrow> zs @ xs < zs @ (ys :: 'a :: linorder list)"
  by (induction zs) auto

lemma bump_first_greater:
  assumes "bump_first is = Some js" "\<And>n. PNum n \<in> set is \<Longrightarrow> n < MAX_SAFE_INTEGER"
  shows "rev is < rev js \<and> js \<noteq> [] \<and> (list_all exact_ident is \<longrightarrow> list_all exact_ident js)"
  using assms
proof (induction "is" arbitrary: js rule: bump_first.induct)
  case (2 n "is")
  then have "n < MAX_SAFE_INTEGER" by simp
  then have "fl53 (Suc n) = Suc n" by (intro fl53_le) (simp add: MAX_SAFE_INTEGER_def)
  moreover have "rev is @ [PNum n] < rev is @ [PNum (Suc n)]" by (rule less_append_left) (simp add: less_ident_def)
  ultimately show ?case using 2 by auto
next
  case (3 s "is")
  then obtain ks where ks: "bump_first is = Some ks" "js = PStr s # ks" by auto
  with 3 have "rev is < rev ks" by simp
  have "length ks = length is" using ks(1)
    by (induction "is" arbitrary: ks rule: bump_first.induct) auto
  with \<open>rev is < rev ks\<close> have "rev is @ [PStr s] < rev ks @ [PStr s]"
    by (intro less_append_right) simp_all
  with ks 3 show ?case by auto
qed simp

lemma append_greater: "is < is @ [x :: ident]"
  by (induction "is") (auto simp: less_ident_def)

lemma bump_last_greater:
  assumes "bump_last is = Some js" "\<And>n. PNum n \<in> set is \<Longrightarrow> n < MAX_SAFE_INTEGER"
  shows "is < js \<and> js \<noteq> [] \<and> (list_all exact_ident is \<longrightarrow> list_all exact_ident js)"
  using assms bump_first_greater [of "rev is"] by (auto simp: bump_last_def list_all_iff)

lemma inc_pre_greater:
  assumes "inc_pre [] base v = Inr u" "\<And>n. PNum n \<in> set (sv_prerelease v) \<Longrightarrow> n < MAX_SAFE_INTEGER"
  shows "\<exists>ps. u = v\<lparr>sv_prerelease := ps\<rparr> \<and> ps \<noteq> [] \<and>
    (sv_prerelease v \<noteq> [] \<longrightarrow> sv_prerelease v < ps) \<and>
    (list_all exact_ident (sv_prerelease v) \<longrightarrow> list_all exact_ident ps)"
  using assms bump_last_greater [of "sv_prerelease v"] append_greater [of "sv_prerelease v"]
  by (auto simp: inc_pre_def Let_def res_bind_Inr split: if_splits option.splits)

lemma fl53_Suc: "n \<le> MAX_SAFE_INTEGER \<Longrightarrow> fl53 (Suc n) = Suc n"
  by (rule fl53_le) (simp add: MAX_SAFE_INTEGER_def)

lemma finish_inc_key: "sv_key (finish_inc u) = sv_key u"
  and finish_inc_exact: "list_all exact_ident (sv_prerelease u) \<Longrightarrow> exact (finish_inc u)"
  by (simp_all add: finish_inc_def reformat_def sv_key_def exact_def format_text_def Let_def)

lemma inc_switch_greater:
  assumes run: "inc_switch release [] base v = Inr x"
    and nums: "\<And>n. PNum n \<in> set (sv_prerelease v) \<Longrightarrow> n < MAX_SAFE_INTEGER"
    and safe: "sv_major v \<le> MAX_SAFE_INTEGER" "sv_minor v \<le> MAX_SAFE_INTEGER" "sv_patch v \<le> MAX_SAFE_INTEGER"
    and e: "list_all exact_ident (sv_prerelease v)" and pre: "release = ''pre'' \<Longrightarrow> sv_prerelease v \<noteq> []"
  shows "sv_key v < sv_key x \<and> list_all exact_ident (sv_prerelease x)"
  using run unfolding inc_switch_def
  by (auto simp: inc_major_def inc_minor_def inc_patch_def sv_key_def less_prod_def fl53_Suc safe e pre nums
      split: if_splits dest!: inc_pre_greater)

lemma sv_inc_greater:
  assumes "sv_inc release [] base v = Inr u" "new_SemVer t = Inr v" "exact v"
    and "release = ''pre'' \<Longrightarrow> sv_prerelease v \<noteq> []"
  shows "sv_key v < sv_key u \<and> exact u"
proof -
  obtain x where "inc_switch release [] base v = Inr x" and u: "u = finish_inc x"
    using assms(1) by (auto simp: sv_inc_def res_bind_Inr)
  from inc_switch_greater [OF this(1)] have "sv_key v < sv_key x \<and> list_all exact_ident (sv_prerelease x)"
    using parsed_safe [OF assms(2)] parsed_number [OF assms(2)] assms(3,4) by (simp add: exact_def)
  then show ?thesis by (simp add: u finish_inc_key finish_inc_exact)
qed

text \<open>Small numbers, for evaluation.\<close>

lemma safe_small: "safe_parts a b c \<longleftrightarrow> nat_of_digits a \<le> 9007199254740991 \<and> nat_of_digits b \<le> 9007199254740991 \<and>
    nat_of_digits c \<le> 9007199254740991"
  by (simp add: safe_parts_def MAX_SAFE_INTEGER_def)

lemma parse_ident_small:
  "all_digits i \<Longrightarrow> nat_of_digits i < MAX_SAFE_INTEGER \<Longrightarrow> parse_ident i = PNum (nat_of_digits i)"
  using fl53_le [of "nat_of_digits i"] by (simp add: parse_ident_def MAX_SAFE_INTEGER_def)

lemma parse_ident_word: "\<not> all_digits i \<Longrightarrow> parse_ident i = PStr i"
  by (simp add: parse_ident_def)

section \<open>Properties\<close>

text \<open>
  C31: formatting a parsed version and parsing it again gives the same numbers and prerelease
  identifiers; only the build metadata, which the text leaves out, is gone.
\<close>

theorem version_roundtrip:
  assumes "new_SemVer t = Inr v"
  shows "new_SemVer (sv_version v) = Inr (v\<lparr>sv_build := [], sv_raw := sv_version v\<rparr>) \<and>
    sv_valid (sv_version v) = Some (sv_version v)"
  using reparse [OF assms] by (simp add: sv_valid_def sv_parse_def)

theorem version_roundtrip_witness:
  "sv_valid ''1.2.3-rc.1'' = Some ''1.2.3-rc.1''"
proof -
  have "match_full (js_trim '' v1.2.3-rc.1+b'') = Some (''1'', ''2'', ''3'', Some ''rc.1'', Some ''b'')" by code_simp
  from new_SemVer_Some [OF _ this] have r: "new_SemVer '' v1.2.3-rc.1+b'' = Inr (built ''1'' ''2'' ''3'' (Some ''rc.1'') (Some ''b'') '' v1.2.3-rc.1+b'')"
    by (simp add: MAX_LENGTH_def safe_small nat_of_digits_def digit_val_def)
  from version_roundtrip [OF r] show ?thesis by (simp add: built_def main_text_def tail_text_def)
qed

text \<open>
  C32: \<open>compare\<close> of two valid versions is their precedence in the order of the standard: by the three
  numbers, then a version with prerelease identifiers before the one without, then the identifiers one
  by one, numbers by value before words, a prefix first. (Numeric identifiers beyond the safe integers
  are excluded: the code compares them rounded.)
\<close>

theorem compare_is_precedence:
  assumes "new_SemVer a = Inr v" "new_SemVer b = Inr u"
    and "list_all exact_ident (sv_prerelease v)" "list_all exact_ident (sv_prerelease u)"
  shows "semver_compare a b = Inr (if sv_key v < sv_key u then -1 else if sv_key v = sv_key u then 0 else 1)"
  using assms sv_compare_order [of v u] parsed_text [OF assms(1)] parsed_text [OF assms(2)]
  by (simp add: semver_compare_def exact_def order_of_def)

theorem compare_is_precedence_witness:
  "semver_compare ''1.0.0-beta.2'' ''1.0.0-beta.11'' = Inr (-1) \<and>
   semver_compare ''1.0.0-beta.2'' ''1.0.0'' = Inr (-1)"
proof -
  let ?v = "built ''1'' ''0'' ''0'' (Some ''beta.2'') None ''1.0.0-beta.2''"
    and ?u = "built ''1'' ''0'' ''0'' (Some ''beta.11'') None ''1.0.0-beta.11''"
    and ?w = "built ''1'' ''0'' ''0'' None None ''1.0.0''"
  have m: "match_full (js_trim ''1.0.0-beta.2'') = Some (''1'', ''0'', ''0'', Some ''beta.2'', None)"
    "match_full (js_trim ''1.0.0-beta.11'') = Some (''1'', ''0'', ''0'', Some ''beta.11'', None)"
    "match_full (js_trim ''1.0.0'') = Some (''1'', ''0'', ''0'', None, None)" by code_simp+
  have p: "new_SemVer ''1.0.0-beta.2'' = Inr ?v" "new_SemVer ''1.0.0-beta.11'' = Inr ?u" "new_SemVer ''1.0.0'' = Inr ?w"
    by (rule new_SemVer_Some [OF _ m(1)] new_SemVer_Some [OF _ m(2)] new_SemVer_Some [OF _ m(3)],
        simp add: MAX_LENGTH_def, simp add: safe_small nat_of_digits_def digit_val_def)+
  have d: "dot_parts ''beta.2'' = [''beta'', ''2'']" "dot_parts ''beta.11'' = [''beta'', ''11'']" by code_simp+
  have i: "parse_ident ''beta'' = PStr ''beta''" "parse_ident ''2'' = PNum 2" "parse_ident ''11'' = PNum 11"
    by (simp_all add: parse_ident_word parse_ident_small all_digits_def is_digit_def nat_of_digits_def digit_val_def MAX_SAFE_INTEGER_def)
  have pre: "sv_prerelease ?v = [PStr ''beta'', PNum 2]" "sv_prerelease ?u = [PStr ''beta'', PNum 11]" "sv_prerelease ?w = []"
    by (simp_all add: built_def d i)
  have e: "list_all exact_ident (sv_prerelease ?v)" "list_all exact_ident (sv_prerelease ?u)"
    "list_all exact_ident (sv_prerelease ?w)" unfolding pre by (simp_all add: all_digits_def is_digit_def)
  have n: "sv_major (built a b c q r t) = nat_of_digits a" "sv_minor (built a b c q r t) = nat_of_digits b"
    "sv_patch (built a b c q r t) = nat_of_digits c" for a b c q r t by (simp_all add: built_def)
  have k: "sv_key ?v < sv_key ?u" "sv_key ?v < sv_key ?w"
    by (simp_all add: sv_key_def pre n less_prod_def less_ident_def)
  from compare_is_precedence [OF p(1,2) e(1,2)] compare_is_precedence [OF p(1,3) e(1,3)] k show ?thesis by simp
qed

text \<open>
  Every kind of increment without an identifier gives a version that comes after the old one.
  (The internal kind \<open>pre\<close> of a version that has no prerelease identifiers is excluded, as the code's
  comment says.)
\<close>

theorem inc_goes_up:
  assumes "new_SemVer t = Inr v" "list_all exact_ident (sv_prerelease v)"
    and "sv_inc release [] base v = Inr u" and "release = ''pre'' \<Longrightarrow> sv_prerelease v \<noteq> []"
  shows "sv_compare u v = 1 \<and> sv_compare v u = -1"
proof -
  have v: "exact v" using assms(2) parsed_text [OF assms(1)] by (simp add: exact_def)
  from sv_inc_greater [OF assms(3,1) v assms(4)] have "sv_key v < sv_key u" "exact u" by auto
  then show ?thesis using v less_asym by (auto simp: sv_compare_order order_of_def)
qed

theorem inc_goes_up_witness:
  "sv_compare (finish_inc (inc_patch (built ''1'' ''2'' ''3'' None None ''1.2.3'')))
     (built ''1'' ''2'' ''3'' None None ''1.2.3'') = 1"
proof -
  let ?v = "built ''1'' ''2'' ''3'' None None ''1.2.3''"
  have "match_full (js_trim ''1.2.3'') = Some (''1'', ''2'', ''3'', None, None)" by code_simp
  from new_SemVer_Some [OF _ this] have p: "new_SemVer ''1.2.3'' = Inr ?v" by (simp add: MAX_LENGTH_def safe_small nat_of_digits_def digit_val_def)
  have "list_all exact_ident (sv_prerelease ?v)" by (simp add: built_def)
  moreover have "sv_inc ''patch'' [] BaseUndefined ?v = Inr (finish_inc (inc_patch ?v))"
    by (simp add: sv_inc_def inc_arguments_def inc_switch_def)
  ultimately show ?thesis using inc_goes_up [OF p, of "''patch''"] by simp
qed

end
