(* ===== verification/SemverRe.thy ===== *)
theory SemverRe
  imports Regex SemverFacts
begin

text \<open>
  \<open>semver/internal/re.js\<close>: the patterns of versions, comparators and ranges, in the safe variants that
  \<open>makeSafeRegex\<close> builds and the classes use, where \<open>\s*\<close>, \<open>\d*\<close> and \<open>[a-zA-Z0-9-]*\<close> are bounded.
  A pattern that is spliced into another takes the number of its first group.

  \<open>full_pattern\<close> is that the pattern of strict versions and the recogniser \<open>match_full\<close> agree, so the
  facts of theory \<open>SemverFacts\<close> are about what the regular expression engine returns.
\<close>

section \<open>Tokens\<close>

definition MAX_SAFE_BUILD_LENGTH :: nat where "MAX_SAFE_BUILD_LENGTH = 250"

definition MAX_SAFE_COMPONENT_LENGTH :: nat where "MAX_SAFE_COMPONENT_LENGTH = 16"

definition digit_re :: re where "digit_re = Cls is_digit"
definition digits_star :: re where "digits_star = Rep MAX_LENGTH digit_re"
definition digits_plus :: re where "digits_plus = many MAX_LENGTH digit_re"
definition word_re :: re where "word_re = Cls ident_char"
definition word_star :: re where "word_star = Rep MAX_SAFE_BUILD_LENGTH word_re"
definition word_plus :: re where "word_plus = many MAX_SAFE_BUILD_LENGTH word_re"
definition ws_star :: re where "ws_star = Rep 1 (Cls is_ws)"
definition ws_plus :: re where "ws_plus = many 1 (Cls is_ws)"

text \<open>\<open>[v=\s]*\<close>, which is no \<open>\s*\<close> and stays unbounded, and \<open>\.\<close>.\<close>

definition v_ws :: re where "v_ws = Star (Cls (\<lambda>c. c = CHR ''v'' \<or> c = CHR ''='' \<or> is_ws c))"
definition dot_re :: re where "dot_re = chr CHR ''.''"

definition NUMERICIDENTIFIER :: re where
  "NUMERICIDENTIFIER = Alt (chr CHR ''0'') (Cat (Cls (\<lambda>c. is_digit c \<and> c \<noteq> CHR ''0'')) digits_star)"

definition NUMERICIDENTIFIERLOOSE :: re where "NUMERICIDENTIFIERLOOSE = digits_plus"

definition NONNUMERICIDENTIFIER :: re where
  "NONNUMERICIDENTIFIER = cats [digits_star, Cls (\<lambda>c. ident_char c \<and> \<not> is_digit c), word_star]"

definition MAINVERSION :: "nat \<Rightarrow> re" where
  "MAINVERSION k = cats [Grp k NUMERICIDENTIFIER, dot_re, Grp (k + 1) NUMERICIDENTIFIER, dot_re,
     Grp (k + 2) NUMERICIDENTIFIER]"

definition MAINVERSIONLOOSE :: "nat \<Rightarrow> re" where
  "MAINVERSIONLOOSE k = cats [Grp k NUMERICIDENTIFIERLOOSE, dot_re, Grp (k + 1) NUMERICIDENTIFIERLOOSE, dot_re,
     Grp (k + 2) NUMERICIDENTIFIERLOOSE]"

definition PRERELEASEIDENTIFIER :: re where
  "PRERELEASEIDENTIFIER = Alt NONNUMERICIDENTIFIER NUMERICIDENTIFIER"

definition PRERELEASEIDENTIFIERLOOSE :: re where
  "PRERELEASEIDENTIFIERLOOSE = Alt NONNUMERICIDENTIFIER NUMERICIDENTIFIERLOOSE"

definition dotted :: "re \<Rightarrow> re" where
  "dotted r = Cat r (Star (Cat dot_re r))"

definition PRERELEASE :: "nat \<Rightarrow> re" where
  "PRERELEASE k = Cat (chr CHR ''-'') (Grp k (dotted PRERELEASEIDENTIFIER))"

definition PRERELEASELOOSE :: "nat \<Rightarrow> re" where
  "PRERELEASELOOSE k = Cat (opt (chr CHR ''-'')) (Grp k (dotted PRERELEASEIDENTIFIERLOOSE))"

definition BUILDIDENTIFIER :: re where "BUILDIDENTIFIER = word_plus"

definition BUILD :: "nat \<Rightarrow> re" where
  "BUILD k = Cat (chr CHR ''+'') (Grp k (dotted BUILDIDENTIFIER))"

definition FULLPLAIN :: "nat \<Rightarrow> re" where
  "FULLPLAIN k = cats [opt (chr CHR ''v''), MAINVERSION k, opt (PRERELEASE (k + 3)), opt (BUILD (k + 4))]"

definition FULL :: re where "FULL = cats [Bol, FULLPLAIN 1, Eol]"

definition LOOSEPLAIN :: "nat \<Rightarrow> re" where
  "LOOSEPLAIN k = cats [v_ws, MAINVERSIONLOOSE k, opt (PRERELEASELOOSE (k + 3)), opt (BUILD (k + 4))]"

definition LOOSE :: re where "LOOSE = cats [Bol, LOOSEPLAIN 1, Eol]"

definition GTLT :: "nat \<Rightarrow> re" where
  "GTLT k = Grp k (Cat (opt (Alt (chr CHR ''<'') (chr CHR ''>''))) (opt (chr CHR ''='')))"

definition x_or :: "re \<Rightarrow> re" where
  "x_or r = alts [r, chr CHR ''x'', chr CHR ''X'', chr CHR ''*'']"

definition XRANGEIDENTIFIERLOOSE :: re where "XRANGEIDENTIFIERLOOSE = x_or NUMERICIDENTIFIERLOOSE"

definition XRANGEIDENTIFIER :: re where "XRANGEIDENTIFIER = x_or NUMERICIDENTIFIER"

definition xrange_plain :: "re \<Rightarrow> (nat \<Rightarrow> re) \<Rightarrow> nat \<Rightarrow> re" where
  "xrange_plain ident pre k =
     cats [v_ws, Grp k ident,
       opt (cats [dot_re, Grp (k + 1) ident,
         opt (cats [dot_re, Grp (k + 2) ident, opt (pre (k + 3)), opt (BUILD (k + 4))])])]"

definition XRANGEPLAIN :: "nat \<Rightarrow> re" where "XRANGEPLAIN = xrange_plain XRANGEIDENTIFIER PRERELEASE"

definition XRANGEPLAINLOOSE :: "nat \<Rightarrow> re" where
  "XRANGEPLAINLOOSE = xrange_plain XRANGEIDENTIFIERLOOSE PRERELEASELOOSE"

definition XRANGE :: re where "XRANGE = cats [Bol, GTLT 1, ws_star, XRANGEPLAIN 2, Eol]"

definition XRANGELOOSE :: re where "XRANGELOOSE = cats [Bol, GTLT 1, ws_star, XRANGEPLAINLOOSE 2, Eol]"

definition component_re :: re where "component_re = many MAX_SAFE_COMPONENT_LENGTH digit_re"

definition not_digit :: re where "not_digit = Cls (\<lambda>c. \<not> is_digit c)"

definition COERCEPLAIN :: re where
  "COERCEPLAIN = cats [Grp 1 (Alt Bol not_digit), Grp 2 component_re,
     opt (Cat dot_re (Grp 3 component_re)), opt (Cat dot_re (Grp 4 component_re))]"

definition COERCE :: re where "COERCE = cats [COERCEPLAIN, Alt Eol not_digit]"

definition COERCEFULL :: re where
  "COERCEFULL = cats [COERCEPLAIN, opt (PRERELEASE 5), opt (BUILD 6), Alt Eol not_digit]"

definition LONETILDE :: re where "LONETILDE = Cat (chr CHR ''~'') (opt (chr CHR ''>''))"

definition TILDETRIM :: re where "TILDETRIM = cats [Grp 1 ws_star, LONETILDE, ws_plus]"

definition TILDE :: re where "TILDE = cats [Bol, LONETILDE, XRANGEPLAIN 1, Eol]"

definition TILDELOOSE :: re where "TILDELOOSE = cats [Bol, LONETILDE, XRANGEPLAINLOOSE 1, Eol]"

definition LONECARET :: re where "LONECARET = chr CHR ''^''"

definition CARETTRIM :: re where "CARETTRIM = cats [Grp 1 ws_star, LONECARET, ws_plus]"

definition CARET :: re where "CARET = cats [Bol, LONECARET, XRANGEPLAIN 1, Eol]"

definition CARETLOOSE :: re where "CARETLOOSE = cats [Bol, LONECARET, XRANGEPLAINLOOSE 1, Eol]"

definition COMPARATORLOOSE :: re where
  "COMPARATORLOOSE = Alt (cats [Bol, GTLT 1, ws_star, Grp 2 (LOOSEPLAIN 3), Eol]) (Cat Bol Eol)"

definition COMPARATOR :: re where
  "COMPARATOR = Alt (cats [Bol, GTLT 1, ws_star, Grp 2 (FULLPLAIN 3), Eol]) (Cat Bol Eol)"

definition COMPARATORTRIM :: re where
  "COMPARATORTRIM = cats [Grp 1 ws_star, GTLT 2, ws_star, Grp 3 (Alt (LOOSEPLAIN 4) (XRANGEPLAIN 9))]"

definition HYPHENRANGE :: re where
  "HYPHENRANGE = cats [Bol, ws_star, Grp 1 (XRANGEPLAIN 2), ws_plus, chr CHR ''-'', ws_plus,
     Grp 7 (XRANGEPLAIN 8), ws_star, Eol]"

definition HYPHENRANGELOOSE :: re where
  "HYPHENRANGELOOSE = cats [Bol, ws_star, Grp 1 (XRANGEPLAINLOOSE 2), ws_plus, chr CHR ''-'', ws_plus,
     Grp 7 (XRANGEPLAINLOOSE 8), ws_star, Eol]"

definition lt_gt_eq :: re where
  "lt_gt_eq = Cat (opt (Grp 1 (Alt (chr CHR ''<'') (chr CHR ''>'')))) (opt (chr CHR ''=''))"

definition STAR :: re where "STAR = cats [lt_gt_eq, ws_star, chr CHR ''*'']"

definition zero_version :: re where
  "zero_version = cats [chr CHR ''0'', dot_re, chr CHR ''0'', dot_re, chr CHR ''0'']"

definition GTE0 :: re where
  "GTE0 = cats [Bol, ws_star, chr CHR ''>'', chr CHR ''='', ws_star, zero_version, ws_star, Eol]"

definition GTE0PRE :: re where
  "GTE0PRE = cats [Bol, ws_star, chr CHR ''>'', chr CHR ''='', ws_star, zero_version, chr CHR ''-'', chr CHR ''0'',
     ws_star, Eol]"

section \<open>The pattern of strict versions\<close>

lemma den_chr [simp]: "den (chr c) w g \<longleftrightarrow> w = [c] \<and> g = []"
  by (auto simp: chr_def)

lemma den_opt: "den (opt r) w g \<longleftrightarrow> (w = [] \<and> g = []) \<or> (w \<noteq> [] \<and> den r w g)"
  by (auto simp: opt_def)

lemma split_first: "(\<exists>u v. w = u @ v \<and> (\<exists>c. u = [c] \<and> p c) \<and> R v) \<longleftrightarrow> (\<exists>c v. w = c # v \<and> p c \<and> R v)"
proof
  assume "\<exists>c v. w = c # v \<and> p c \<and> R v"
  then obtain c v where "w = [c] @ v" "p c" "R v" by auto
  then show "\<exists>u v. w = u @ v \<and> (\<exists>c. u = [c] \<and> p c) \<and> R v" by blast
qed auto

lemma den_cls_cat [simp]: "den (Cat (Cls p) b) w g \<longleftrightarrow> (\<exists>c v. w = c # v \<and> p c \<and> den b v g)"
  using split_first [of w p "\<lambda>v. den b v g"] by simp

lemma den_chr_cat [simp]: "den (Cat (chr c) b) w g \<longleftrightarrow> (\<exists>v. w = c # v \<and> den b v g)"
  unfolding chr_def den_cls_cat by simp

lemma words_single:
  "words (\<lambda>u g. (\<exists>c. u = [c] \<and> p c) \<and> g = []) n w g \<longleftrightarrow> length w \<le> n \<and> list_all p w \<and> g = []" (is "words ?R n w g \<longleftrightarrow> _")
proof (induction n arbitrary: w g)
  case (Suc n)
  have eq: "words ?R (Suc n) w g \<longleftrightarrow> (w = [] \<and> g = []) \<or> (\<exists>c v. w = c # v \<and> p c \<and> words ?R n v g)"
    using split_first [of w p "\<lambda>v. words ?R n v g"] by auto
  show ?case unfolding eq Suc by (cases w) auto
qed auto

lemma words_class: "words (den (Cls p)) n w g \<longleftrightarrow> length w \<le> n \<and> list_all p w \<and> g = []"
proof -
  have "den (Cls p) = (\<lambda>u g. (\<exists>c. u = [c] \<and> p c) \<and> g = [])" by (simp add: fun_eq_iff)
  then show ?thesis using words_single [of p n w g] by simp
qed

lemma anchor_free_tokens [simp]:
  "anchor_free (chr c)" "anchor_free r \<Longrightarrow> anchor_free (opt r)" "anchor_free r \<Longrightarrow> anchor_free (many n r)"
  "list_all anchor_free rs \<Longrightarrow> anchor_free (cats rs)"
  by (simp_all add: chr_def opt_def many_def) (induction rs rule: cats.induct; simp)

lemma den_digits_star: "den digits_star w g \<longleftrightarrow> length w \<le> MAX_LENGTH \<and> list_all is_digit w \<and> g = []"
  by (simp add: digits_star_def digit_re_def words_class del: den.simps(2))

lemma den_word_star: "den word_star w g \<longleftrightarrow> length w \<le> MAX_SAFE_BUILD_LENGTH \<and> list_all ident_char w \<and> g = []"
  by (simp add: word_star_def word_re_def words_class del: den.simps(2))

lemma den_numeric: "den NUMERICIDENTIFIER w g \<longleftrightarrow> numeric_identifier w \<and> length w \<le> Suc MAX_LENGTH \<and> g = []"
proof (cases w)
  case (Cons c v)
  have "is_digit CHR ''0''" by (simp add: is_digit_def)
  then show ?thesis
    by (auto simp: NUMERICIDENTIFIER_def den_digits_star numeric_identifier_def all_digits_def Cons
        MAX_LENGTH_def simp del: den.simps(3))
qed (simp add: NUMERICIDENTIFIER_def numeric_identifier_def all_digits_def)

lemma den_many_class: "den (many n (Cls p)) w g \<longleftrightarrow> w \<noteq> [] \<and> length w \<le> max 1 n \<and> list_all p w \<and> g = []"
  unfolding many_def den_cls_cat den.simps(5) words_class by (cases w) auto

text \<open>A part of digits and others: the digits in front are all the pattern can take as digits.\<close>

lemma den_nonnumeric:
  "den NONNUMERICIDENTIFIER w g \<longleftrightarrow> build_identifier w \<and> \<not> list_all is_digit w \<and> identifier_fits w \<and> g = []"
proof -
  let ?d = "takeWhile is_digit w" and ?r = "dropWhile is_digit w"
  have tw: "u = takeWhile is_digit (u @ c # v)" "dropWhile is_digit (u @ c # v) = c # v"
    if "list_all is_digit u" "\<not> is_digit c" for u v c
    using that by (simp_all add: takeWhile_append2 dropWhile_append2 list_all_iff)
  have "den NONNUMERICIDENTIFIER w g \<longleftrightarrow>
      (\<exists>u c v. w = u @ c # v \<and> length u \<le> MAX_LENGTH \<and> list_all is_digit u \<and> ident_char c \<and> \<not> is_digit c \<and>
         length v \<le> MAX_SAFE_BUILD_LENGTH \<and> list_all ident_char v) \<and> g = []"
    unfolding NONNUMERICIDENTIFIER_def cats.simps den.simps(3) [of digits_star] den_digits_star den_cls_cat den_word_star
    by (simp, blast)
  also have "\<dots> \<longleftrightarrow> (\<exists>c v. ?r = c # v \<and> length ?d \<le> MAX_LENGTH \<and> ident_char c \<and>
      length v \<le> MAX_SAFE_BUILD_LENGTH \<and> list_all ident_char v) \<and> g = []" (is "?l \<and> _ \<longleftrightarrow> ?m \<and> _")
  proof -
    have "?l \<longleftrightarrow> ?m"
    proof
      assume ?l
      then show ?m using tw by (metis (no_types, lifting))
    next
      assume ?m
      then obtain c v where r: "?r = c # v" and x: "length ?d \<le> MAX_LENGTH" "ident_char c"
        "length v \<le> MAX_SAFE_BUILD_LENGTH" "list_all ident_char v" by blast
      have "w = ?d @ c # v" using r takeWhile_dropWhile_id [of is_digit w] by simp
      moreover have "\<not> is_digit c" using hd_dropWhile [of is_digit w] r by simp
      moreover have "list_all is_digit ?d" by (auto simp: list_all_iff dest: set_takeWhileD)
      ultimately show ?l using x by blast
    qed
    then show ?thesis by simp
  qed
  also have "?m \<longleftrightarrow> build_identifier w \<and> \<not> list_all is_digit w \<and> identifier_fits w"
  proof (cases "?r")
    case Nil
    then have "list_all is_digit w" by (simp add: dropWhile_eq_Nil_conv list_all_iff)
    with Nil show ?thesis by (simp del: dropWhile_eq_Nil_conv)
  next
    case (Cons c v)
    have w: "w = ?d @ c # v" using Cons takeWhile_dropWhile_id [of is_digit w] by simp
    have n: "\<not> is_digit c" using hd_dropWhile [of is_digit w] Cons by simp
    have d: "list_all is_digit ?d" by (auto simp: list_all_iff dest: set_takeWhileD)
    have "list_all ident_char w \<longleftrightarrow> ident_char c \<and> list_all ident_char v"
      by (subst w) (use d in \<open>auto simp: list_all_iff digit_ident_char\<close>)
    moreover have "\<not> list_all is_digit w" by (subst w) (simp add: n)
    moreover have "length w = length ?d + Suc (length v)" by (subst w) simp
    moreover have "w \<noteq> []" using w by auto
    ultimately show ?thesis using Cons
      by (auto simp: build_identifier_def identifier_fits_def MAX_LENGTH_def MAX_SAFE_BUILD_LENGTH_def)
  qed
  finally show ?thesis by blast
qed

lemma den_prerelease_identifier:
  "den PRERELEASEIDENTIFIER w g \<longleftrightarrow> prerelease_identifier w \<and> identifier_fits w \<and> g = []"
proof -
  have "numeric_identifier w \<Longrightarrow> build_identifier w" 
    by (auto simp: numeric_identifier_def build_identifier_def all_digits_def list_all_iff digit_ident_char)
  moreover have "numeric_identifier w \<Longrightarrow> identifier_fits w \<longleftrightarrow> length w \<le> Suc MAX_LENGTH"
    by (simp add: identifier_fits_def numeric_identifier_def all_digits_def MAX_LENGTH_def)
  ultimately show ?thesis
    by (auto simp: PRERELEASEIDENTIFIER_def den_nonnumeric den_numeric prerelease_identifier_def
        numeric_identifier_def all_digits_def build_identifier_def)
qed

text \<open>Parts separated by dots.\<close>

lemma join_dots: "join ''.'' (u # us) = u @ concat (map (Cons CHR ''.'') us)"
  by (induction us arbitrary: u) auto

lemma words_dots:
  assumes "\<And>u h. den r u h \<Longrightarrow> h = []"
  shows "words (den (Cat dot_re r)) n v h \<longleftrightarrow>
    (\<exists>us. length us \<le> n \<and> list_all (\<lambda>u. den r u []) us \<and> v = concat (map (Cons CHR ''.'') us)) \<and> h = []"
proof (induction n arbitrary: v h)
  case (Suc n)
  have "words (den (Cat dot_re r)) (Suc n) v h \<longleftrightarrow>
      (v = [] \<and> h = []) \<or> (\<exists>u v'. v = CHR ''.'' # u @ v' \<and> den r u [] \<and> words (den (Cat dot_re r)) n v' h)"
    using assms by (auto simp: dot_re_def simp del: den.simps(3)) (metis append_Cons append_Nil2 assms list.distinct(1))+
  also have "\<dots> \<longleftrightarrow> (\<exists>us. length us \<le> Suc n \<and> list_all (\<lambda>u. den r u []) us \<and> v = concat (map (Cons CHR ''.'') us)) \<and> h = []"
    (is "?l \<longleftrightarrow> ?r")
  proof
    assume ?l
    then show ?r
    proof
      assume "\<exists>u v'. v = CHR ''.'' # u @ v' \<and> den r u [] \<and> words (den (Cat dot_re r)) n v' h"
      then obtain u us where "v = CHR ''.'' # u @ concat (map (Cons CHR ''.'') us)" "den r u []" "length us \<le> n"
        "list_all (\<lambda>u. den r u []) us" "h = []" unfolding Suc by blast
      then show ?r by (intro conjI exI [of _ "u # us"]) simp_all
    qed (intro conjI exI [of _ "[]"], simp_all)
  next
    assume ?r
    then obtain us where x: "length us \<le> Suc n" "list_all (\<lambda>u. den r u []) us" "v = concat (map (Cons CHR ''.'') us)" "h = []"
      by blast
    then show ?l unfolding Suc by (cases us) auto
  qed
  finally show ?case .
qed auto

lemma den_dotted:
  assumes "\<And>u h. den r u h \<Longrightarrow> h = [] \<and> CHR ''.'' \<notin> set u"
  shows "den (dotted r) w g \<longleftrightarrow> list_all (\<lambda>u. den r u []) (dot_parts w) \<and> g = []"
proof -
  have "den (dotted r) w g \<longleftrightarrow>
      (\<exists>u us. w = u @ concat (map (Cons CHR ''.'') us) \<and> den r u [] \<and> list_all (\<lambda>u. den r u []) us) \<and> g = []"
    using assms words_dots [of r] unfolding dotted_def den.simps(3,6) by auto
  also have "\<dots> \<longleftrightarrow> list_all (\<lambda>u. den r u []) (dot_parts w) \<and> g = []"
  proof -
    have "(\<exists>u us. w = u @ concat (map (Cons CHR ''.'') us) \<and> den r u [] \<and> list_all (\<lambda>u. den r u []) us) \<longleftrightarrow>
        list_all (\<lambda>u. den r u []) (dot_parts w)" (is "?l \<longleftrightarrow> ?r")
    proof
      assume ?l
      then obtain u us where w: "w = join ''.'' (u # us)" and d: "list_all (\<lambda>u. den r u []) (u # us)"
        by (auto simp: join_dots)
      have "dot_parts w = u # us"
        unfolding dot_parts_def w by (rule split_join) (use assms d in \<open>auto simp: list_all_iff\<close>)
      with d show ?r by simp
    next
      assume r: ?r
      obtain u us where p: "dot_parts w = u # us" by (cases "dot_parts w") auto
      have "w = join ''.'' (dot_parts w)" by (simp add: dot_parts_def join_split_char)
      then have "w = u @ concat (map (Cons CHR ''.'') us)" by (simp add: p join_dots)
      moreover have "den r u [] \<and> list_all (\<lambda>u. den r u []) us" using r by (simp add: p)
      ultimately show ?l by blast
    qed
    then show ?thesis by simp
  qed
  finally show ?thesis .
qed

definition fitting :: "string \<Rightarrow> bool" where
  "fitting p \<longleftrightarrow> prerelease_text p \<and> list_all identifier_fits (dot_parts p)"

definition fitting_build :: "string \<Rightarrow> bool" where
  "fitting_build p \<longleftrightarrow> build_text p \<and> list_all (\<lambda>u. length u \<le> MAX_SAFE_BUILD_LENGTH) (dot_parts p)"

lemma den_prerelease_dotted: "den (dotted PRERELEASEIDENTIFIER) w g \<longleftrightarrow> fitting w \<and> g = []"
proof -
  have "h = [] \<and> CHR ''.'' \<notin> set u" if "den PRERELEASEIDENTIFIER u h" for u h
    using that ident_char_not by (auto simp: den_prerelease_identifier prerelease_identifier_def build_identifier_def list_all_iff)
  then have "den (dotted PRERELEASEIDENTIFIER) w g \<longleftrightarrow>
      list_all (\<lambda>u. den PRERELEASEIDENTIFIER u []) (dot_parts w) \<and> g = []" by (rule den_dotted)
  then show ?thesis
    by (auto simp: fitting_def prerelease_text_def den_prerelease_identifier list_all_iff)
qed

lemma den_build_dotted: "den (dotted BUILDIDENTIFIER) w g \<longleftrightarrow> fitting_build w \<and> g = []"
proof -
  have b: "den BUILDIDENTIFIER u h \<longleftrightarrow> build_identifier u \<and> length u \<le> MAX_SAFE_BUILD_LENGTH \<and> h = []" for u h
    by (auto simp: BUILDIDENTIFIER_def word_plus_def word_re_def den_many_class build_identifier_def MAX_SAFE_BUILD_LENGTH_def)
  have "h = [] \<and> CHR ''.'' \<notin> set u" if "den BUILDIDENTIFIER u h" for u h
    using that ident_char_not by (auto simp: b build_identifier_def list_all_iff)
  then have "den (dotted BUILDIDENTIFIER) w g \<longleftrightarrow> list_all (\<lambda>u. den BUILDIDENTIFIER u []) (dot_parts w) \<and> g = []"
    by (rule den_dotted)
  then show ?thesis
    by (auto simp: fitting_build_def build_text_def b list_all_iff)
qed

definition group_of :: "nat \<Rightarrow> string option \<Rightarrow> groups" where
  "group_of k t = (case t of None \<Rightarrow> [] | Some p \<Rightarrow> [(k, p)])"

lemma den_opt_tail:
  assumes "\<And>w g. den r w g \<longleftrightarrow> (\<exists>p. w = c # p \<and> P p \<and> g = [(k, p)])"
  shows "den (opt r) w g \<longleftrightarrow> (\<exists>t. w = tail_text c t \<and> (case t of None \<Rightarrow> True | Some p \<Rightarrow> P p) \<and> g = group_of k t)"
proof -
  have "(\<exists>t. w = tail_text c t \<and> (case t of None \<Rightarrow> True | Some p \<Rightarrow> P p) \<and> g = group_of k t) \<longleftrightarrow>
      (w = [] \<and> g = []) \<or> (\<exists>p. w = c # p \<and> P p \<and> g = [(k, p)])"
    unfolding split_option_ex by (simp add: tail_text_def group_of_def)
  with assms show ?thesis by (auto simp: den_opt)
qed

lemma den_opt_prerelease:
  "den (opt (PRERELEASE k)) w g \<longleftrightarrow>
   (\<exists>t. w = tail_text CHR ''-'' t \<and> (case t of None \<Rightarrow> True | Some p \<Rightarrow> fitting p) \<and> g = group_of k t)"
  by (rule den_opt_tail) (auto simp: PRERELEASE_def den_prerelease_dotted simp del: den.simps(3))

lemma den_opt_build:
  "den (opt (BUILD k)) w g \<longleftrightarrow>
   (\<exists>t. w = tail_text CHR ''+'' t \<and> (case t of None \<Rightarrow> True | Some p \<Rightarrow> fitting_build p) \<and> g = group_of k t)"
  by (rule den_opt_tail) (auto simp: BUILD_def den_build_dotted simp del: den.simps(3))

lemma den_mainversion:
  "den (MAINVERSION k) w g \<longleftrightarrow>
   (\<exists>a b c. w = main_text a b c \<and> g = [(k + 2, c), (k + 1, b), (k, a)] \<and>
     numeric_identifier a \<and> length a \<le> Suc MAX_LENGTH \<and> numeric_identifier b \<and> length b \<le> Suc MAX_LENGTH \<and>
     numeric_identifier c \<and> length c \<le> Suc MAX_LENGTH)"
proof -
  have grp_cat: "den (Cat (Grp j NUMERICIDENTIFIER) r) w g \<longleftrightarrow>
      (\<exists>a v h. w = a @ v \<and> numeric_identifier a \<and> length a \<le> Suc MAX_LENGTH \<and> den r v h \<and> g = h @ [(j, a)])" for j r w g
    by (simp add: den_numeric)
  have grp: "den (Grp j NUMERICIDENTIFIER) w g \<longleftrightarrow> numeric_identifier w \<and> length w \<le> Suc MAX_LENGTH \<and> g = [(j, w)]" for j w g
    by (auto simp: den_numeric)
  have m: "main_text a b c = a @ CHR ''.'' # b @ CHR ''.'' # c" for a b c by (simp add: main_text_def)
  show ?thesis (is "?l \<longleftrightarrow> ?r")
  proof
    assume ?l
    then show ?r unfolding MAINVERSION_def cats.simps dot_re_def grp_cat den_chr_cat grp
      by (elim exE conjE) (simp add: m)
  next
    assume ?r
    then obtain a b c where w: "w = a @ CHR ''.'' # b @ CHR ''.'' # c" and g: "g = [(k + 2, c), (k + 1, b), (k, a)]"
      and n: "numeric_identifier a" "length a \<le> Suc MAX_LENGTH" "numeric_identifier b" "length b \<le> Suc MAX_LENGTH"
        "numeric_identifier c" "length c \<le> Suc MAX_LENGTH" unfolding m by blast
    have "den (cats [Grp (k + 2) NUMERICIDENTIFIER]) c [(k + 2, c)]" using n by (simp add: den_numeric)
    then have "den (cats [Grp (k + 1) NUMERICIDENTIFIER, dot_re, Grp (k + 2) NUMERICIDENTIFIER]) (b @ CHR ''.'' # c)
        ([(k + 2, c)] @ [(k + 1, b)])"
      unfolding cats.simps dot_re_def grp_cat den_chr_cat using n by blast
    then show ?l unfolding MAINVERSION_def cats.simps dot_re_def grp_cat [of k] den_chr_cat w g
      using n by (metis append_Cons append_Nil)
  qed
qed

definition full_groups :: "nat \<Rightarrow> string \<times> string \<times> string \<times> string option \<times> string option \<Rightarrow> groups" where
  "full_groups k x = (case x of (a, b, c, pre, build) \<Rightarrow>
     group_of (k + 4) build @ group_of (k + 3) pre @ [(k + 2, c), (k + 1, b), (k, a)])"

definition good_full :: "string \<times> string \<times> string \<times> string option \<times> string option \<Rightarrow> bool" where
  "good_full x = (case x of (a, b, c, pre, build) \<Rightarrow>
     numeric_identifier a \<and> length a \<le> Suc MAX_LENGTH \<and> numeric_identifier b \<and> length b \<le> Suc MAX_LENGTH \<and>
     numeric_identifier c \<and> length c \<le> Suc MAX_LENGTH \<and>
     (case pre of None \<Rightarrow> True | Some p \<Rightarrow> fitting p) \<and> (case build of None \<Rightarrow> True | Some p \<Rightarrow> fitting_build p))"

definition full_text :: "string \<times> string \<times> string \<times> string option \<times> string option \<Rightarrow> string" where
  "full_text x = (case x of (a, b, c, pre, build) \<Rightarrow>
     main_text a b c @ tail_text CHR ''-'' pre @ tail_text CHR ''+'' build)"

lemma den_catI: "den a u gu \<Longrightarrow> den b v gv \<Longrightarrow> den (Cat a b) (u @ v) (gv @ gu)"
  by auto

lemma den_opt_chr_cat: "den (Cat (opt (chr c)) b) w g \<longleftrightarrow> den b w g \<or> (\<exists>v. w = c # v \<and> den b v g)"
proof -
  have "den b w g \<Longrightarrow> den (Cat (opt (chr c)) b) ([] @ w) (g @ [])"
    and "den b v g \<Longrightarrow> den (Cat (opt (chr c)) b) ([c] @ v) (g @ [])" for v
    by (rule den_catI; simp add: den_opt)+
  then show ?thesis by (auto simp: den_opt)
qed

lemma den_fullplain:
  "den (FULLPLAIN k) w g \<longleftrightarrow>
   (\<exists>x. (w = full_text x \<or> w = CHR ''v'' # full_text x) \<and> good_full x \<and> g = full_groups k x)"
proof -
  have "den (FULLPLAIN k) w g \<longleftrightarrow> (\<exists>v. (w = v \<or> w = CHR ''v'' # v) \<and> 
      den (cats [MAINVERSION k, opt (PRERELEASE (k + 3)), opt (BUILD (k + 4))]) v g)"
    unfolding FULLPLAIN_def cats.simps(3) [of "opt (chr CHR ''v'')"] den_opt_chr_cat by blast
  also have "\<dots> \<longleftrightarrow> (\<exists>v x. (w = v \<or> w = CHR ''v'' # v) \<and> v = full_text x \<and> good_full x \<and> g = full_groups k x)"
  proof -
    have "den (cats [MAINVERSION k, opt (PRERELEASE (k + 3)), opt (BUILD (k + 4))]) v g \<longleftrightarrow>
        (\<exists>x. v = full_text x \<and> good_full x \<and> g = full_groups k x)" for v
    proof
      assume "den (cats [MAINVERSION k, opt (PRERELEASE (k + 3)), opt (BUILD (k + 4))]) v g"
      then show "\<exists>x. v = full_text x \<and> good_full x \<and> g = full_groups k x"
        unfolding cats.simps den.simps(3) den_mainversion den_opt_prerelease den_opt_build
      proof (elim exE conjE)
        fix u v1 gu gv a b c u2 v2 gu2 gv2 t t2
        assume "v = u @ v1" "u = main_text a b c" "v1 = u2 @ v2" "u2 = tail_text CHR ''-'' t" "v2 = tail_text CHR ''+'' t2"
          "g = gv @ gu" "gu = [(k + 2, c), (k + 1, b), (k, a)]" "gv = gv2 @ gu2" "gu2 = group_of (k + 3) t"
          "gv2 = group_of (k + 4) t2" "numeric_identifier a" "numeric_identifier b" "numeric_identifier c"
          "length a \<le> Suc MAX_LENGTH" "length b \<le> Suc MAX_LENGTH" "length c \<le> Suc MAX_LENGTH"
          "case t of None \<Rightarrow> True | Some p \<Rightarrow> fitting p" "case t2 of None \<Rightarrow> True | Some p \<Rightarrow> fitting_build p"
        then show ?thesis
          by (intro exI [of _ "(a, b, c, t, t2)"]) (simp add: full_text_def good_full_def full_groups_def)
      qed
    next
      assume "\<exists>x. v = full_text x \<and> good_full x \<and> g = full_groups k x"
      then obtain a b c pre build where v: "v = full_text (a, b, c, pre, build)" and gd: "good_full (a, b, c, pre, build)"
        and g: "g = full_groups k (a, b, c, pre, build)" by auto
      have "den (MAINVERSION k) (main_text a b c) [(k + 2, c), (k + 1, b), (k, a)]"
        using gd by (auto simp: den_mainversion good_full_def)
      moreover have "den (opt (PRERELEASE (k + 3))) (tail_text CHR ''-'' pre) (group_of (k + 3) pre)"
        using gd by (auto simp: den_opt_prerelease good_full_def)
      moreover have "den (opt (BUILD (k + 4))) (tail_text CHR ''+'' build) (group_of (k + 4) build)"
        using gd by (auto simp: den_opt_build good_full_def)
      ultimately show "den (cats [MAINVERSION k, opt (PRERELEASE (k + 3)), opt (BUILD (k + 4))]) v g"
        unfolding cats.simps v g full_text_def full_groups_def prod.case
        by (metis den_catI append.assoc)
    qed
    then show ?thesis by auto
  qed
  finally show ?thesis by blast
qed

lemma length_split_char: "u \<in> set (split_char d s) \<Longrightarrow> length u \<le> length s"
  by (induction s arbitrary: u) (auto split: if_splits list.splits intro: le_SucI)

lemma match_full_reads: "match_full s = Some x \<Longrightarrow> s = full_text x \<or> s = CHR ''v'' # full_text x"
proof -
  assume m: "match_full s = Some x"
  obtain a b c pre build where x: "x = (a, b, c, pre, build)" by (metis prod_cases5)
  define s1 where "s1 = (case s of [] \<Rightarrow> [] | d # r \<Rightarrow> if d = CHR ''v'' then r else s)"
  obtain core build' where c1: "cut CHR ''+'' s1 = (core, build')" by fastforce
  obtain main pre' where c2: "cut CHR ''-'' core = (main, pre')" by fastforce
  from m x c1 c2 have d: "dot_parts main = [a, b, c]" "pre' = pre" "build' = build"
    by (auto simp: match_full_def s1_def [symmetric] split: list.splits if_splits)
  have "main = main_text a b c" using d(1) join_split_char [of "CHR ''.''" main] by (simp add: main_text_def dot_parts_def)
  with cut_split [OF c1] cut_split [OF c2] d have "s1 = full_text x" by (simp add: full_text_def x)
  then show ?thesis by (cases s) (auto simp: s1_def split: if_splits)
qed

lemma full_text_hd: "good_full x \<Longrightarrow> full_text x \<noteq> [] \<and> hd (full_text x) \<noteq> CHR ''v''"
  using digit_not by (cases x) (auto simp: full_text_def good_full_def main_text_def numeric_identifier_def
      all_digits_def neq_Nil_conv)

lemma good_full_parts: "good_full (a, b, c, pre, build) \<Longrightarrow> good_parts a b c pre build"
  by (auto simp: good_full_def good_parts_def fitting_def fitting_build_def split: option.splits)

lemma good_parts_full:
  assumes "good_parts a b c pre build" "length (full_text (a, b, c, pre, build)) \<le> MAX_LENGTH"
  shows "good_full (a, b, c, pre, build)"
proof -
  have ne: "1 \<le> length a" "1 \<le> length b" "1 \<le> length c"
    using assms(1) by (auto simp: good_parts_def numeric_identifier_def all_digits_def Suc_le_eq)
  have l: "length a \<le> Suc MAX_LENGTH" "length b \<le> Suc MAX_LENGTH" "length c \<le> Suc MAX_LENGTH"
    using assms(2) by (auto simp: full_text_def main_text_def)
  have p: "length p \<le> 250" if "pre = Some p" for p
    using that assms(2) ne by (simp add: full_text_def main_text_def tail_text_def MAX_LENGTH_def)
  have b: "length p \<le> 250" if "build = Some p" for p
    using that assms(2) ne by (simp add: full_text_def main_text_def tail_text_def MAX_LENGTH_def)
  have fit: "identifier_fits u" if "length u \<le> 250" for u
    using that length_takeWhile_le [of is_digit u] by (simp add: identifier_fits_def)
  have parts: "length u \<le> 250" if "u \<in> set (dot_parts p)" "length p \<le> 250" for u p
    using that length_split_char [of u "CHR ''.''" p] by (simp add: dot_parts_def)
  show ?thesis
    using assms(1) l p b fit parts
    by (auto simp: good_full_def good_parts_def fitting_def fitting_build_def list_all_iff MAX_SAFE_BUILD_LENGTH_def
        split: option.splits)
qed

lemma den_full:
  assumes "length s \<le> MAX_LENGTH"
  shows "den (FULLPLAIN 1) s g \<longleftrightarrow> (\<exists>x. match_full s = Some x \<and> g = full_groups 1 x)"
proof
  assume "den (FULLPLAIN 1) s g"
  then obtain x where s: "s = full_text x \<or> s = CHR ''v'' # full_text x" and x: "good_full x" "g = full_groups 1 x"
    unfolding den_fullplain by blast
  have m: "match_full (full_text x) = Some x"
    using x(1) match_full_text good_full_parts by (cases x) (simp add: full_text_def)
  obtain d r where "full_text x = d # r" "d \<noteq> CHR ''v''" using full_text_hd [OF x(1)] by (cases "full_text x") auto
  then have "match_full (CHR ''v'' # full_text x) = match_full (full_text x)" by (simp add: match_full_def)
  with s m have "match_full s = Some x" by auto
  with x(2) show "\<exists>x. match_full s = Some x \<and> g = full_groups 1 x" by blast
next
  assume "\<exists>x. match_full s = Some x \<and> g = full_groups 1 x"
  then obtain a b c pre build where m: "match_full s = Some (a, b, c, pre, build)" and g: "g = full_groups 1 (a, b, c, pre, build)"
    by auto
  note r = match_full_reads [OF m]
  then have "length (full_text (a, b, c, pre, build)) \<le> MAX_LENGTH" using assms by auto
  then have "good_full (a, b, c, pre, build)" using match_full_Some [OF m] good_parts_full by blast
  with r g show "den (FULLPLAIN 1) s g" unfolding den_fullplain by blast
qed

text \<open>Anchored patterns are tried at the start only and must reach the end.\<close>

lemma exec_anchored:
  "exec (cats [Bol, r, Eol]) s =
   (case filter (\<lambda>(j, t, g). t = []) (rmatch r (0, s, [])) of [] \<Rightarrow> None | (j, t, g) # _ \<Rightarrow> Some g)"
proof -
  let ?r = "cats [Bol, r, Eol]"
  have eol: "concat (map (rmatch Eol) xs) = filter (\<lambda>(j, t, g). t = []) xs" for xs
    by (induction xs) auto
  have later: "match_here ?r s i = None" if "i \<noteq> 0" for i using that by (simp add: match_here_def)
  have none: "leftmost (match_here ?r s) (map Suc is) = None" for "is" by (induction "is") (auto simp: later simp del: cats.simps)
  have "[0..<Suc (length s)] = 0 # map Suc [0..<length s]" by (simp add: map_Suc_upt upt_conv_Cons del: upt_Suc)
  then have "exec_from ?r s 0 = match_here ?r s 0"
    by (simp add: exec_from_def none del: upt_Suc cats.simps split: option.split)
  then show ?thesis by (simp add: exec_def match_here_def eol split: list.split)
qed

lemma exec_full:
  assumes "length s \<le> MAX_LENGTH"
  shows "exec FULL s = map_option (full_groups 1) (match_full s)"
proof -
  let ?xs = "filter (\<lambda>(j, t, g). t = []) (rmatch (FULLPLAIN 1) (0, s, []))"
  have af: "anchor_free (FULLPLAIN 1)"
    by (simp add: FULLPLAIN_def MAINVERSION_def PRERELEASE_def BUILD_def NUMERICIDENTIFIER_def digits_star_def digit_re_def
        dot_re_def dotted_def PRERELEASEIDENTIFIER_def NONNUMERICIDENTIFIER_def word_star_def word_re_def
        BUILDIDENTIFIER_def word_plus_def)
  have mem: "(j, t, g) \<in> set ?xs \<longleftrightarrow> t = [] \<and> j = length s \<and> (\<exists>x. match_full s = Some x \<and> g = full_groups 1 x)" for j t g
    using readsD [OF rmatch_den [OF af], of j t g 0 s "[]"] den_full [OF assms] by auto
  show ?thesis
  proof (cases "match_full s")
    case None
    then have "?xs = []" using mem by (metis list.set_intros(1) neq_Nil_conv option.distinct(1) surj_pair)
    then show ?thesis using None by (simp add: FULL_def exec_anchored del: cats.simps)
  next
    case (Some x)
    then have "(length s, [], full_groups 1 x) \<in> set ?xs" using mem [of "length s" "[]" "full_groups 1 x"] by blast
    then have "?xs \<noteq> []" by (metis empty_iff list.set(1))
    then obtain y ys where xs: "?xs = y # ys" by (meson neq_Nil_conv)
    obtain j t g where y: "y = (j, t, g)" by (cases y)
    have "(j, t, g) \<in> set ?xs" using xs y by simp
    then have "g = full_groups 1 x" using mem Some by simp
    then show ?thesis using xs y Some by (simp add: FULL_def exec_anchored del: cats.simps)
  qed
qed

section \<open>Properties\<close>

text \<open>
  C30: on every text of at most 256 characters the recogniser \<open>match_full\<close>, on which the constructor
  of the model rests, gives what the regular expression engine gives for the pattern \<open>FULL\<close> of
  \<open>re.js\<close>: the same texts match, with the same five groups.
\<close>

theorem full_pattern_equivalent:
  assumes "length s \<le> MAX_LENGTH"
  shows "exec FULL s = map_option (full_groups 1) (match_full s)"
  by (rule exec_full [OF assms])

theorem full_pattern_equivalent_witness:
  "exec FULL ''v1.2.3-rc.1'' = Some [(4, ''rc.1''), (3, ''3''), (2, ''2''), (1, ''1'')]"
proof -
  have "match_full ''v1.2.3-rc.1'' = Some (''1'', ''2'', ''3'', Some ''rc.1'', None)" by code_simp
  then show ?thesis
    using full_pattern_equivalent [of "''v1.2.3-rc.1''"] by (simp add: MAX_LENGTH_def full_groups_def group_of_def)
qed

end
