(* ===== verification/SemverRange.thy ===== *)
theory SemverRange
  imports SemverRe Sorting Json
begin

text \<open>
  \<open>semver\<close>: \<open>classes/comparator.js\<close>, \<open>classes/range.js\<close>, \<open>internal/lrucache.js\<close>, \<open>functions/satisfies.js\<close>,
  \<open>functions/coerce.js\<close> and \<open>ranges/*.js\<close>, with the options \<open>loose\<close> and \<open>includePrerelease\<close>. A range
  is rewritten as text, step by step, with the patterns of theory \<open>SemverRe\<close>, into comparators.

  Objects that are given where a string may be are their text: a version object that is tested or
  compared is not read again, since reading its text gives the same numbers and identifiers
  (\<open>version_roundtrip\<close>). The memo of \<open>parseRange\<close> is explicit state; \<open>parse_range\<close> is the routine
  without it.

  A component above the safe integers is written with all its digits; the code may write it rounded or
  with an exponent, and rejects it in the next step either way. \<open>subset\<close> is not modelled: its result
  depends on which arrays the memo makes identical objects.
\<close>

section \<open>Versions with options\<close>

record sv_options =
  loose :: bool
  includePrerelease :: bool

definition strict_options :: sv_options where
  "strict_options = \<lparr>loose = False, includePrerelease = False\<rparr>"

definition component :: "groups \<Rightarrow> nat \<Rightarrow> nat" where
  "component g k = fl53 (nat_of_digits (grp_text g k))"

definition SemVer_of :: "bool \<Rightarrow> string \<Rightarrow> semver res" where
  "SemVer_of is_loose version =
     (if length version > MAX_LENGTH
      then Inl (TypeError (''version is longer than '' @ show_nat MAX_LENGTH @ '' characters''))
      else
        case exec (if is_loose then LOOSE else FULL) (js_trim version) of
          None \<Rightarrow> Inl (TypeError (''Invalid Version: '' @ version))
        | Some g \<Rightarrow>
            (if component g 1 > MAX_SAFE_INTEGER then Inl (TypeError ''Invalid major version'')
             else if component g 2 > MAX_SAFE_INTEGER then Inl (TypeError ''Invalid minor version'')
             else if component g 3 > MAX_SAFE_INTEGER then Inl (TypeError ''Invalid patch version'')
             else Inr (reformat
               \<lparr>sv_major = component g 1, sv_minor = component g 2, sv_patch = component g 3,
                sv_prerelease = (case grp g 4 of None \<Rightarrow> [] | Some p \<Rightarrow> map parse_ident (dot_parts p)),
                sv_build = (case grp g 5 of None \<Rightarrow> [] | Some p \<Rightarrow> dot_parts p),
                sv_raw = version, sv_version = []\<rparr>)))"

text \<open>\<open>cmp\<close> for the operators a comparator can have.\<close>

definition cmp_op :: "semver \<Rightarrow> string \<Rightarrow> semver \<Rightarrow> bool" where
  "cmp_op a op b =
     (let c = sv_compare a b in
      if op = [] \<or> op = ''='' then c = 0
      else if op = ''>'' then c > 0
      else if op = ''>='' then c \<ge> 0
      else if op = ''<'' then c < 0
      else c \<le> 0)"

section \<open>Comparators\<close>

text \<open>\<open>semver\<close> is \<open>None\<close> for \<open>ANY\<close>.\<close>

record comparator_obj =
  cp_operator :: string
  cp_semver :: "semver option"
  cp_value :: string

definition new_Comparator :: "sv_options \<Rightarrow> string \<Rightarrow> comparator_obj res" where
  "new_Comparator opts c =
     (let ctext = join '' '' (split_ws (js_trim c)) in
      case exec (if loose opts then COMPARATORLOOSE else COMPARATOR) ctext of
        None \<Rightarrow> Inl (TypeError (''Invalid comparator: '' @ ctext))
      | Some g \<Rightarrow>
          (let operator = (if grp_text g 1 = ''='' then [] else grp_text g 1) in
           if grp_text g 2 = [] then Inr \<lparr>cp_operator = operator, cp_semver = None, cp_value = []\<rparr>
           else
             res_bind (SemVer_of (loose opts) (grp_text g 2)) (\<lambda>v.
               Inr \<lparr>cp_operator = operator, cp_semver = Some v, cp_value = operator @ sv_version v\<rparr>)))"

definition comparator_test :: "comparator_obj \<Rightarrow> semver \<Rightarrow> bool" where
  "comparator_test c version =
     (case cp_semver c of None \<Rightarrow> True | Some s \<Rightarrow> cmp_op version (cp_operator c) s)"

definition isNullSet :: "comparator_obj \<Rightarrow> bool" where
  "isNullSet c \<longleftrightarrow> cp_value c = ''<0.0.0-0''"

definition isAny :: "comparator_obj \<Rightarrow> bool" where
  "isAny c \<longleftrightarrow> cp_value c = []"

section \<open>Rewriting a range\<close>

definition isX :: "string option \<Rightarrow> bool" where
  "isX i \<longleftrightarrow> (case i of None \<Rightarrow> True | Some s \<Rightarrow> s = [] \<or> to_lower s = ''x'' \<or> s = ''*'')"

definition id_text :: "string option \<Rightarrow> string" where
  "id_text i = (case i of None \<Rightarrow> ''undefined'' | Some s \<Rightarrow> s)"

text \<open>\<open>+M + 1\<close>\<close>

definition succ_text :: "string option \<Rightarrow> string" where
  "succ_text i = show_nat (fl53 (Suc (fl53 (nat_of_digits (id_text i)))))"

definition dots :: "string list \<Rightarrow> string" where
  "dots xs = join ''.'' xs"

definition truthy_text :: "string option \<Rightarrow> bool" where
  "truthy_text i \<longleftrightarrow> (case i of None \<Rightarrow> False | Some s \<Rightarrow> s \<noteq> [])"

definition tilde_text :: "groups \<Rightarrow> string" where
  "tilde_text g =
     (let M = grp g 1; m = grp g 2; p = grp g 3; pr = grp g 4 in
      if isX M then []
      else if isX m then ''>='' @ dots [id_text M, ''0'', ''0''] @ '' <'' @ dots [succ_text M, ''0'', ''0-0'']
      else if isX p then ''>='' @ dots [id_text M, id_text m, ''0''] @ '' <'' @ dots [id_text M, succ_text m, ''0-0'']
      else if truthy_text pr
      then ''>='' @ dots [id_text M, id_text m, id_text p] @ ''-'' @ id_text pr @ '' <'' @ dots [id_text M, succ_text m, ''0-0'']
      else ''>='' @ dots [id_text M, id_text m, id_text p] @ '' <'' @ dots [id_text M, succ_text m, ''0-0''])"

definition replaceTilde :: "sv_options \<Rightarrow> string \<Rightarrow> string" where
  "replaceTilde opts ctext = replace_first (if loose opts then TILDELOOSE else TILDE) (\<lambda>_ g. tilde_text g) ctext"

definition replaceTildes :: "sv_options \<Rightarrow> string \<Rightarrow> string" where
  "replaceTildes opts ctext = join '' '' (map (replaceTilde opts) (split_ws (js_trim ctext)))"

definition caret_text :: "string \<Rightarrow> groups \<Rightarrow> string" where
  "caret_text z g =
     (let M = grp g 1; m = grp g 2; p = grp g 3; pr = grp g 4 in
      if isX M then []
      else if isX m then ''>='' @ dots [id_text M, ''0'', ''0''] @ z @ '' <'' @ dots [succ_text M, ''0'', ''0-0'']
      else if isX p
      then (if M = Some ''0''
            then ''>='' @ dots [id_text M, id_text m, ''0''] @ z @ '' <'' @ dots [id_text M, succ_text m, ''0-0'']
            else ''>='' @ dots [id_text M, id_text m, ''0''] @ z @ '' <'' @ dots [succ_text M, ''0'', ''0-0''])
      else if truthy_text pr
      then (let low = ''>='' @ dots [id_text M, id_text m, id_text p] @ ''-'' @ id_text pr in
            if M = Some ''0''
            then (if m = Some ''0'' then low @ '' <'' @ dots [id_text M, id_text m, succ_text p] @ ''-0''
                  else low @ '' <'' @ dots [id_text M, succ_text m, ''0-0''])
            else low @ '' <'' @ dots [succ_text M, ''0'', ''0-0''])
      else if M = Some ''0''
      then (if m = Some ''0''
            then ''>='' @ dots [id_text M, id_text m, id_text p] @ z @ '' <'' @ dots [id_text M, id_text m, succ_text p] @ ''-0''
            else ''>='' @ dots [id_text M, id_text m, id_text p] @ z @ '' <'' @ dots [id_text M, succ_text m, ''0-0''])
      else ''>='' @ dots [id_text M, id_text m, id_text p] @ '' <'' @ dots [succ_text M, ''0'', ''0-0''])"

definition replaceCaret :: "sv_options \<Rightarrow> string \<Rightarrow> string" where
  "replaceCaret opts ctext =
     replace_first (if loose opts then CARETLOOSE else CARET)
       (\<lambda>_ g. caret_text (if includePrerelease opts then ''-0'' else []) g) ctext"

definition replaceCarets :: "sv_options \<Rightarrow> string \<Rightarrow> string" where
  "replaceCarets opts ctext = join '' '' (map (replaceCaret opts) (split_ws (js_trim ctext)))"

definition xrange_text :: "sv_options \<Rightarrow> string \<Rightarrow> groups \<Rightarrow> string" where
  "xrange_text opts matched g =
     (let M = grp g 2; m = grp g 3; p = grp g 4;
          xM = isX M; xm = (xM \<or> isX m); xp = (xm \<or> isX p);
          gtlt = (if grp_text g 1 = ''='' \<and> xp then [] else grp_text g 1);
          pr = (if includePrerelease opts then ''-0'' else []) in
      if xM then (if gtlt = ''>'' \<or> gtlt = ''<'' then ''<0.0.0-0'' else ''*'')
      else if gtlt \<noteq> [] \<and> xp
      then
        (if gtlt = ''>''
         then (if xm then ''>='' @ dots [succ_text M, ''0'', ''0''] @ pr
               else ''>='' @ dots [id_text M, succ_text m, ''0''] @ pr)
         else if gtlt = ''<=''
         then (if xm then ''<'' @ dots [succ_text M, ''0'', ''0''] @ ''-0''
               else ''<'' @ dots [id_text M, succ_text m, ''0''] @ ''-0'')
         else gtlt @ dots [id_text M, if xm then ''0'' else id_text m, ''0''] @ (if gtlt = ''<'' then ''-0'' else pr))
      else if xm then ''>='' @ dots [id_text M, ''0'', ''0''] @ pr @ '' <'' @ dots [succ_text M, ''0'', ''0-0'']
      else if xp then ''>='' @ dots [id_text M, id_text m, ''0''] @ pr @ '' <'' @ dots [id_text M, succ_text m, ''0-0'']
      else matched)"

definition replaceXRange :: "sv_options \<Rightarrow> string \<Rightarrow> string" where
  "replaceXRange opts ctext =
     replace_first (if loose opts then XRANGELOOSE else XRANGE) (xrange_text opts) (js_trim ctext)"

definition replaceXRanges :: "sv_options \<Rightarrow> string \<Rightarrow> string" where
  "replaceXRanges opts ctext = join '' '' (map (replaceXRange opts) (split_ws ctext))"

definition replaceStars :: "string \<Rightarrow> string" where
  "replaceStars ctext = replace_first STAR (\<lambda>_ _. []) (js_trim ctext)"

definition replaceGTE0 :: "sv_options \<Rightarrow> string \<Rightarrow> string" where
  "replaceGTE0 opts ctext =
     replace_first (if includePrerelease opts then GTE0PRE else GTE0) (\<lambda>_ _. []) (js_trim ctext)"

definition parseComparator :: "sv_options \<Rightarrow> string \<Rightarrow> string" where
  "parseComparator opts ctext =
     replaceStars (replaceXRanges opts (replaceTildes opts (replaceCarets opts
       (replace_first (BUILD 1) (\<lambda>_ _. []) ctext))))"

definition hyphen_text :: "bool \<Rightarrow> groups \<Rightarrow> string" where
  "hyphen_text incPr g =
     (let fM = grp g 2; fm = grp g 3; fp = grp g 4; fpr = grp g 5;
          tM = grp g 8; tm = grp g 9; tp = grp g 10; tpr = grp g 11;
          z = (if incPr then ''-0'' else []);
          lo = (if isX fM then []
                   else if isX fm then ''>='' @ dots [id_text fM, ''0'', ''0''] @ z
                   else if isX fp then ''>='' @ dots [id_text fM, id_text fm, ''0''] @ z
                   else if truthy_text fpr then ''>='' @ id_text (grp g 1)
                   else ''>='' @ id_text (grp g 1) @ z);
          hi = (if isX tM then []
                 else if isX tm then ''<'' @ dots [succ_text tM, ''0'', ''0-0'']
                 else if isX tp then ''<'' @ dots [id_text tM, succ_text tm, ''0-0'']
                 else if truthy_text tpr then ''<='' @ dots [id_text tM, id_text tm, id_text tp] @ ''-'' @ id_text tpr
                 else if incPr then ''<'' @ dots [id_text tM, id_text tm, succ_text tp] @ ''-0''
                 else ''<='' @ id_text (grp g 7)) in
      js_trim (lo @ '' '' @ hi))"

section \<open>parseRange\<close>

text \<open>The texts of the comparators a range is rewritten to.\<close>

definition range_list :: "sv_options \<Rightarrow> string \<Rightarrow> string list" where
  "range_list opts rng =
     (let r1 = replace_first (if loose opts then HYPHENRANGELOOSE else HYPHENRANGE)
                 (\<lambda>_ g. hyphen_text (includePrerelease opts) g) rng;
          r2 = replace_global COMPARATORTRIM (\<lambda>_ g. grp_text g 1 @ grp_text g 2 @ grp_text g 3) r1;
          r3 = replace_global TILDETRIM (\<lambda>_ g. grp_text g 1 @ ''~'') r2;
          r4 = replace_global CARETTRIM (\<lambda>_ g. grp_text g 1 @ ''^'') r3;
          comps = map (replaceGTE0 opts)
                    (split_ws (join '' '' (map (parseComparator opts) (split_char CHR '' '' r4)))) in
      if loose opts then filter (\<lambda>c. exec COMPARATORLOOSE c \<noteq> None) comps else comps)"

fun traverse :: "('a \<Rightarrow> 'b res) \<Rightarrow> 'a list \<Rightarrow> 'b list res" where
  "traverse f [] = Inr []"
| "traverse f (x # xs) = res_bind (f x) (\<lambda>y. res_bind (traverse f xs) (\<lambda>ys. Inr (y # ys)))"

text \<open>
  The loop over the comparators: a null set is the result by itself (\<open>Inl\<close>); otherwise the map from
  values to comparators.
\<close>

fun range_map :: "comparator_obj list \<Rightarrow> (string \<times> comparator_obj) list \<Rightarrow>
    comparator_obj + (string \<times> comparator_obj) list" where
  "range_map [] rm = Inr rm"
| "range_map (c # cs) rm = (if isNullSet c then Inl c else range_map cs (obj_put rm (cp_value c) c))"

definition drop_any :: "(string \<times> comparator_obj) list \<Rightarrow> (string \<times> comparator_obj) list" where
  "drop_any rm = (if length rm > 1 then filter (\<lambda>(v, c). v \<noteq> []) rm else rm)"

definition range_comparators :: "sv_options \<Rightarrow> string \<Rightarrow> (comparator_obj + comparator_obj list) res" where
  "range_comparators opts rng =
     res_bind (traverse (new_Comparator opts) (range_list opts rng)) (\<lambda>comparators.
       Inr (case range_map comparators [] of
              Inl c \<Rightarrow> Inl c
            | Inr rm \<Rightarrow> Inr (map snd (drop_any rm))))"

text \<open>\<open>parseRange\<close> without the memo.\<close>

definition parse_range :: "sv_options \<Rightarrow> string \<Rightarrow> comparator_obj list res" where
  "parse_range opts rng =
     res_bind (range_comparators opts rng) (\<lambda>r. case r of Inl c \<Rightarrow> Inr [c] | Inr cs \<Rightarrow> Inr cs)"

section \<open>The memo\<close>

text \<open>\<open>LRUCache\<close>: a \<open>Map\<close> in insertion order, the least recently used entry first. A value is never undefined.\<close>

type_synonym 'v lru = "(string \<times> 'v) list"

definition lru_max :: nat where "lru_max = 1000"

definition lru_delete :: "string \<Rightarrow> 'v lru \<Rightarrow> bool \<times> 'v lru" where
  "lru_delete k m = (map_of m k \<noteq> None, filter (\<lambda>(k', v). k' \<noteq> k) m)"

definition lru_get :: "string \<Rightarrow> 'v lru \<Rightarrow> 'v option \<times> 'v lru" where
  "lru_get k m = (case map_of m k of None \<Rightarrow> (None, m) | Some v \<Rightarrow> (Some v, snd (lru_delete k m) @ [(k, v)]))"

definition lru_set :: "string \<Rightarrow> 'v \<Rightarrow> 'v lru \<Rightarrow> 'v lru" where
  "lru_set k v m =
     (let (deleted, m') = lru_delete k m in
      if deleted then m'
      else (if length m' \<ge> lru_max then snd (lru_delete (fst (hd m')) m') else m') @ [(k, v)])"

definition memo_key :: "sv_options \<Rightarrow> string \<Rightarrow> string" where
  "memo_key opts rng =
     show_nat ((if includePrerelease opts then 1 else 0) + (if loose opts then 2 else 0)) @ '':'' @ rng"

definition parseRange :: "sv_options \<Rightarrow> string \<Rightarrow> comparator_obj list lru \<Rightarrow>
    comparator_obj list res \<times> comparator_obj list lru" where
  "parseRange opts rng cache =
     (case lru_get (memo_key opts rng) cache of
        (Some cached, cache') \<Rightarrow> (Inr cached, cache')
      | (None, cache') \<Rightarrow>
          (case range_comparators opts rng of
             Inl e \<Rightarrow> (Inl e, cache')
           | Inr (Inl c) \<Rightarrow> (Inr [c], cache')
           | Inr (Inr result) \<Rightarrow> (Inr result, lru_set (memo_key opts rng) result cache')))"

section \<open>Range\<close>

record sv_range =
  rg_options :: sv_options
  rg_raw :: string
  rg_set :: "comparator_obj list list"

text \<open>\<open>split("||")\<close>\<close>

fun split_bars :: "string \<Rightarrow> string list" where
  "split_bars [] = [[]]"
| "split_bars [c] = [[c]]"
| "split_bars (c # d # s) =
     (if c = CHR ''|'' \<and> d = CHR ''|'' then [] # split_bars s
      else (case split_bars (d # s) of [] \<Rightarrow> [[c]] | w # ws \<Rightarrow> (c # w) # ws))"

text \<open>Null sets are dropped if a set is left, and a set that matches everything stands for all.\<close>

definition simplify_sets :: "comparator_obj list list \<Rightarrow> comparator_obj list list" where
  "simplify_sets sets =
     (if length sets \<le> 1 then sets
      else (let live = filter (\<lambda>c. \<not> isNullSet (hd c)) sets in
            if live = [] then [hd sets]
            else if length live > 1
            then (case filter (\<lambda>c. length c = 1 \<and> isAny (hd c)) live of [] \<Rightarrow> live | c # _ \<Rightarrow> [c])
            else live))"

definition new_Range :: "sv_options \<Rightarrow> string \<Rightarrow> sv_range res" where
  "new_Range opts rng =
     (let raw = join '' '' (split_ws (js_trim rng)) in
      res_bind (traverse (\<lambda>r. parse_range opts (js_trim r)) (split_bars raw)) (\<lambda>sets.
        let live = filter (\<lambda>c. c \<noteq> []) sets in
        if live = [] then Inl (TypeError (''Invalid SemVer Range: '' @ raw))
        else Inr \<lparr>rg_options = opts, rg_raw = raw, rg_set = simplify_sets live\<rparr>))"

definition range_text :: "sv_range \<Rightarrow> string" where
  "range_text r = join ''||'' (map (\<lambda>cs. join '' '' (map (\<lambda>c. js_trim (cp_value c)) cs)) (rg_set r))"

definition testSet :: "comparator_obj list \<Rightarrow> semver \<Rightarrow> sv_options \<Rightarrow> bool" where
  "testSet cs version opts \<longleftrightarrow>
     list_all (\<lambda>c. comparator_test c version) cs \<and>
     (sv_prerelease version \<noteq> [] \<and> \<not> includePrerelease opts \<longrightarrow>
        list_ex (\<lambda>c. case cp_semver c of
            None \<Rightarrow> False
          | Some allowed \<Rightarrow> sv_prerelease allowed \<noteq> [] \<and> sv_major allowed = sv_major version \<and>
              sv_minor allowed = sv_minor version \<and> sv_patch allowed = sv_patch version) cs)"

text \<open>\<open>test\<close> of a version object, and of a text.\<close>

definition range_test :: "sv_range \<Rightarrow> semver \<Rightarrow> bool" where
  "range_test r version = list_ex (\<lambda>cs. testSet cs version (rg_options r)) (rg_set r)"

definition range_test_text :: "sv_range \<Rightarrow> string \<Rightarrow> bool" where
  "range_test_text r version =
     (version \<noteq> [] \<and>
      (case SemVer_of (loose (rg_options r)) version of Inl e \<Rightarrow> False | Inr v \<Rightarrow> range_test r v))"

section \<open>Intersections\<close>

definition comparator_intersects :: "sv_options \<Rightarrow> comparator_obj \<Rightarrow> comparator_obj \<Rightarrow> bool res" where
  "comparator_intersects opts a b =
     (if cp_operator a = []
      then (if cp_value a = [] then Inr True
            else res_bind (new_Range opts (cp_value b)) (\<lambda>r. Inr (range_test_text r (cp_value a))))
      else if cp_operator b = []
      then (if cp_value b = [] then Inr True
            else res_bind (new_Range opts (cp_value a)) (\<lambda>r. Inr (range_test r (the (cp_semver b)))))
      else
        (let null = (if includePrerelease opts then (\<lambda>c. cp_value c = ''<0.0.0-0'')
                     else (\<lambda>c. starts_with (cp_value c) ''<0.0.0''));
             up = (\<lambda>c. starts_with (cp_operator c) ''>''); down = (\<lambda>c. starts_with (cp_operator c) ''<'');
             va = the (cp_semver a); vb = the (cp_semver b) in
         Inr (\<not> null a \<and> \<not> null b \<and>
           ((up a \<and> up b) \<or> (down a \<and> down b) \<or>
            (sv_version va = sv_version vb \<and> str_includes (cp_operator a) ''='' \<and> str_includes (cp_operator b) ''='') \<or>
            (cmp_op va ''<'' vb \<and> up a \<and> down b) \<or> (cmp_op va ''>'' vb \<and> down a \<and> up b)))))"

fun every :: "('a \<Rightarrow> bool res) \<Rightarrow> 'a list \<Rightarrow> bool res" where
  "every f [] = Inr True"
| "every f (x # xs) = res_bind (f x) (\<lambda>b. if b then every f xs else Inr False)"

fun some_of :: "('a \<Rightarrow> bool res) \<Rightarrow> 'a list \<Rightarrow> bool res" where
  "some_of f [] = Inr False"
| "some_of f (x # xs) = res_bind (f x) (\<lambda>b. if b then Inr True else some_of f xs)"

text \<open>\<open>isSatisfiable\<close> takes the comparators from the end.\<close>

fun satisfiable_from :: "sv_options \<Rightarrow> comparator_obj list \<Rightarrow> bool res" where
  "satisfiable_from opts [] = Inr True"
| "satisfiable_from opts (t # rest) =
     res_bind (every (comparator_intersects opts t) (rev rest)) (\<lambda>b.
       if b then satisfiable_from opts rest else Inr False)"

definition isSatisfiable :: "sv_options \<Rightarrow> comparator_obj list \<Rightarrow> bool res" where
  "isSatisfiable opts comparators = satisfiable_from opts (rev comparators)"

definition range_intersects :: "sv_options \<Rightarrow> sv_range \<Rightarrow> sv_range \<Rightarrow> bool res" where
  "range_intersects opts r1 r2 =
     some_of (\<lambda>cs.
       res_bind (isSatisfiable opts cs) (\<lambda>b.
         if \<not> b then Inr False
         else some_of (\<lambda>ds.
           res_bind (isSatisfiable opts ds) (\<lambda>b'.
             if \<not> b' then Inr False
             else every (\<lambda>c. every (comparator_intersects opts c) ds) cs)) (rg_set r2))) (rg_set r1)"

section \<open>Functions on ranges\<close>

definition sv_satisfies :: "sv_options \<Rightarrow> string \<Rightarrow> string \<Rightarrow> bool" where
  "sv_satisfies opts version rng =
     (case new_Range opts rng of Inl e \<Rightarrow> False | Inr r \<Rightarrow> range_test_text r version)"

definition toComparators :: "sv_options \<Rightarrow> string \<Rightarrow> string list list res" where
  "toComparators opts rng =
     res_bind (new_Range opts rng) (\<lambda>r.
       Inr (map (\<lambda>cs. split_char CHR '' '' (js_trim (join '' '' (map cp_value cs)))) (rg_set r)))"

text \<open>The best so far, and the next one; \<open>better\<close> says whether it takes its place.\<close>

definition best_step :: "sv_options \<Rightarrow> sv_range \<Rightarrow> int \<Rightarrow> (string \<times> semver) option \<Rightarrow> string \<Rightarrow>
    (string \<times> semver) option" where
  "best_step opts r sign best v =
     (if range_test_text r v
      then (case SemVer_of (loose opts) v of
              Inl e \<Rightarrow> best
            | Inr sv \<Rightarrow>
                (case best of
                   None \<Rightarrow> Some (v, sv)
                 | Some (b, bv) \<Rightarrow> if sv_compare bv sv = sign then Some (v, sv) else best))
      else best)"

definition maxSatisfying :: "sv_options \<Rightarrow> string list \<Rightarrow> string \<Rightarrow> string option" where
  "maxSatisfying opts versions rng =
     (case new_Range opts rng of
        Inl e \<Rightarrow> None
      | Inr r \<Rightarrow> map_option fst (foldl (best_step opts r (-1)) None versions))"

definition minSatisfying :: "sv_options \<Rightarrow> string list \<Rightarrow> string \<Rightarrow> string option" where
  "minSatisfying opts versions rng =
     (case new_Range opts rng of
        Inl e \<Rightarrow> None
      | Inr r \<Rightarrow> map_option fst (foldl (best_step opts r 1) None versions))"

definition validRange :: "sv_options \<Rightarrow> string \<Rightarrow> string option" where
  "validRange opts rng =
     (case new_Range opts rng of
        Inl e \<Rightarrow> None | Inr r \<Rightarrow> Some (if range_text r = [] then ''*'' else range_text r))"

text \<open>
  \<open>minVersion\<close>: the least version one comparator allows by itself; a comparator without a version has no
  version text to read.
\<close>

definition bump_above :: "semver \<Rightarrow> semver" where
  "bump_above v =
     (let u = (if sv_prerelease v = [] then v\<lparr>sv_patch := fl53 (Suc (sv_patch v))\<rparr>
               else v\<lparr>sv_prerelease := sv_prerelease v @ [PNum 0]\<rparr>) in
      (reformat u)\<lparr>sv_raw := format_text u\<rparr>)"

definition set_min_step :: "semver option \<Rightarrow> comparator_obj \<Rightarrow> semver option res" where
  "set_min_step setMin c =
     (case cp_semver c of
        None \<Rightarrow> Inl (TypeError ''Invalid version. Must be a string. Got type \"undefined\".'')
      | Some s \<Rightarrow>
          res_bind (SemVer_of False (sv_version s)) (\<lambda>compver.
            let compver' = (if cp_operator c = ''>'' then bump_above compver else compver) in
            if cp_operator c \<in> {[], ''>'', ''>=''}
            then (case setMin of
                    None \<Rightarrow> Inr (Some compver')
                  | Some m \<Rightarrow> Inr (Some (if sv_compare compver' m > 0 then compver' else m)))
            else Inr setMin))"

fun fold_res :: "('b \<Rightarrow> 'a \<Rightarrow> 'b res) \<Rightarrow> 'b \<Rightarrow> 'a list \<Rightarrow> 'b res" where
  "fold_res f b [] = Inr b"
| "fold_res f b (x # xs) = res_bind (f b x) (\<lambda>b'. fold_res f b' xs)"

definition min_step :: "semver option \<Rightarrow> comparator_obj list \<Rightarrow> semver option res" where
  "min_step minver cs =
     res_bind (fold_res set_min_step None cs) (\<lambda>setMin.
       Inr (case (setMin, minver) of
              (None, _) \<Rightarrow> minver
            | (Some s, None) \<Rightarrow> Some s
            | (Some s, Some m) \<Rightarrow> if sv_compare m s > 0 then Some s else Some m))"

definition minVersion :: "bool \<Rightarrow> string \<Rightarrow> semver option res" where
  "minVersion is_loose rng =
     res_bind (new_Range \<lparr>loose = is_loose, includePrerelease = False\<rparr> rng) (\<lambda>r.
     res_bind (SemVer_of False ''0.0.0'') (\<lambda>zero.
       if range_test r zero then Inr (Some zero)
       else
         res_bind (SemVer_of False ''0.0.0-0'') (\<lambda>zero_pre.
           if range_test r zero_pre then Inr (Some zero_pre)
           else
             res_bind (fold_res min_step None (rg_set r)) (\<lambda>minver.
               Inr (case minver of None \<Rightarrow> None | Some v \<Rightarrow> if range_test r v then Some v else None)))))"

text \<open>\<open>outside\<close>: \<open>True\<close> for the high side. The step finds the highest and the lowest comparator of a set.\<close>

definition beyond :: "bool \<Rightarrow> semver \<Rightarrow> semver \<Rightarrow> bool" where
  "beyond hi a b = (if hi then sv_compare a b > 0 else sv_compare a b < 0)"

definition bounds_step :: "bool \<Rightarrow> (comparator_obj \<times> comparator_obj) option \<Rightarrow> comparator_obj \<Rightarrow>
    (comparator_obj \<times> comparator_obj) option" where
  "bounds_step hi hl c =
     (case hl of
        None \<Rightarrow> Some (c, c)
      | Some (high, low) \<Rightarrow>
          if beyond hi (the (cp_semver c)) (the (cp_semver high)) then Some (c, low)
          else if beyond (\<not> hi) (the (cp_semver c)) (the (cp_semver low)) then Some (high, c)
          else Some (high, low))"

definition set_outside :: "bool \<Rightarrow> semver \<Rightarrow> comparator_obj list \<Rightarrow> bool res" where
  "set_outside hi version comparators =
     res_bind (new_Comparator strict_options ''>=0.0.0'') (\<lambda>zero.
       let cs = map (\<lambda>c. if cp_semver c = None then zero else c) comparators;
           side = (if hi then ''>'' else ''<'') in
       Inr (case foldl (bounds_step hi) None cs of
              None \<Rightarrow> False
            | Some (high, low) \<Rightarrow>
                \<not> (cp_operator high = side \<or> cp_operator high = side @ ''='') \<and>
                \<not> ((cp_operator low = [] \<or> cp_operator low = side) \<and> \<not> beyond hi version (the (cp_semver low))) \<and>
                \<not> (cp_operator low = side @ ''='' \<and> beyond (\<not> hi) version (the (cp_semver low)))))"

definition sv_outside :: "sv_options \<Rightarrow> string \<Rightarrow> string \<Rightarrow> string \<Rightarrow> bool res" where
  "sv_outside opts version rng hilo =
     res_bind (SemVer_of (loose opts) version) (\<lambda>v.
     res_bind (new_Range opts rng) (\<lambda>r.
       if hilo \<noteq> ''>'' \<and> hilo \<noteq> ''<'' then Inl (TypeError ''Must provide a hilo val of \"<\" or \">\"'')
       else if range_test r v then Inr False
       else every (set_outside (hilo = ''>'') v) (rg_set r)))"

definition sv_gtr :: "sv_options \<Rightarrow> string \<Rightarrow> string \<Rightarrow> bool res" where
  "sv_gtr opts version rng = sv_outside opts version rng ''>''"

definition sv_ltr :: "sv_options \<Rightarrow> string \<Rightarrow> string \<Rightarrow> bool res" where
  "sv_ltr opts version rng = sv_outside opts version rng ''<''"

definition sv_intersects :: "sv_options \<Rightarrow> string \<Rightarrow> string \<Rightarrow> bool res" where
  "sv_intersects opts r1 r2 =
     res_bind (new_Range opts r1) (\<lambda>a. res_bind (new_Range opts r2) (\<lambda>b. range_intersects opts a b))"

text \<open>\<open>simplifyRange\<close>: the runs of versions that satisfy the range; a run that is still open has no end.\<close>

definition run_step :: "sv_options \<Rightarrow> string \<Rightarrow>
    (string \<times> string option) list \<times> string option \<times> string option \<Rightarrow> string \<Rightarrow>
    (string \<times> string option) list \<times> string option \<times> string option" where
  "run_step opts rng st version =
     (case st of (runs, first, prev) \<Rightarrow>
        if sv_satisfies opts version rng
        then (runs, (if first = None then Some version else first), Some version)
        else ((case prev of None \<Rightarrow> runs | Some p \<Rightarrow> runs @ [(the first, Some p)]), None, None))"

definition sat_runs :: "sv_options \<Rightarrow> string \<Rightarrow> string list \<Rightarrow> (string \<times> string option) list" where
  "sat_runs opts rng v =
     (case foldl (run_step opts rng) ([], None, None) v of
        (runs, first, prev) \<Rightarrow> (case first of None \<Rightarrow> runs | Some f \<Rightarrow> runs @ [(f, None)]))"

definition run_text :: "string list \<Rightarrow> string \<times> string option \<Rightarrow> string" where
  "run_text v run =
     (case run of
        (low, None) \<Rightarrow> if low = hd v then ''*'' else ''>='' @ low
      | (low, Some high) \<Rightarrow>
          if low = high then low
          else if low = hd v then ''<='' @ high
          else low @ '' - '' @ high)"

definition version_cmp :: "sv_options \<Rightarrow> string \<Rightarrow> string \<Rightarrow> int option" where
  "version_cmp opts a b =
     (case res_bind (SemVer_of (loose opts) a) (\<lambda>v. res_bind (SemVer_of (loose opts) b) (\<lambda>u. Inr (sv_compare v u))) of
        Inl e \<Rightarrow> None | Inr n \<Rightarrow> Some n)"

definition simplifyRange :: "sv_options \<Rightarrow> string list \<Rightarrow> string \<Rightarrow> string res" where
  "simplifyRange opts versions rng =
     (if length versions > 1 \<and> list_ex (\<lambda>a. case SemVer_of (loose opts) a of Inl e \<Rightarrow> True | Inr v \<Rightarrow> False) versions
      then Inl (TypeError ''Invalid Version'')
      else
        (let v = js_sort (version_cmp opts) versions;
             simplified = join '' || '' (map (run_text v) (sat_runs opts rng v)) in
         Inr (if length simplified < length rng then simplified else rng)))"

section \<open>coerce\<close>

text \<open>
  \<open>coerce\<close> of a text. From the right the pattern is tried again from behind the first component of
  the last match, until the match reaches the end or there is no other one.
\<close>

fun coerce_rtl :: "nat \<Rightarrow> re \<Rightarrow> string \<Rightarrow> nat \<Rightarrow> (nat \<times> nat \<times> groups) option \<Rightarrow> groups option" where
  "coerce_rtl 0 r s i m = map_option (snd \<circ> snd) m"
| "coerce_rtl (Suc n) r s i m =
     (case exec_from r s i of
        None \<Rightarrow> map_option (snd \<circ> snd) m
      | Some (a, b, g) \<Rightarrow>
          if m \<noteq> None \<and> fst (snd (the m)) = length s then map_option (snd \<circ> snd) m
          else
            coerce_rtl n r s (a + length (grp_text g 1) + length (grp_text g 2))
              (if m = None \<or> b \<noteq> fst (snd (the m)) then Some (a, b, g) else m))"

definition coerce :: "sv_options \<Rightarrow> bool \<Rightarrow> string \<Rightarrow> semver option" where
  "coerce opts rtl version =
     (let r = (if includePrerelease opts then COERCEFULL else COERCE);
          found = (if rtl then coerce_rtl (Suc (length version)) r version 0 None else exec r version) in
      case found of
        None \<Rightarrow> None
      | Some g \<Rightarrow>
          (let part = (\<lambda>k. if grp_text g k = [] then ''0'' else grp_text g k);
               tail = (\<lambda>c k. if includePrerelease opts \<and> grp_text g k \<noteq> [] then c # grp_text g k else []) in
           case SemVer_of (loose opts)
                  (dots [grp_text g 2, part 3, part 4] @ tail CHR ''-'' 5 @ tail CHR ''+'' 6) of
             Inl e \<Rightarrow> None | Inr v \<Rightarrow> Some v))"

section \<open>Facts\<close>

lemma js_trim_length: "length (js_trim t) \<le> length t"
  by (metis js_trim_def js_trim_end_def js_trim_start_def length_dropWhile_le length_rev order_trans)

text \<open>Without \<open>loose\<close> the constructor is the one of theory \<open>Semver\<close>.\<close>

lemma full_groups_get:
  "grp_text (full_groups 1 (a, b, c, pre, build)) 1 = a" "grp_text (full_groups 1 (a, b, c, pre, build)) 2 = b"
  "grp_text (full_groups 1 (a, b, c, pre, build)) 3 = c" "grp (full_groups 1 (a, b, c, pre, build)) 4 = pre"
  "grp (full_groups 1 (a, b, c, pre, build)) 5 = build"
  by (simp_all add: full_groups_def group_of_def grp_text_def grp_def split: option.split)

lemma SemVer_of_strict: "SemVer_of False t = new_SemVer t"
proof (cases "length t > MAX_LENGTH")
  case False
  then have "exec FULL (js_trim t) = map_option (full_groups 1) (match_full (js_trim t))"
    using js_trim_length [of t] by (intro exec_full) simp
  with False show ?thesis
    by (auto simp: SemVer_of_def new_SemVer_def component_def full_groups_get Let_def split: option.split
        simp del: One_nat_def)
qed (simp add: SemVer_of_def new_SemVer_def)

lemma SemVer_of_text: "SemVer_of l t = Inr v \<Longrightarrow> sv_version v = format_text v"
  by (auto simp: SemVer_of_def reformat_def format_text_def split: if_splits option.splits)

text \<open>The cache keeps its entries true and its size bounded.\<close>

definition memo_entry :: "string \<Rightarrow> comparator_obj list \<Rightarrow> bool" where
  "memo_entry k v \<longleftrightarrow> (\<exists>opts rng. k = memo_key opts rng \<and> range_comparators opts rng = Inr (Inr v))"

definition memo_ok :: "comparator_obj list lru \<Rightarrow> bool" where
  "memo_ok m \<longleftrightarrow> distinct (map fst m) \<and> length m \<le> lru_max \<and> (\<forall>k v. (k, v) \<in> set m \<longrightarrow> memo_entry k v)"

lemma distinct_map_fst_filter: "distinct (map fst m) \<Longrightarrow> distinct (map fst (filter P m))"
  by (induction m) auto

lemma memo_ok_filter: "memo_ok m \<Longrightarrow> memo_ok (filter P m)"
  by (auto simp: memo_ok_def distinct_map_fst_filter intro: order_trans [OF length_filter_le])

lemma memo_ok_snoc:
  "memo_ok m \<Longrightarrow> k \<notin> fst ` set m \<Longrightarrow> length m < lru_max \<Longrightarrow> memo_entry k v \<Longrightarrow> memo_ok (m @ [(k, v)])"
  by (auto simp: memo_ok_def)

lemma delete_shorter: "(k, v) \<in> set m \<Longrightarrow> length (filter (\<lambda>(k', v). k' \<noteq> k) m) < length m"
  by (rule length_filter_less) auto

lemma memo_of: "memo_ok m \<Longrightarrow> map_of m k = Some v \<Longrightarrow> memo_entry k v"
  by (auto simp: memo_ok_def dest: map_of_SomeD)

lemma lru_get_ok: "memo_ok m \<Longrightarrow> memo_ok (snd (lru_get k m))"
proof (cases "map_of m k")
  case (Some v)
  assume m: "memo_ok m"
  have "length (filter (\<lambda>(k', v). k' \<noteq> k) m) < lru_max"
    using delete_shorter [OF map_of_SomeD [OF Some]] m by (simp add: memo_ok_def)
  with memo_of [OF m Some] memo_ok_filter [OF m] have "memo_ok (filter (\<lambda>(k', v). k' \<noteq> k) m @ [(k, v)])"
    by (intro memo_ok_snoc) auto
  with Some show ?thesis by (simp add: lru_get_def lru_delete_def)
qed (simp add: lru_get_def)

lemma lru_set_ok:
  assumes "memo_ok m" "memo_entry k v"
  shows "memo_ok (lru_set k v m)"
proof -
  let ?del = "\<lambda>k m. filter (\<lambda>(k', v). k' \<noteq> k) m"
  let ?m = "?del k m"
  let ?m2 = "if length ?m \<ge> lru_max then ?del (fst (hd ?m)) ?m else ?m"
  have m1: "memo_ok ?m" "memo_ok ?m2" using memo_ok_filter [OF assms(1)] memo_ok_filter by auto
  have "length ?m2 < lru_max"
  proof (cases "length ?m \<ge> lru_max")
    case True
    then have "?m \<noteq> []" by (auto simp: lru_max_def)
    then have "(fst (hd ?m), snd (hd ?m)) \<in> set ?m" by (metis list.set_sel(1) prod.collapse)
    from delete_shorter [OF this] m1(1) True show ?thesis by (simp add: memo_ok_def)
  qed simp
  moreover have "k \<notin> fst ` set ?m2" by auto
  ultimately have "memo_ok (?m2 @ [(k, v)])" using m1(2) assms(2) by (intro memo_ok_snoc)
  with m1(1) show ?thesis
    unfolding lru_set_def lru_delete_def Let_def prod.case snd_conv
    by (cases "map_of m k \<noteq> None") (simp_all only: if_True if_False simp_thms)
qed

lemma memo_key_inj: "memo_key o1 r1 = memo_key o2 r2 \<Longrightarrow> o1 = o2 \<and> r1 = r2"
proof -
  have s: "show_nat 0 = ''0''" "show_nat (Suc 0) = ''1''" "show_nat (Suc (Suc 0)) = ''2''"
    "show_nat (Suc (Suc (Suc 0))) = ''3''" by code_simp+
  show "memo_key o1 r1 = memo_key o2 r2 \<Longrightarrow> o1 = o2 \<and> r1 = r2"
    using s by (cases o1; cases o2) (auto simp: memo_key_def numeral_2_eq_2 split: if_splits)
qed

lemma parseRange_memo:
  assumes "memo_ok m"
  shows "fst (parseRange opts rng m) = parse_range opts rng \<and> memo_ok (snd (parseRange opts rng m))"
proof (cases "map_of m (memo_key opts rng)")
  case None
  then have g: "lru_get (memo_key opts rng) m = (None, m)" by (simp add: lru_get_def)
  show ?thesis
    using lru_set_ok [OF assms, of "memo_key opts rng"] assms
    by (auto simp: parseRange_def g parse_range_def memo_entry_def split: sum.split)
next
  case (Some v)
  then obtain o' r' where k: "memo_key opts rng = memo_key o' r'" and r: "range_comparators o' r' = Inr (Inr v)"
    using memo_of [OF assms Some] by (auto simp: memo_entry_def)
  from memo_key_inj [OF k] r have "parse_range opts rng = Inr v" by (simp add: parse_range_def)
  then show ?thesis using Some lru_get_ok [OF assms, of "memo_key opts rng"]
    by (simp add: parseRange_def lru_get_def)
qed

fun parse_all :: "(sv_options \<times> string) list \<Rightarrow> comparator_obj list lru \<Rightarrow>
    comparator_obj list res list \<times> comparator_obj list lru" where
  "parse_all [] m = ([], m)"
| "parse_all ((opts, rng) # calls) m =
     (let (r, m') = parseRange opts rng m; (rs, m'') = parse_all calls m' in (r # rs, m''))"

lemma parse_all_memo:
  "memo_ok m \<Longrightarrow> fst (parse_all calls m) = map (\<lambda>(opts, rng). parse_range opts rng) calls \<and>
    memo_ok (snd (parse_all calls m))"
proof (induction calls arbitrary: m)
  case (Cons c calls)
  obtain opts rng where c: "c = (opts, rng)" by (cases c)
  obtain r m' where p: "parseRange opts rng m = (r, m')" by fastforce
  with parseRange_memo [OF Cons.prems, of opts rng] have "r = parse_range opts rng" "memo_ok m'" by auto
  with Cons.IH [of m'] show ?case by (simp add: c p split_beta Let_def)
qed simp

text \<open>The best version that satisfies a range.\<close>

definition exact_version :: "sv_options \<Rightarrow> string \<Rightarrow> bool" where
  "exact_version opts v \<longleftrightarrow>
     (case SemVer_of (loose opts) v of Inl e \<Rightarrow> True | Inr sv \<Rightarrow> list_all exact_ident (sv_prerelease sv))"

definition best_of :: "sv_options \<Rightarrow> sv_range \<Rightarrow> int \<Rightarrow> string list \<Rightarrow> (string \<times> semver) option \<Rightarrow> bool" where
  "best_of opts r sign vs best \<longleftrightarrow>
     (case best of
        None \<Rightarrow> \<forall>v\<in>set vs. \<not> range_test_text r v
      | Some (b, bv) \<Rightarrow> b \<in> set vs \<and> range_test_text r b \<and> SemVer_of (loose opts) b = Inr bv \<and> exact bv \<and>
          (\<forall>v\<in>set vs. \<forall>sv. range_test_text r v \<and> SemVer_of (loose opts) v = Inr sv \<longrightarrow> sv_compare bv sv \<noteq> sign))"

lemma exact_parsed: "exact_version opts v \<Longrightarrow> SemVer_of (loose opts) v = Inr sv \<Longrightarrow> exact sv"
  by (simp add: exact_version_def exact_def SemVer_of_text)

lemma order_of_chain:
  "sign = 1 \<or> sign = -1 \<Longrightarrow> order_of a b = sign \<Longrightarrow> order_of a c \<noteq> sign \<Longrightarrow> order_of b c \<noteq> sign"
  by (auto simp: order_of_def split: if_splits)

lemma best_step_best:
  assumes "best_of opts r sign vs best" "exact_version opts v" "rg_options r = opts" "sign = 1 \<or> sign = -1"
    "list_all (exact_version opts) vs"
  shows "best_of opts r sign (vs @ [v]) (best_step opts r sign best v)"
proof (cases "range_test_text r v")
  case False
  then show ?thesis using assms(1) by (auto simp: best_step_def best_of_def split: option.splits)
next
  case t: True
  then obtain sv where sv: "SemVer_of (loose opts) v = Inr sv"
    using assms(3) by (auto simp: range_test_text_def split: sum.splits)
  note ev = exact_parsed [OF assms(2) sv]
  have self: "sv_compare sv sv \<noteq> sign" using assms(4) by (auto simp: sv_compare_def)
  show ?thesis
  proof (cases best)
    case None
    with assms(1) t sv ev self show ?thesis by (auto simp: best_step_def best_of_def)
  next
    case (Some p)
    obtain b bv where p: "p = (b, bv)" by (cases p)
    show ?thesis
    proof (cases "sv_compare bv sv = sign")
      case False
      with assms(1) t sv Some p show ?thesis by (auto simp: best_step_def best_of_def)
    next
      case True
      have "sv_compare sv u \<noteq> sign" if u: "x \<in> set vs" "range_test_text r x" "SemVer_of (loose opts) x = Inr u" for x u
      proof -
        have "exact u" using exact_parsed [OF _ u(3)] assms(5) u(1) by (simp add: list_all_iff)
        moreover have "exact bv" "sv_compare bv u \<noteq> sign" using assms(1) u Some p by (auto simp: best_of_def)
        ultimately show ?thesis
          using order_of_chain [OF assms(4), of "sv_key bv" "sv_key sv" "sv_key u"] True ev by (simp add: sv_compare_order)
      qed
      with True assms(1) t sv ev self Some p show ?thesis by (auto simp: best_step_def best_of_def)
    qed
  qed
qed

lemma best_fold:
  assumes "list_all (exact_version opts) vs" "rg_options r = opts" "sign = 1 \<or> sign = -1"
  shows "best_of opts r sign vs (foldl (best_step opts r sign) None vs)"
  using assms(1)
proof (induction vs rule: rev_induct)
  case (snoc v vs)
  then show ?case using best_step_best [OF _ _ assms(2,3)] by simp
qed (simp add: best_of_def)

lemma new_Range_options: "new_Range opts rng = Inr r \<Longrightarrow> rg_options r = opts"
  by (auto simp: new_Range_def Let_def res_bind_Inr split: if_splits)

lemma satisfies_iff: "new_Range opts rng = Inr r \<Longrightarrow> sv_satisfies opts v rng = range_test_text r v"
  by (simp add: sv_satisfies_def)

text \<open>The range \<open>*\<close>, for evaluation.\<close>

definition any_comparator :: comparator_obj where
  "any_comparator = \<lparr>cp_operator = [], cp_semver = None, cp_value = []\<rparr>"

lemma star_list: "range_list strict_options ''*'' = [[]]"
  by code_simp

lemma star_comparator: "new_Comparator strict_options [] = Inr any_comparator"
  by code_simp

lemma star_range: "new_Range strict_options ''*'' = Inr \<lparr>rg_options = strict_options, rg_raw = ''*'', rg_set = [[any_comparator]]\<rparr>"
proof -
  have "parse_range strict_options ''*'' = Inr [any_comparator]"
    by (simp add: parse_range_def range_comparators_def star_list star_comparator isNullSet_def any_comparator_def drop_any_def)
  moreover have "join '' '' (split_ws (js_trim ''*'')) = ''*''" "js_trim ''*'' = ''*''" "split_bars ''*'' = [''*'']"
    by code_simp+
  ultimately show ?thesis
    by (simp add: new_Range_def simplify_sets_def)
qed

section \<open>Properties\<close>

text \<open>
  The memo of \<open>parseRange\<close> is transparent: whatever ranges are parsed, in whatever order, each call
  returns what parsing without the memo returns, errors included, and the memo never holds more than
  1000 entries.
\<close>

theorem memo_is_transparent:
  "fst (parse_all calls []) = map (\<lambda>(opts, rng). parse_range opts rng) calls \<and>
   length (snd (parse_all calls [])) \<le> 1000"
proof -
  have "memo_ok []" by (simp add: memo_ok_def)
  from parse_all_memo [OF this, of calls] show ?thesis by (simp add: memo_ok_def lru_max_def)
qed

text \<open>
  C33: \<open>maxSatisfying\<close> returns a version of the list that satisfies the range and that no other
  satisfying version of the list comes after, and nothing only if no version satisfies the range.
\<close>

theorem max_satisfying_is_greatest:
  assumes "list_all (exact_version opts) versions" "new_Range opts rng = Inr r"
  shows "case maxSatisfying opts versions rng of
      None \<Rightarrow> \<forall>v\<in>set versions. \<not> sv_satisfies opts v rng
    | Some m \<Rightarrow> m \<in> set versions \<and> sv_satisfies opts m rng \<and>
        (\<forall>v\<in>set versions. sv_satisfies opts v rng \<longrightarrow>
           (\<exists>mv sv. SemVer_of (loose opts) m = Inr mv \<and> SemVer_of (loose opts) v = Inr sv \<and> sv_key sv \<le> sv_key mv))"
proof -
  have b: "best_of opts r (-1) versions (foldl (best_step opts r (-1)) None versions)"
    by (rule best_fold [OF assms(1) new_Range_options [OF assms(2)]]) simp
  have le: "sv_key sv \<le> sv_key mv" if "exact mv" "exact sv" "sv_compare mv sv \<noteq> -1" for mv sv
    using that by (auto simp: sv_compare_order order_of_def split: if_splits)
  have sat: "\<exists>sv. SemVer_of (loose opts) v = Inr sv" if "range_test_text r v" for v
    using that new_Range_options [OF assms(2)] by (auto simp: range_test_text_def split: sum.splits)
  show ?thesis
  proof (cases "foldl (best_step opts r (-1)) None versions")
    case None
    with b assms(2) show ?thesis by (simp add: maxSatisfying_def best_of_def satisfies_iff)
  next
    case (Some p)
    obtain m mv where p: "p = (m, mv)" by (cases p)
    with b Some have m: "m \<in> set versions" "range_test_text r m" "SemVer_of (loose opts) m = Inr mv" "exact mv"
      and best: "\<And>v sv. v \<in> set versions \<Longrightarrow> range_test_text r v \<Longrightarrow> SemVer_of (loose opts) v = Inr sv \<Longrightarrow> sv_compare mv sv \<noteq> -1"
      by (auto simp: best_of_def)
    have "\<exists>sv. SemVer_of (loose opts) v = Inr sv \<and> sv_key sv \<le> sv_key mv" if v: "v \<in> set versions" "range_test_text r v" for v
    proof -
      obtain sv where sv: "SemVer_of (loose opts) v = Inr sv" using sat [OF v(2)] by blast
      have "exact sv" using exact_parsed [OF _ sv] assms(1) v(1) by (simp add: list_all_iff)
      with le [OF m(4)] best [OF v sv] sv show ?thesis by blast
    qed
    with m Some p assms(2) show ?thesis by (simp add: maxSatisfying_def satisfies_iff)
  qed
qed

theorem max_satisfying_is_greatest_witness:
  "maxSatisfying strict_options [''1.2.3''] ''*'' = Some ''1.2.3''"
proof -
  let ?v = "built ''1'' ''2'' ''3'' None None ''1.2.3''"
  have "match_full (js_trim ''1.2.3'') = Some (''1'', ''2'', ''3'', None, None)" by code_simp
  from new_SemVer_Some [OF _ this] have v: "SemVer_of False ''1.2.3'' = Inr ?v"
    by (simp add: SemVer_of_strict MAX_LENGTH_def safe_small nat_of_digits_def digit_val_def)
  have l: "loose strict_options = False" by (simp add: strict_options_def)
  have "sv_satisfies strict_options ''1.2.3'' ''*''"
    by (simp add: satisfies_iff [OF star_range] range_test_text_def l v range_test_def testSet_def comparator_test_def
        any_comparator_def) (simp add: built_def)
  moreover have "list_all (exact_version strict_options) [''1.2.3'']"
    by (simp add: exact_version_def l v) (simp add: built_def)
  ultimately show ?thesis
    using max_satisfying_is_greatest [OF _ star_range, of "[''1.2.3'']"] by (auto split: option.splits)
qed

end
