(* ===== verification/MimeType.thy ===== *)
theory MimeType
  imports Prelude "HOL-Library.Word"
begin

unbundle bit_operations_syntax

text \<open>
  \<open>undici/lib/web/infra/index.js\<close> and \<open>undici/lib/web/fetch/data-url.js\<close>: the text primitives of the
  web standards, percent decoding, and MIME types. The pair of an input and a position is the rest of
  the input behind the position.

  \<open>mime_type_roundtrip\<close>: a MIME type that is written is read back as it was.
\<close>

section \<open>Text primitives\<close>

definition collectASequenceOfCodePoints :: "(char \<Rightarrow> bool) \<Rightarrow> string \<Rightarrow> string \<times> string" where
  "collectASequenceOfCodePoints condition rest = (takeWhile condition rest, dropWhile condition rest)"

definition collectASequenceOfCodePointsFast :: "char \<Rightarrow> string \<Rightarrow> string \<times> string" where
  "collectASequenceOfCodePointsFast c rest =
     (case index_of rest [c] of None \<Rightarrow> (rest, []) | Some idx \<Rightarrow> (take idx rest, drop idx rest))"

definition isASCIIWhitespace :: "char \<Rightarrow> bool" where
  "isASCIIWhitespace c \<longleftrightarrow> (of_char c :: nat) \<in> set [9, 10, 12, 13, 32]"

definition isHTTPWhiteSpace :: "char \<Rightarrow> bool" where
  "isHTTPWhiteSpace c \<longleftrightarrow> (of_char c :: nat) \<in> set [13, 10, 9, 32]"

text \<open>The loop from the end stops at the first character, even when that one is to be removed.\<close>

fun last_kept :: "(char \<Rightarrow> bool) \<Rightarrow> string \<Rightarrow> nat \<Rightarrow> nat" where
  "last_kept predicate s 0 = 0"
| "last_kept predicate s (Suc trail) =
     (if predicate (s ! Suc trail) then last_kept predicate s trail else Suc trail)"

definition removeChars :: "string \<Rightarrow> bool \<Rightarrow> bool \<Rightarrow> (char \<Rightarrow> bool) \<Rightarrow> string" where
  "removeChars s leading trailing predicate =
     (if s = [] then s
      else (let lead = (if leading then length (takeWhile predicate s) else 0);
                trail = (if trailing then last_kept predicate s (length s - 1) else length s - 1) in
            if lead = 0 \<and> trail = length s - 1 then s else drop lead (take (trail + 1) s)))"

definition removeASCIIWhitespace :: "string \<Rightarrow> bool \<Rightarrow> bool \<Rightarrow> string" where
  "removeASCIIWhitespace s leading trailing = removeChars s leading trailing isASCIIWhitespace"

definition removeHTTPWhitespace :: "string \<Rightarrow> bool \<Rightarrow> bool \<Rightarrow> string" where
  "removeHTTPWhitespace s leading trailing = removeChars s leading trailing isHTTPWhiteSpace"

section \<open>Percent decoding\<close>

type_synonym byte = "8 word"

lemma all_bytes: "list_all (\<lambda>n. P (of_nat n)) [0..<256] \<Longrightarrow> P (b :: byte)"
  using all_upt [of "\<lambda>n. P (of_nat n)" 256 "unat b"] unsigned_less [of b, where ?'a = nat] by simp

definition isHexCharByte :: "byte \<Rightarrow> bool" where
  "isHexCharByte b \<longleftrightarrow> 48 \<le> b \<and> b \<le> 57 \<or> 65 \<le> b \<and> b \<le> 70 \<or> 97 \<le> b \<and> b \<le> 102"

definition hexByteToNumber :: "byte \<Rightarrow> byte" where
  "hexByteToNumber b = (if 48 \<le> b \<and> b \<le> 57 then b - 48 else (b AND 223) - 55)"

text \<open>A byte behind the end of the input is \<open>undefined\<close>, which is no hexadecimal digit.\<close>

fun percentDecode :: "byte list \<Rightarrow> byte list" where
  "percentDecode [] = []"
| "percentDecode (b # bs) =
     (if b \<noteq> 37 then b # percentDecode bs
      else (case bs of
              h # l # rest \<Rightarrow>
                if isHexCharByte h \<and> isHexCharByte l
                then (push_bit 4 (hexByteToNumber h) OR hexByteToNumber l) # percentDecode rest
                else 37 # percentDecode bs
            | _ \<Rightarrow> 37 # percentDecode bs))"

text \<open>\<open>TextEncoder\<close> on 8-bit characters.\<close>

definition utf8_char :: "char \<Rightarrow> byte list" where
  "utf8_char c =
     (let n = of_char c :: byte in
      if n < 128 then [n] else [192 OR drop_bit 6 n, 128 OR (n AND 63)])"

definition stringPercentDecode :: "string \<Rightarrow> byte list" where
  "stringPercentDecode s = percentDecode (concat (map utf8_char s))"

section \<open>MIME types\<close>

text \<open>The character classes \<open>HTTP_TOKEN_CODEPOINTS\<close> and \<open>HTTP_QUOTED_STRING_TOKENS\<close>, of non-empty texts.\<close>

definition token_char :: "char \<Rightarrow> bool" where
  "token_char c \<longleftrightarrow> c \<in> set ''-!#$%&*+.^_|~'' \<or> c = CHR 0x27 \<or>
     (let n = of_char c :: nat in 65 \<le> n \<and> n \<le> 90 \<or> 97 \<le> n \<and> n \<le> 122 \<or> 48 \<le> n \<and> n \<le> 57)"

definition http_token :: "string \<Rightarrow> bool" where
  "http_token s \<longleftrightarrow> s \<noteq> [] \<and> list_all token_char s"

definition quoted_char :: "char \<Rightarrow> bool" where
  "quoted_char c \<longleftrightarrow> (let n = of_char c :: nat in n = 9 \<or> 32 \<le> n \<and> n \<le> 126 \<or> 128 \<le> n)"

definition http_quoted :: "string \<Rightarrow> bool" where
  "http_quoted s \<longleftrightarrow> s \<noteq> [] \<and> list_all quoted_char s"

record mime_type =
  mt_type :: string
  mt_subtype :: string
  mt_parameters :: "(string \<times> string) list"

definition mt_essence :: "mime_type \<Rightarrow> string" where
  "mt_essence m = mt_type m @ ''/'' @ mt_subtype m"

text \<open>
  The loop of \<open>collectAnHTTPQuotedString\<close> behind the opening quote, character by character: the value
  and the rest of the input.
\<close>

fun quoted_value :: "string \<Rightarrow> string \<times> string" where
  "quoted_value [] = ([], [])"
| "quoted_value (c # s) =
     (if c = CHR 0x22 then ([], s)
      else if c = CHR 0x5C
      then (case s of
              [] \<Rightarrow> ([CHR 0x5C], [])
            | d # s' \<Rightarrow> (let (v, r) = quoted_value s' in (d # v, r)))
      else (let (v, r) = quoted_value s in (c # v, r)))"

definition collectAnHTTPQuotedString :: "bool \<Rightarrow> string \<Rightarrow> string \<times> string" where
  "collectAnHTTPQuotedString extractValue rest =
     (let (v, r) = quoted_value (tl rest) in
      if extractValue then (v, r) else (take (length rest - length r) rest, r))"

definition put_parameter :: "string \<Rightarrow> string \<Rightarrow> (string \<times> string) list \<Rightarrow> (string \<times> string) list" where
  "put_parameter name v ps =
     (if http_token name \<and> (v = [] \<or> http_quoted v) \<and> map_of ps name = None then ps @ [(name, v)] else ps)"

lemma quoted_value_Cons:
  "quoted_value (c # s) =
     (if c = CHR 0x22 then ([], s)
      else if c \<noteq> CHR 0x5C then (c # fst (quoted_value s), snd (quoted_value s))
      else if s = [] then ([CHR 0x5C], [])
      else (hd s # fst (quoted_value (tl s)), snd (quoted_value (tl s))))"
  by (cases s) (simp_all add: case_prod_beta)

declare quoted_value.simps(2) [simp del]

lemma quoted_value_shorter: "length (snd (quoted_value s)) \<le> length s"
proof (induction s rule: length_induct)
  case (1 s)
  show ?case
  proof (cases s)
    case (Cons c t)
    have "length (snd (quoted_value t)) \<le> length t" "length (snd (quoted_value (tl t))) \<le> length (tl t)"
      by (rule 1 [rule_format], simp add: Cons)+
    with Cons show ?thesis by (auto simp: quoted_value_Cons)
  qed simp
qed

lemma collect_fast: "collectASequenceOfCodePointsFast c s = (takeWhile (\<lambda>x. x \<noteq> c) s, dropWhile (\<lambda>x. x \<noteq> c) s)"
  by (induction s) (auto simp: collectASequenceOfCodePointsFast_def split: option.splits)

text \<open>
  One turn of the loop over the parameters, from behind the semicolon: the parameter it reads, if any,
  and the rest of the input. The rest is empty where the loop ends.
\<close>

definition mime_param :: "string \<Rightarrow> (string \<times> string) option \<times> string" where
  "mime_param input =
     (let (_, r1) = collectASequenceOfCodePoints isHTTPWhiteSpace input;
          (name, r2) = collectASequenceOfCodePoints (\<lambda>c. c \<noteq> CHR '';'' \<and> c \<noteq> CHR ''='') r1;
          parameterName = to_lower name in
      if r2 = [] then (None, [])
      else if hd r2 = CHR '';'' then (None, r2)
      else if tl r2 = [] then (None, [])
      else if hd (tl r2) = CHR 0x22
      then (let (parameterValue, r4) = collectAnHTTPQuotedString True (tl r2) in
            (Some (parameterName, parameterValue), snd (collectASequenceOfCodePointsFast CHR '';'' r4)))
      else (let (v, r5) = collectASequenceOfCodePointsFast CHR '';'' (tl r2);
                parameterValue = removeHTTPWhitespace v False True in
            (if parameterValue = [] then None else Some (parameterName, parameterValue), r5)))"

lemma mime_param_shorter: "length (snd (mime_param s)) \<le> length s"
proof -
  note d = length_dropWhile_le
  define r2 where "r2 = dropWhile (\<lambda>c. c \<noteq> CHR '';'' \<and> c \<noteq> CHR ''='') (dropWhile isHTTPWhiteSpace s)"
  have r2: "length r2 \<le> length s" unfolding r2_def by (meson d le_trans)
  have t: "length (dropWhile P (tl r2)) \<le> length s" for P using d [of P "tl r2"] r2 by simp
  have "length (dropWhile P (snd (quoted_value (tl (tl r2))))) \<le> length s" for P
    using quoted_value_shorter [of "tl (tl r2)"] d [of P "snd (quoted_value (tl (tl r2)))"] r2 by simp
  then show ?thesis
    using r2 t
    by (simp add: mime_param_def Let_def collectASequenceOfCodePoints_def collect_fast collectAnHTTPQuotedString_def
        case_prod_beta flip: r2_def)
qed

lemma mime_param_snd [termination_simp]: "length (snd (mime_param s)) < Suc (length s)"
  using mime_param_shorter [of s] by simp

fun mime_params :: "string \<Rightarrow> (string \<times> string) list \<Rightarrow> (string \<times> string) list" where
  "mime_params [] ps = ps"
| "mime_params (c # input) ps =
     mime_params (snd (mime_param input))
       (case fst (mime_param input) of None \<Rightarrow> ps | Some (name, v) \<Rightarrow> put_parameter name v ps)"

definition parseMIMEType :: "string \<Rightarrow> mime_type option" where
  "parseMIMEType text =
     (let input = removeHTTPWhitespace text True True;
          (type_part, r1) = collectASequenceOfCodePointsFast CHR ''/'' input in
      if \<not> http_token type_part \<or> r1 = [] then None
      else
        (let (sub, r2) = collectASequenceOfCodePointsFast CHR '';'' (tl r1);
             subtype = removeHTTPWhitespace sub False True in
         if \<not> http_token subtype then None
         else Some \<lparr>mt_type = to_lower type_part, mt_subtype = to_lower subtype,
                    mt_parameters = mime_params r2 []\<rparr>))"

definition escape_quoted :: "string \<Rightarrow> string" where
  "escape_quoted v = concat (map (\<lambda>c. if c = CHR 0x5C \<or> c = CHR 0x22 then [CHR 0x5C, c] else [c]) v)"

definition parameter_text :: "string \<times> string \<Rightarrow> string" where
  "parameter_text p =
     (case p of (name, v) \<Rightarrow>
        '';'' @ name @ ''='' @ (if http_token v then v else [CHR 0x22] @ escape_quoted v @ [CHR 0x22]))"

definition serializeAMimeType :: "mime_type \<Rightarrow> string" where
  "serializeAMimeType m = mt_essence m @ concat (map parameter_text (mt_parameters m))"

definition minimizeSupportedMimeType :: "mime_type \<Rightarrow> string" where
  "minimizeSupportedMimeType m =
     (let essence = mt_essence m in
      if essence \<in> set [''application/ecmascript'', ''application/javascript'', ''application/x-ecmascript'',
           ''application/x-javascript'', ''text/ecmascript'', ''text/javascript'', ''text/javascript1.0'',
           ''text/javascript1.1'', ''text/javascript1.2'', ''text/javascript1.3'', ''text/javascript1.4'',
           ''text/javascript1.5'', ''text/jscript'', ''text/livescript'', ''text/x-ecmascript'', ''text/x-javascript'']
      then ''text/javascript''
      else if essence \<in> set [''application/json'', ''text/json''] then ''application/json''
      else if essence = ''image/svg+xml'' then ''image/svg+xml''
      else if essence \<in> set [''text/xml'', ''application/xml''] then ''application/xml''
      else if ends_with (mt_subtype m) ''+json'' then ''application/json''
      else if ends_with (mt_subtype m) ''+xml'' then ''application/xml''
      else [])"

section \<open>Facts\<close>

lemma token_char_code:
  "token_char c \<Longrightarrow> (of_char c :: nat) \<in> {33..126} - {34, 47, 59, 61}"
  by (auto simp: token_char_def Let_def)

lemma token_char_facts:
  assumes "token_char c"
  shows "\<not> isHTTPWhiteSpace c" "c \<noteq> CHR '';''" "c \<noteq> CHR ''=''" "c \<noteq> CHR ''/''" "c \<noteq> CHR 0x22" "quoted_char c"
  using token_char_code [OF assms] by (auto simp: isHTTPWhiteSpace_def quoted_char_def Let_def)

lemma token_ends: "http_token s \<Longrightarrow> \<not> isHTTPWhiteSpace (hd s)" "http_token s \<Longrightarrow> \<not> isHTTPWhiteSpace (last s)"
  by (auto simp: http_token_def list_all_iff dest: token_char_facts(1))

lemma quote_no_space [simp]: "\<not> isHTTPWhiteSpace CHR 0x22" "\<not> isHTTPWhiteSpace CHR ''=''"
  by (simp_all add: isHTTPWhiteSpace_def)

lemma last_kept_id: "\<not> predicate (s ! n) \<Longrightarrow> last_kept predicate s n = n"
  by (cases n) auto

lemma remove_nothing:
  assumes "s \<noteq> [] \<Longrightarrow> \<not> predicate (hd s) \<and> \<not> predicate (last s)"
  shows "removeChars s leading trailing predicate = s"
proof (cases "s = []")
  case False
  with assms have "\<not> predicate (s ! (length s - 1))" "\<not> predicate (hd s)" by (simp_all add: last_conv_nth)
  then show ?thesis by (cases s) (simp_all add: removeChars_def Let_def last_kept_id del: One_nat_def)
qed (simp add: removeChars_def)

lemma remove_token: "list_all token_char s \<Longrightarrow> removeHTTPWhitespace s leading trailing = s"
  unfolding removeHTTPWhitespace_def
  by (rule remove_nothing) (auto simp: list_all_iff dest: token_char_facts(1))

lemma quoted_escape: "quoted_value (escape_quoted v @ CHR 0x22 # rest) = (v, rest)"
  by (induction v) (simp_all add: escape_quoted_def quoted_value_Cons)

lemma span_stop:
  "list_all P xs \<Longrightarrow> \<not> P c \<Longrightarrow> takeWhile P (xs @ c # ys) = xs"
  "list_all P xs \<Longrightarrow> \<not> P c \<Longrightarrow> dropWhile P (xs @ c # ys) = c # ys"
  by (induction xs) auto

lemma span_end: "list_all P xs \<Longrightarrow> takeWhile P xs = xs" "list_all P xs \<Longrightarrow> dropWhile P xs = []"
  by (induction xs) auto

text \<open>A rest that is empty or begins with the separator.\<close>

definition at_sep :: "char \<Rightarrow> string \<Rightarrow> bool" where
  "at_sep c rest \<longleftrightarrow> rest = [] \<or> hd rest = c"

lemma span_sep:
  assumes "list_all (\<lambda>x. x \<noteq> c) xs" "at_sep c rest"
  shows "takeWhile (\<lambda>x. x \<noteq> c) (xs @ rest) = xs" "dropWhile (\<lambda>x. x \<noteq> c) (xs @ rest) = rest"
  using assms span_stop [of "\<lambda>x. x \<noteq> c" xs c "tl rest"] span_end [of "\<lambda>x. x \<noteq> c" xs]
  by (cases rest; simp add: at_sep_def)+

definition wf_parameter :: "string \<times> string \<Rightarrow> bool" where
  "wf_parameter p \<longleftrightarrow> http_token (fst p) \<and> to_lower (fst p) = fst p \<and> (snd p = [] \<or> http_quoted (snd p))"

definition wf_mime :: "mime_type \<Rightarrow> bool" where
  "wf_mime m \<longleftrightarrow> http_token (mt_type m) \<and> to_lower (mt_type m) = mt_type m \<and>
     http_token (mt_subtype m) \<and> to_lower (mt_subtype m) = mt_subtype m \<and>
     list_all wf_parameter (mt_parameters m) \<and> distinct (map fst (mt_parameters m))"

lemma token_all: "http_token s \<Longrightarrow> (\<And>c. token_char c \<Longrightarrow> P c) \<Longrightarrow> list_all P s"
  by (simp add: http_token_def list_all_iff)

lemma mime_param_text:
  assumes "wf_parameter (name, v)" and rest: "at_sep CHR '';'' rest"
  shows "mime_param (tl (parameter_text (name, v) @ rest)) = (Some (name, v), rest)"
proof -
  let ?w = "if http_token v then v else [CHR 0x22] @ escape_quoted v @ [CHR 0x22]"
  have n: "http_token name" "to_lower name = name" "name \<noteq> []"
    using assms(1) by (simp_all add: wf_parameter_def http_token_def)
  have "list_all (\<lambda>c. c \<noteq> CHR '';'' \<and> c \<noteq> CHR ''='') name"
    by (rule token_all [OF n(1)]) (simp add: token_char_facts)
  note name = span_stop [OF this, of "CHR ''=''" "?w @ rest", simplified]
  have ws: "dropWhile isHTTPWhiteSpace (name @ t) = name @ t" for t
    using n(1,3) by (cases name) (auto simp: http_token_def token_char_facts)
  have t: "tl (parameter_text (name, v) @ rest) = name @ CHR ''='' # ?w @ rest"
    by (simp add: parameter_text_def)
  show ?thesis
  proof (cases "http_token v")
    case True
    have "list_all (\<lambda>x. x \<noteq> CHR '';'') v" by (rule token_all [OF True]) (simp add: token_char_facts)
    note v = span_sep [OF this rest]
    have "v \<noteq> []" "hd (v @ rest) \<noteq> CHR 0x22"
      using True by (cases v; auto simp: http_token_def dest: token_char_facts)+
    with True name ws v n show ?thesis unfolding t
      by (simp add: mime_param_def Let_def collectASequenceOfCodePoints_def collect_fast remove_token http_token_def)
  next
    case False
    with name ws n rest span_sep(2) [of "CHR '';''" "[]" rest] show ?thesis unfolding t
      by (simp add: mime_param_def Let_def collectASequenceOfCodePoints_def collect_fast collectAnHTTPQuotedString_def
          quoted_escape)
  qed
qed

lemma at_sep_parameters [simp]: "at_sep CHR '';'' (concat (map parameter_text ps))"
  by (cases ps) (auto simp: at_sep_def parameter_text_def)

lemma mime_params_text:
  assumes "list_all wf_parameter ps" "distinct (map fst (acc @ ps))"
  shows "mime_params (concat (map parameter_text ps)) acc = acc @ ps"
  using assms
proof (induction ps arbitrary: acc)
  case (Cons p ps)
  obtain name v where p: "p = (name, v)" by (cases p)
  have ne: "parameter_text p @ t = CHR '';'' # tl (parameter_text p @ t)" for t
    by (simp add: parameter_text_def p)
  have m: "mime_param (tl (parameter_text p @ concat (map parameter_text ps))) = (Some p, concat (map parameter_text ps))"
    using mime_param_text Cons.prems(1) by (simp add: p)
  have "map_of acc name = None" using Cons.prems(2) by (auto simp: p map_of_eq_None_iff)
  then have put: "put_parameter name v acc = acc @ [p]"
    using Cons.prems(1) by (simp add: put_parameter_def wf_parameter_def p)
  have "mime_params (concat (map parameter_text (p # ps))) acc = mime_params (concat (map parameter_text ps)) (acc @ [p])"
    using m put by (simp add: p) (subst ne [unfolded p], simp add: p)
  with Cons show ?case by simp
qed simp

section \<open>Properties\<close>

text \<open>
  C29: a MIME type that \<open>serializeAMimeType\<close> writes is read back by \<open>parseMIMEType\<close> as it was,
  parameters in order, whatever characters the quoted values hold.
\<close>

theorem mime_type_roundtrip:
  assumes "wf_mime m"
  shows "parseMIMEType (serializeAMimeType m) = Some m"
proof -
  let ?ps = "concat (map parameter_text (mt_parameters m))"
  have wf: "http_token (mt_type m)" "http_token (mt_subtype m)" "list_all wf_parameter (mt_parameters m)"
    using assms by (simp_all add: wf_mime_def)
  have m: "serializeAMimeType m = mt_type m @ CHR ''/'' # mt_subtype m @ ?ps"
    by (simp add: serializeAMimeType_def mt_essence_def)
  have ends_ok: "\<not> isHTTPWhiteSpace (last (parameter_text p))" if "wf_parameter p" for p
    by (cases p; cases "http_token (snd p)") (auto simp: parameter_text_def token_ends http_token_def [of "[]"])
  have "\<not> isHTTPWhiteSpace (last (mt_subtype m @ concat (map parameter_text ps)))" if "list_all wf_parameter ps" for ps
    using that
  proof (induction ps rule: rev_induct)
    case (snoc p ps)
    with ends_ok [of p] show ?case by (cases p) (simp add: last_append parameter_text_def)
  qed (simp add: token_ends wf)
  from this [OF wf(3)] have ends: "\<not> isHTTPWhiteSpace (hd (mt_type m))" "\<not> isHTTPWhiteSpace (last (mt_subtype m @ ?ps))"
    by (simp_all add: token_ends wf)
  have trim: "removeHTTPWhitespace (serializeAMimeType m) True True = serializeAMimeType m"
    unfolding removeHTTPWhitespace_def using wf(1,2) ends
    by (intro remove_nothing) (auto simp: m http_token_def last_append)
  have a: "list_all (\<lambda>x. x \<noteq> CHR ''/'') (mt_type m)" "list_all (\<lambda>x. x \<noteq> CHR '';'') (mt_subtype m)"
    by (rule token_all [OF wf(1)], erule token_char_facts) (rule token_all [OF wf(2)], erule token_char_facts)
  have remove_subtype: "removeHTTPWhitespace (mt_subtype m) False True = mt_subtype m"
    using wf(2) by (simp add: remove_token http_token_def)
  have "mime_params ?ps [] = mt_parameters m"
    using mime_params_text [of "mt_parameters m" "[]"] assms by (simp add: wf_mime_def)
  with wf assms span_stop [OF a(1), of "CHR ''/''" "mt_subtype m @ ?ps"] span_sep [OF a(2), of ?ps]
  show ?thesis
    unfolding parseMIMEType_def trim Let_def
    by (simp add: collect_fast m wf_mime_def remove_subtype del: dropWhile_eq_Nil_conv)
qed

theorem mime_type_roundtrip_witness:
  "parseMIMEType ''text/plain;charset=utf-8;title=\"a b\"'' =
     Some \<lparr>mt_type = ''text'', mt_subtype = ''plain'', mt_parameters = [(''charset'', ''utf-8''), (''title'', ''a b'')]\<rparr>"
proof -
  let ?m = "\<lparr>mt_type = ''text'', mt_subtype = ''plain'', mt_parameters = [(''charset'', ''utf-8''), (''title'', ''a b'')]\<rparr>"
  have "wf_mime ?m" by code_simp
  note mime_type_roundtrip [OF this]
  moreover have "serializeAMimeType ?m = ''text/plain;charset=utf-8;title=\"a b\"''" by code_simp
  ultimately show ?thesis by simp
qed

end
