(* ===== verification/WsFrame.thy ===== *)
theory WsFrame
  imports MimeType
begin

unbundle bit_operations_syntax

text \<open>
  \<open>undici/lib/web/websocket/constants.js\<close>, \<open>util.js\<close> and \<open>frame.js\<close>: opcodes, the checks on
  subprotocols, close codes and extensions, and the frames a client writes. Buffers are lists of
  bytes. The random source is the parameter \<open>rnd\<close>: byte \<open>i\<close> of the \<open>n\<close>-th time \<open>randomFillSync\<close> is
  called.

  \<open>read_frame\<close> is the reader of section 5.2 of the WebSocket standard, which a server applies;
  \<open>frame_roundtrip\<close> is that it reads what \<open>createFrame\<close> writes.
\<close>

section \<open>Constants and checks\<close>

type_synonym bytes = "byte list"

datatype ready_state = CONNECTING | OPEN | CLOSING | CLOSED

definition CONTINUATION :: nat where "CONTINUATION = 0"
definition TEXT :: nat where "TEXT = 1"
definition BINARY :: nat where "BINARY = 2"
definition CLOSE :: nat where "CLOSE = 8"
definition PING :: nat where "PING = 9"
definition PONG :: nat where "PONG = 10"

lemmas opcode_defs = CONTINUATION_def TEXT_def BINARY_def CLOSE_def PING_def PONG_def

definition maxUnsigned16Bit :: nat where "maxUnsigned16Bit = 65535"

definition isValidSubprotocol :: "string \<Rightarrow> bool" where
  "isValidSubprotocol protocol \<longleftrightarrow> protocol \<noteq> [] \<and>
     list_all (\<lambda>c. let code = of_char c :: nat in
       \<not> (code < 33 \<or> code > 126 \<or>
          code \<in> set [34, 40, 41, 44, 47, 58, 59, 60, 61, 62, 63, 64, 91, 92, 93, 123, 125])) protocol"

definition isValidStatusCode :: "nat \<Rightarrow> bool" where
  "isValidStatusCode code =
     (if 1000 \<le> code \<and> code < 1015 then code \<noteq> 1004 \<and> code \<noteq> 1005 \<and> code \<noteq> 1006
      else 3000 \<le> code \<and> code \<le> 4999)"

definition isControlFrame :: "nat \<Rightarrow> bool" where
  "isControlFrame opcode \<longleftrightarrow> opcode = CLOSE \<or> opcode = PING \<or> opcode = PONG"

definition isContinuationFrame :: "nat \<Rightarrow> bool" where
  "isContinuationFrame opcode \<longleftrightarrow> opcode = CONTINUATION"

definition isTextBinaryFrame :: "nat \<Rightarrow> bool" where
  "isTextBinaryFrame opcode \<longleftrightarrow> opcode = TEXT \<or> opcode = BINARY"

definition isValidOpcode :: "nat \<Rightarrow> bool" where
  "isValidOpcode opcode \<longleftrightarrow> isTextBinaryFrame opcode \<or> isContinuationFrame opcode \<or> isControlFrame opcode"

text \<open>\<open>Map.set\<close> on a list of entries.\<close>

fun map_set :: "('k \<times> 'v) list \<Rightarrow> 'k \<Rightarrow> 'v \<Rightarrow> ('k \<times> 'v) list" where
  "map_set [] k v = [(k, v)]"
| "map_set ((k', v') # m) k v = (if k' = k then (k, v) # m else (k', v') # map_set m k v)"

definition extension_pair :: "string \<Rightarrow> string \<times> string" where
  "extension_pair pair =
     (let parts = split_char CHR ''='' pair;
          value = (if length parts < 2 then [] else parts ! 1) in
      (removeHTTPWhitespace (hd parts) True False, removeHTTPWhitespace value False True))"

lemma collect_fast_shorter [termination_simp]:
  "length (snd (collectASequenceOfCodePointsFast c (d # s))) - Suc 0 < Suc (length s)"
  using length_dropWhile_le [of "\<lambda>x. x \<noteq> c" s] by (auto simp: collect_fast)

fun extension_list :: "string \<Rightarrow> (string \<times> string) list \<Rightarrow> (string \<times> string) list" where
  "extension_list [] m = m"
| "extension_list (c # rest) m =
     (let (name, v) = extension_pair (fst (collectASequenceOfCodePointsFast CHR '';'' (c # rest))) in
      extension_list (tl (snd (collectASequenceOfCodePointsFast CHR '';'' (c # rest)))) (map_set m name v))"

definition parseExtensions :: "string \<Rightarrow> (string \<times> string) list" where
  "parseExtensions extensions = extension_list extensions []"

definition isValidClientWindowBits :: "string \<Rightarrow> bool" where
  "isValidClientWindowBits v \<longleftrightarrow> v \<noteq> [] \<and> list_all is_digit v \<and> 8 \<le> nat_of_digits v \<and> nat_of_digits v \<le> 15"

section \<open>Frames\<close>

definition BUFFER_SIZE :: nat where "BUFFER_SIZE = 8 * 1024"

record mask_pool =
  mp_buffer :: "nat \<Rightarrow> byte"
  mp_bufIdx :: nat
  mp_fills :: nat

definition new_pool :: mask_pool where
  "new_pool = \<lparr>mp_buffer = \<lambda>_. 0, mp_bufIdx = BUFFER_SIZE, mp_fills = 0\<rparr>"

type_synonym mask_key = "byte \<times> byte \<times> byte \<times> byte"

definition generateMask :: "(nat \<Rightarrow> nat \<Rightarrow> byte) \<Rightarrow> mask_pool \<Rightarrow> mask_key \<times> mask_pool" where
  "generateMask rnd p0 =
     (let p = (if mp_bufIdx p0 = BUFFER_SIZE
               then p0\<lparr>mp_bufIdx := 0, mp_buffer := rnd (mp_fills p0), mp_fills := Suc (mp_fills p0)\<rparr> else p0);
          b = mp_buffer p; i = mp_bufIdx p in
      ((b i, b (i + 1), b (i + 2), b (i + 3)), p\<lparr>mp_bufIdx := i + 4\<rparr>))"

fun mask_bytes :: "mask_key \<Rightarrow> bytes" where
  "mask_bytes (a, b, c, d) = [a, b, c, d]"

definition xor_mask :: "mask_key \<Rightarrow> bytes \<Rightarrow> bytes" where
  "xor_mask k data = map (\<lambda>i. data ! i XOR mask_bytes k ! (i AND 3)) [0..<length data]"

text \<open>\<open>writeUIntBE(value, _, n)\<close> and its readers.\<close>

primrec be :: "nat \<Rightarrow> nat \<Rightarrow> bytes" where
  "be 0 v = []"
| "be (Suc n) v = be n (v div 256) @ [of_nat v]"

definition read_be :: "bytes \<Rightarrow> nat" where
  "read_be bs = foldl (\<lambda>v b. 256 * v + unat b) 0 bs"

text \<open>The length in the second byte, and the bytes of the extended length.\<close>

definition payload_length :: "nat \<Rightarrow> nat" where
  "payload_length bodyLength =
     (if bodyLength > maxUnsigned16Bit then 127 else if bodyLength > 125 then 126 else bodyLength)"

definition extended_length :: "nat \<Rightarrow> bytes" where
  "extended_length bodyLength =
     (if payload_length bodyLength = 126 then be 2 bodyLength
      else if payload_length bodyLength = 127 then [0, 0] @ be 6 bodyLength
      else [])"

definition createFrame :: "mask_key \<Rightarrow> nat \<Rightarrow> bytes \<Rightarrow> bytes" where
  "createFrame maskKey opcode frameData =
     [(128 AND 240) + of_nat opcode, of_nat (payload_length (length frameData)) OR 128] @
     extended_length (length frameData) @ mask_bytes maskKey @ xor_mask maskKey frameData"

definition createFastTextFrame :: "mask_key \<Rightarrow> bytes \<Rightarrow> bytes \<times> bytes" where
  "createFastTextFrame maskKey buffer =
     ([128 OR of_nat TEXT, of_nat (payload_length (length buffer)) OR 128] @
      extended_length (length buffer) @ mask_bytes maskKey,
      xor_mask maskKey buffer)"

section \<open>The reader of the standard\<close>

record ws_frame =
  wf_fin :: bool
  wf_rsv :: byte
  wf_opcode :: nat
  wf_masked :: bool
  wf_payload :: bytes

definition read_length :: "nat \<Rightarrow> bytes \<Rightarrow> (nat \<times> bytes) option" where
  "read_length n bs =
     (let k = (if n = 126 then 2 else if n = 127 then 8 else 0) in
      if length bs < k then None else Some (if k = 0 then n else read_be (take k bs), drop k bs))"

definition unmask :: "bytes \<Rightarrow> bytes \<Rightarrow> bytes" where
  "unmask key data = map (\<lambda>i. data ! i XOR key ! (i mod 4)) [0..<length data]"

definition read_frame :: "bytes \<Rightarrow> (ws_frame \<times> bytes) option" where
  "read_frame bs =
     (case bs of
        b0 # b1 # r0 \<Rightarrow>
          (case read_length (unat (b1 AND 127)) r0 of
             None \<Rightarrow> None
           | Some (n, r1) \<Rightarrow>
               (let masked = (b1 AND 128 \<noteq> 0); k = (if masked then 4 else 0) in
                if length r1 < k + n then None
                else Some (\<lparr>wf_fin = (b0 AND 128 \<noteq> 0), wf_rsv = b0 AND 112, wf_opcode = unat (b0 AND 15),
                            wf_masked = masked,
                            wf_payload = (let p = take n (drop k r1) in if masked then unmask (take 4 r1) p else p)\<rparr>,
                           drop (k + n) r1)))
      | _ \<Rightarrow> None)"

fun read_frames_upto :: "nat \<Rightarrow> bytes \<Rightarrow> ws_frame list" where
  "read_frames_upto 0 bs = []"
| "read_frames_upto (Suc n) bs =
     (case read_frame bs of None \<Rightarrow> [] | Some (f, rest) \<Rightarrow> f # read_frames_upto n rest)"

text \<open>All frames of a stream; every frame takes at least two bytes.\<close>

definition read_frames :: "bytes \<Rightarrow> ws_frame list" where
  "read_frames bs = read_frames_upto (length bs) bs"

section \<open>Facts\<close>

lemma length_xor_mask [simp]: "length (xor_mask k d) = length d"
  by (simp add: xor_mask_def)

lemma length_mask_bytes [simp]: "length (mask_bytes k) = 4"
  by (cases k) simp

lemma length_be [simp]: "length (be n v) = n"
  by (induction n arbitrary: v) simp_all

lemma read_be_snoc: "read_be (bs @ [b]) = 256 * read_be bs + unat b"
  by (simp add: read_be_def)

lemma read_be_be: "v < 256 ^ n \<Longrightarrow> read_be (be n v) = v"
proof (induction n arbitrary: v)
  case (Suc n)
  then have "v div 256 < 256 ^ n" by (simp add: less_mult_imp_div_less mult.commute)
  with Suc.IH show ?case by (simp add: read_be_snoc unat_of_nat)
qed (simp add: read_be_def)

lemma and_3: "(i :: nat) AND 3 = i mod 4"
proof -
  have "(3 :: nat) = mask 2" by (simp add: mask_eq_exp_minus_1)
  then show ?thesis using take_bit_eq_mask [of 2 i] by (simp add: take_bit_eq_mod)
qed

lemma unmask_xor: "unmask (mask_bytes k) (xor_mask k d) = d"
  by (rule nth_equalityI) (simp_all add: unmask_def xor_mask_def and_3 xor.assoc)

text \<open>The bits of the first two bytes, by evaluation.\<close>

lemma second_byte_all:
  "list_all (\<lambda>n. (of_nat n OR 128 :: byte) AND 128 = 128 \<and> unat ((of_nat n OR 128 :: byte) AND 127) = n) [0..<128]"
  by code_simp

lemma first_byte_all:
  "list_all (\<lambda>n. (128 + of_nat n :: byte) AND 128 = 128 \<and> (128 + of_nat n :: byte) AND 112 = 0 \<and>
     unat ((128 + of_nat n :: byte) AND 15) = n) [0..<16]"
  by code_simp

lemma second_byte:
  assumes "n < 128"
  shows "(of_nat n OR 128 :: byte) AND 128 = 128" "unat ((of_nat n OR 128 :: byte) AND 127) = n"
  using all_upt [OF second_byte_all assms] by simp_all

lemma first_byte:
  assumes "n < 16"
  shows "(128 + of_nat n :: byte) AND 128 = 128" "(128 + of_nat n :: byte) AND 112 = 0"
    "unat ((128 + of_nat n :: byte) AND 15) = n"
  using all_upt [OF first_byte_all assms] by simp_all

lemma payload_length_small: "payload_length n < 128"
  by (simp add: payload_length_def)

lemma read_extended:
  assumes "n < 256 ^ 6"
  shows "read_length (payload_length n) (extended_length n @ rest) = Some (n, rest)"
proof -
  have z: "read_be ([0, 0] @ bs) = read_be bs" for bs by (simp add: read_be_def)
  consider "n \<le> 125" | "125 < n" "n \<le> 65535" | "65535 < n" by linarith
  then show ?thesis
  proof cases
    case 1
    then show ?thesis by (simp add: read_length_def payload_length_def extended_length_def maxUnsigned16Bit_def Let_def)
  next
    case 2
    with read_be_be [of n 2] show ?thesis
      by (simp add: read_length_def payload_length_def extended_length_def maxUnsigned16Bit_def Let_def)
  next
    case 3
    then have "payload_length n = 127" by (simp add: payload_length_def maxUnsigned16Bit_def)
    with read_be_be [OF assms] z [of "be 6 n"] show ?thesis
      by (simp add: read_length_def extended_length_def Let_def)
  qed
qed

lemma read_createFrame:
  assumes "opcode < 16" "length data < 256 ^ 6"
  shows "read_frame (createFrame k opcode data @ rest) =
    Some (\<lparr>wf_fin = True, wf_rsv = 0, wf_opcode = opcode, wf_masked = True, wf_payload = data\<rparr>, rest)"
  unfolding createFrame_def read_frame_def
  using read_extended [OF assms(2)] by (simp add: first_byte [OF assms(1)] second_byte payload_length_small unmask_xor Let_def)

lemma fast_frame:
  "fst (createFastTextFrame k data) @ snd (createFastTextFrame k data) = createFrame k TEXT data"
  by (simp add: createFastTextFrame_def createFrame_def TEXT_def)

section \<open>Properties\<close>

text \<open>
  The reader of the WebSocket standard reads a frame that \<open>createFrame\<close> writes back as one final,
  masked frame with the opcode and the data it was given, and leaves what follows, for data of every
  length a frame can have; the two parts that \<open>createFastTextFrame\<close> writes are the same frame.
\<close>

theorem frame_roundtrip:
  assumes "opcode < 16" "length data < 2 ^ 48"
  shows "read_frame (createFrame k opcode data @ rest) =
      Some (\<lparr>wf_fin = True, wf_rsv = 0, wf_opcode = opcode, wf_masked = True, wf_payload = data\<rparr>, rest) \<and>
    fst (createFastTextFrame k data) @ snd (createFastTextFrame k data) = createFrame k TEXT data"
  using read_createFrame [OF assms(1)] assms(2) by (simp add: fast_frame)

theorem frame_roundtrip_witness:
  "read_frame (createFrame (1, 2, 3, 4) TEXT [104, 105] @ [7]) =
     Some (\<lparr>wf_fin = True, wf_rsv = 0, wf_opcode = 1, wf_masked = True, wf_payload = [104, 105]\<rparr>, [7])"
  using frame_roundtrip [of TEXT "[104, 105]" "(1, 2, 3, 4)" "[7]"] by (simp add: TEXT_def)

end
