(* ===== verification/FixedQueue.thy ===== *)
theory FixedQueue
  imports Prelude "HOL-Library.Word"
begin

unbundle bit_operations_syntax

text \<open>
  \<open>undici/lib/dispatcher/fixed-queue.js\<close>: the queue behind undici's dispatchers and the WebSocket sender,
  a chain of circular buffers. The buffers are in an explicit store, in the order they were made;
  \<open>head\<close>, \<open>tail\<close> and \<open>next\<close> are positions in it, so that \<open>head\<close> and \<open>tail\<close> may be one buffer as in the
  code. An element of \<open>list\<close> is \<open>None\<close> where the code has \<open>undefined\<close>; no element pushed is
  \<open>undefined\<close>.

  The locale \<open>fifo\<close> is the contract of a queue; \<open>fixed\<close> interprets it on the model.
\<close>

section \<open>The circular buffer\<close>

definition kSize :: nat where "kSize = 2048"
definition kMask :: nat where "kMask = kSize - 1"

record 'a circular =
  cb_bottom :: nat
  cb_top :: nat
  cb_list :: "'a option list"
  cb_next :: "nat option"

definition new_circular :: "'a circular" where
  "new_circular = \<lparr>cb_bottom = 0, cb_top = 0, cb_list = replicate kSize None, cb_next = None\<rparr>"

definition cb_isEmpty :: "'a circular \<Rightarrow> bool" where
  "cb_isEmpty b \<longleftrightarrow> cb_top b = cb_bottom b"

definition cb_isFull :: "'a circular \<Rightarrow> bool" where
  "cb_isFull b \<longleftrightarrow> (cb_top b + 1) AND kMask = cb_bottom b"

definition cb_push :: "'a \<Rightarrow> 'a circular \<Rightarrow> 'a circular" where
  "cb_push data b = b\<lparr>cb_list := (cb_list b)[cb_top b := Some data], cb_top := (cb_top b + 1) AND kMask\<rparr>"

definition cb_shift :: "'a circular \<Rightarrow> 'a option \<times> 'a circular" where
  "cb_shift b =
     (case cb_list b ! cb_bottom b of
        None \<Rightarrow> (None, b)
      | Some nextItem \<Rightarrow>
          (Some nextItem,
           b\<lparr>cb_list := (cb_list b)[cb_bottom b := None], cb_bottom := (cb_bottom b + 1) AND kMask\<rparr>))"

section \<open>The queue\<close>

record 'a fixed_queue =
  fq_store :: "'a circular list"
  fq_head :: nat
  fq_tail :: nat

definition new_FixedQueue :: "'a fixed_queue" where
  "new_FixedQueue = \<lparr>fq_store = [new_circular], fq_head = 0, fq_tail = 0\<rparr>"

definition fq_isEmpty :: "'a fixed_queue \<Rightarrow> bool" where
  "fq_isEmpty q \<longleftrightarrow> cb_isEmpty (fq_store q ! fq_head q)"

definition fq_grow :: "'a fixed_queue \<Rightarrow> 'a fixed_queue" where
  "fq_grow q =
     (let n = length (fq_store q) in
      q\<lparr>fq_store := (fq_store q)[fq_head q := (fq_store q ! fq_head q)\<lparr>cb_next := Some n\<rparr>] @ [new_circular],
        fq_head := n\<rparr>)"

definition fq_push :: "'a \<Rightarrow> 'a fixed_queue \<Rightarrow> 'a fixed_queue" where
  "fq_push data q0 =
     (let q = (if cb_isFull (fq_store q0 ! fq_head q0) then fq_grow q0 else q0) in
      q\<lparr>fq_store := (fq_store q)[fq_head q := cb_push data (fq_store q ! fq_head q)]\<rparr>)"

definition fq_shift :: "'a fixed_queue \<Rightarrow> 'a option \<times> 'a fixed_queue" where
  "fq_shift q =
     (let (item, tail) = cb_shift (fq_store q ! fq_tail q) in
      case cb_next tail of
        Some n \<Rightarrow>
          if cb_isEmpty tail
          then (item, q\<lparr>fq_store := (fq_store q)[fq_tail q := tail\<lparr>cb_next := None\<rparr>], fq_tail := n\<rparr>)
          else (item, q\<lparr>fq_store := (fq_store q)[fq_tail q := tail]\<rparr>)
      | None \<Rightarrow> (item, q\<lparr>fq_store := (fq_store q)[fq_tail q := tail]\<rparr>))"

section \<open>The contract of a queue\<close>

datatype 'a queue_op = Enq 'a | Deq | IsEmpty

datatype 'a queue_answer = Done | Item "'a option" | Empty bool

fun run_queue :: "('a \<Rightarrow> 'q \<Rightarrow> 'q) \<Rightarrow> ('q \<Rightarrow> 'a option \<times> 'q) \<Rightarrow> ('q \<Rightarrow> bool) \<Rightarrow>
    'a queue_op list \<Rightarrow> 'q \<Rightarrow> 'a queue_answer list" where
  "run_queue enq deq emp [] q = []"
| "run_queue enq deq emp (Enq x # ops) q = Done # run_queue enq deq emp ops (enq x q)"
| "run_queue enq deq emp (Deq # ops) q = (case deq q of (r, q') \<Rightarrow> Item r # run_queue enq deq emp ops q')"
| "run_queue enq deq emp (IsEmpty # ops) q = Empty (emp q) # run_queue enq deq emp ops q"

text \<open>The abstract queue: a list.\<close>

definition list_enq :: "'a \<Rightarrow> 'a list \<Rightarrow> 'a list" where "list_enq x xs = xs @ [x]"

fun list_deq :: "'a list \<Rightarrow> 'a option \<times> 'a list" where
  "list_deq [] = (None, [])"
| "list_deq (x # xs) = (Some x, xs)"

locale fifo =
  fixes new :: 'q
    and enq :: "'a \<Rightarrow> 'q \<Rightarrow> 'q"
    and deq :: "'q \<Rightarrow> 'a option \<times> 'q"
    and emp :: "'q \<Rightarrow> bool"
    and rep :: "'q \<Rightarrow> 'a list \<Rightarrow> bool"
  assumes rep_new: "rep new []"
    and rep_enq: "rep q xs \<Longrightarrow> rep (enq x q) (xs @ [x])"
    and rep_deq: "rep q xs \<Longrightarrow> fst (deq q) = fst (list_deq xs) \<and> rep (snd (deq q)) (snd (list_deq xs))"
    and rep_emp: "rep q xs \<Longrightarrow> emp q \<longleftrightarrow> xs = []"
begin

lemma run_refines:
  "rep q xs \<Longrightarrow> run_queue enq deq emp ops q = run_queue list_enq list_deq (\<lambda>xs. xs = []) ops xs"
proof (induction ops arbitrary: q xs)
  case (Cons op ops)
  show ?case
  proof (cases op)
    case (Enq x)
    then show ?thesis using Cons.IH [OF rep_enq [OF Cons.prems]] by (simp add: list_enq_def)
  next
    case Deq
    then show ?thesis using rep_deq [OF Cons.prems] Cons.IH by (simp add: case_prod_beta)
  next
    case IsEmpty
    then show ?thesis using rep_emp [OF Cons.prems] Cons.IH [OF Cons.prems] by simp
  qed
qed simp

lemma deq_Nil: "rep q [] \<Longrightarrow> \<exists>q'. deq q = (None, q') \<and> rep q' []"
  using rep_deq [of q "[]"] by (cases "deq q") simp

lemma deq_Cons: "rep q (x # xs) \<Longrightarrow> \<exists>q'. deq q = (Some x, q') \<and> rep q' xs"
  using rep_deq [of q "x # xs"] by (cases "deq q") simp

end

section \<open>Facts on the buffer\<close>

lemma and_kMask: "x AND kMask = x mod kSize"
proof -
  have "kMask = mask 11" by (simp add: kMask_def kSize_def mask_eq_exp_minus_1)
  then show ?thesis using take_bit_eq_mask [of 11 x] by (simp add: kSize_def take_bit_eq_mod)
qed

lemma kSize_pos [simp]: "0 < kSize" "Suc 0 < kSize" "Suc 0 \<noteq> kSize" by (simp_all add: kSize_def)

text \<open>The buffer \<open>b\<close> holds the elements \<open>xs\<close>.\<close>

definition buffered :: "'a circular \<Rightarrow> 'a list \<Rightarrow> bool" where
  "buffered b xs \<longleftrightarrow> length xs < kSize \<and> length (cb_list b) = kSize \<and> cb_bottom b < kSize \<and>
     cb_top b = (cb_bottom b + length xs) mod kSize \<and>
     (\<forall>i<kSize. cb_list b ! ((cb_bottom b + i) mod kSize) = (if i < length xs then Some (xs ! i) else None))"

lemma mod_shift_inj: "(a + i) mod n = (a + j) mod n \<longleftrightarrow> i = j" if "i < n" "j < n" for a i j n :: nat
proof -
  have le: "i = j" if "i \<le> j" "j < n" "(a + i) mod n = (a + j) mod n" for i j
  proof -
    have "n dvd j - i" using that mod_eq_dvd_iff_nat [of "a + i" "a + j" n] by simp
    with that show ?thesis by (auto dest: dvd_imp_le)
  qed
  show ?thesis using le [of i j] le [of j i] that by (metis nat_le_linear)
qed

lemma buffered_new [simp]: "buffered new_circular []"
  by (simp add: buffered_def new_circular_def)

lemma new_circular_next [simp]: "cb_next new_circular = None"
  by (simp add: new_circular_def)

lemma buffered_isEmpty: "buffered b xs \<Longrightarrow> cb_isEmpty b \<longleftrightarrow> xs = []"
  using mod_shift_inj [of "length xs" kSize 0 "cb_bottom b"] by (simp add: buffered_def cb_isEmpty_def)

lemma buffered_isFull: "buffered b xs \<Longrightarrow> cb_isFull b \<longleftrightarrow> length xs + 1 = kSize"
proof -
  assume b: "buffered b xs"
  then have "cb_isFull b \<longleftrightarrow> (cb_bottom b + (length xs + 1)) mod kSize = (cb_bottom b + kSize) mod kSize"
    by (simp add: buffered_def cb_isFull_def and_kMask mod_simps add.assoc)
  also have "\<dots> \<longleftrightarrow> length xs + 1 = kSize"
    using b mod_shift_inj [of "length xs + 1" kSize 0 "cb_bottom b"]
    by (cases "length xs + 1 = kSize") (auto simp: buffered_def)
  finally show ?thesis .
qed

lemma buffered_push:
  assumes b: "buffered b xs" and room: "\<not> cb_isFull b"
  shows "buffered (cb_push x b) (xs @ [x])"
proof -
  have l: "length xs + 1 < kSize" using b buffered_isFull [OF b] room by (auto simp: buffered_def)
  have t: "cb_top b = (cb_bottom b + length xs) mod kSize" using b by (simp add: buffered_def)
  have "cb_list (cb_push x b) ! ((cb_bottom b + i) mod kSize) =
      (if i < length (xs @ [x]) then Some ((xs @ [x]) ! i) else None)" if "i < kSize" for i
    using b l that t mod_shift_inj [of i kSize "length xs" "cb_bottom b"]
    by (auto simp: buffered_def cb_push_def nth_list_update nth_append)
  with b l t show ?thesis by (simp add: buffered_def cb_push_def and_kMask mod_simps)
qed

lemma buffered_shift_Nil: "buffered b [] \<Longrightarrow> cb_shift b = (None, b)"
  by (auto simp: buffered_def cb_shift_def dest!: spec [of _ 0])

lemma buffered_shift_Cons:
  assumes b: "buffered b (x # xs)"
  shows "\<exists>b'. cb_shift b = (Some x, b') \<and> buffered b' xs \<and> cb_next b' = cb_next b"
proof -
  define b' where "b' = b\<lparr>cb_list := (cb_list b)[cb_bottom b := None], cb_bottom := (cb_bottom b + 1) AND kMask\<rparr>"
  have "cb_list b ! cb_bottom b = Some x"
    using b by (auto simp: buffered_def dest!: spec [of _ 0])
  then have "cb_shift b = (Some x, b')" by (simp add: cb_shift_def b'_def)
  moreover have "cb_list b' ! ((cb_bottom b' + i) mod kSize) = (if i < length xs then Some (xs ! i) else None)"
    if i: "i < kSize" for i
  proof (cases "Suc i = kSize")
    case True
    then have "Suc (cb_bottom b + i) = cb_bottom b + kSize" by simp
    then have "Suc (cb_bottom b + i) mod kSize = cb_bottom b"
      using b by (simp only: mod_add_self2) (simp add: buffered_def)
    then have "(cb_bottom b' + i) mod kSize = cb_bottom b"
      by (simp add: b'_def and_kMask mod_simps)
    with b True show ?thesis by (simp add: b'_def buffered_def)
  next
    case False
    have e: "(cb_bottom b' + i) mod kSize = (cb_bottom b + Suc i) mod kSize"
      by (simp add: b'_def and_kMask mod_simps)
    have "(cb_bottom b + Suc i) mod kSize \<noteq> cb_bottom b"
      using b False i mod_shift_inj [of "Suc i" kSize 0 "cb_bottom b"] by (simp add: buffered_def)
    moreover have "cb_list b ! ((cb_bottom b + Suc i) mod kSize) = (if i < length xs then Some (xs ! i) else None)"
      using b False i unfolding buffered_def by (metis Suc_less_eq Suc_lessI length_Cons nth_Cons_Suc)
    ultimately show ?thesis unfolding e by (simp add: b'_def)
  qed
  then have "buffered b' xs"
    using b by (simp add: buffered_def b'_def and_kMask mod_simps)
  ultimately show ?thesis by (auto simp: b'_def)
qed

section \<open>The queue refines a list\<close>

text \<open>The chain from \<open>tail\<close> to \<open>head\<close>; a chain of several buffers has no empty one.\<close>

definition chain :: "'a fixed_queue \<Rightarrow> 'a list list \<Rightarrow> bool" where
  "chain q xss \<longleftrightarrow> xss \<noteq> [] \<and> fq_tail q + length xss = length (fq_store q) \<and>
     Suc (fq_head q) = length (fq_store q) \<and>
     (\<forall>i<length xss. buffered (fq_store q ! (fq_tail q + i)) (xss ! i) \<and>
        cb_next (fq_store q ! (fq_tail q + i)) = (if Suc i < length xss then Some (fq_tail q + Suc i) else None)) \<and>
     (1 < length xss \<longrightarrow> [] \<notin> set xss)"

definition queued :: "'a fixed_queue \<Rightarrow> 'a list \<Rightarrow> bool" where
  "queued q xs \<longleftrightarrow> (\<exists>xss. chain q xss \<and> concat xss = xs)"

lemma chainD:
  assumes "chain q xss"
  shows "fq_tail q + length xss = length (fq_store q)" "Suc (fq_head q) = length (fq_store q)" "xss \<noteq> []"
    "i < length xss \<Longrightarrow> buffered (fq_store q ! (fq_tail q + i)) (xss ! i)"
    "i < length xss \<Longrightarrow> cb_next (fq_store q ! (fq_tail q + i)) = (if Suc i < length xss then Some (fq_tail q + Suc i) else None)"
    "1 < length xss \<Longrightarrow> [] \<notin> set xss"
  using assms by (simp_all add: chain_def)

lemma chain_head:
  assumes "chain q (yss @ [ys])"
  shows "fq_head q = fq_tail q + length yss" "fq_head q < length (fq_store q)"
    "buffered (fq_store q ! fq_head q) ys" "cb_next (fq_store q ! fq_head q) = None"
proof -
  show h: "fq_head q = fq_tail q + length yss" "fq_head q < length (fq_store q)"
    using chainD(1,2) [OF assms] by simp_all
  show "buffered (fq_store q ! fq_head q) ys" "cb_next (fq_store q ! fq_head q) = None"
    using chainD(4,5) [OF assms, of "length yss"] by (simp_all add: h)
qed

lemma buffered_next [simp]: "buffered (b\<lparr>cb_next := n\<rparr>) xs = buffered b xs"
  by (simp add: buffered_def)

lemma chain_push_room:
  assumes c: "chain q (yss @ [ys])" and room: "\<not> cb_isFull (fq_store q ! fq_head q)"
  shows "chain (fq_push x q) (yss @ [ys @ [x]])"
  using c chain_head [OF c] room buffered_push [OF chain_head(3) [OF c] room, of x]
  by (auto simp: chain_def fq_push_def nth_append nth_list_update cb_push_def less_Suc_eq)

text \<open>A full last buffer: a new one is linked behind it and gets the element.\<close>

lemma chain_push_full:
  assumes c: "chain q (yss @ [ys])" and full: "cb_isFull (fq_store q ! fq_head q)"
  shows "chain (fq_push x q) (yss @ [ys, [x]])"
proof -
  note h = chain_head [OF c]
  have "ys \<noteq> []" using buffered_isFull [OF h(3)] full by (auto simp: kSize_def)
  have new: "buffered (cb_push x new_circular) [x]" "cb_next (cb_push x new_circular) = None"
    using buffered_push [OF buffered_new, of x] buffered_isFull [OF buffered_new]
    by (simp_all add: cb_push_def)
  have st: "fq_store (fq_push x q) =
      (fq_store q)[fq_head q := (fq_store q ! fq_head q)\<lparr>cb_next := Some (length (fq_store q))\<rparr>] @ [cb_push x new_circular]"
    "fq_head (fq_push x q) = length (fq_store q)" "fq_tail (fq_push x q) = fq_tail q"
    using full by (simp_all add: fq_push_def fq_grow_def Let_def list_update_append nth_append)
  have len: "length (fq_store q) = fq_tail q + Suc (length yss)" using c by (simp add: chain_def)
  have "buffered (fq_store (fq_push x q) ! (fq_tail q + i)) ((yss @ [ys, [x]]) ! i) \<and>
      cb_next (fq_store (fq_push x q) ! (fq_tail q + i)) =
        (if Suc i < length yss + 2 then Some (fq_tail q + Suc i) else None)" if "i < length yss + 2" for i
  proof -
    consider "i < length yss" | "i = length yss" | "i = Suc (length yss)" using \<open>i < length yss + 2\<close> by linarith
    then show ?thesis
    proof cases
      case 1
      with chainD(4,5) [OF c, of i] h len show ?thesis by (simp add: st nth_append)
    next
      case 2
      with h len show ?thesis by (simp add: st nth_append)
    next
      case 3
      with new len show ?thesis by (simp add: st nth_append)
    qed
  qed
  with c \<open>ys \<noteq> []\<close> show ?thesis by (auto simp: chain_def st)
qed

lemma queued_push: "queued q xs \<Longrightarrow> queued (fq_push x q) (xs @ [x])"
proof -
  assume "queued q xs"
  then obtain xss where c: "chain q xss" and e: "concat xss = xs" by (auto simp: queued_def)
  moreover have "xss \<noteq> []" using c by (simp add: chain_def)
  then obtain yss ys where x: "xss = yss @ [ys]" by (metis append_butlast_last_id)
  ultimately show ?thesis
    using chain_push_full [of q yss ys x] chain_push_room [of q yss ys x] unfolding queued_def
    by (cases "cb_isFull (fq_store q ! fq_head q)") fastforce+
qed

lemma chain_tail:
  assumes "chain q (ys # yss)"
  shows "buffered (fq_store q ! fq_tail q) ys" "fq_tail q < length (fq_store q)"
    "cb_next (fq_store q ! fq_tail q) = (if yss = [] then None else Some (Suc (fq_tail q)))"
  using chainD(1,3) [OF assms] chainD(4,5) [OF assms, of 0] by simp_all

lemma chain_shift_stay:
  assumes c: "chain q ((x # ys) # yss)" and "ys \<noteq> [] \<or> yss = []"
  shows "\<exists>q'. fq_shift q = (Some x, q') \<and> chain q' (ys # yss)"
proof -
  note t = chain_tail [OF c]
  from buffered_shift_Cons [OF t(1)] obtain b where b: "cb_shift (fq_store q ! fq_tail q) = (Some x, b)"
    "buffered b ys" "cb_next b = cb_next (fq_store q ! fq_tail q)" by auto
  have "fq_shift q = (Some x, q\<lparr>fq_store := (fq_store q)[fq_tail q := b]\<rparr>)"
    using b t assms(2) buffered_isEmpty [OF b(2)] by (auto simp: fq_shift_def)
  moreover have "chain (q\<lparr>fq_store := (fq_store q)[fq_tail q := b]\<rparr>) (ys # yss)"
    unfolding chain_def using chainD(1,2,6) [OF c] chainD(4,5) [OF c, of "Suc i" for i] b t assms(2)
    by (auto simp: nth_list_update less_Suc_eq_0_disj)
  ultimately show ?thesis by blast
qed

lemma chain_shift_next:
  assumes c: "chain q ([x] # yss)" and "yss \<noteq> []"
  shows "\<exists>q'. fq_shift q = (Some x, q') \<and> chain q' yss"
proof -
  note t = chain_tail [OF c]
  from buffered_shift_Cons [OF t(1)] obtain b where b: "cb_shift (fq_store q ! fq_tail q) = (Some x, b)"
    "buffered b []" "cb_next b = cb_next (fq_store q ! fq_tail q)" by auto
  let ?q = "q\<lparr>fq_store := (fq_store q)[fq_tail q := b\<lparr>cb_next := None\<rparr>], fq_tail := Suc (fq_tail q)\<rparr>"
  have "fq_shift q = (Some x, ?q)"
    using b t assms(2) buffered_isEmpty [OF b(2)] by (simp add: fq_shift_def)
  moreover have "chain ?q yss"
    unfolding chain_def using chainD [OF c] chainD(4,5) [OF c, of "Suc i" for i] assms(2) by auto
  ultimately show ?thesis by blast
qed

lemma queued_shift:
  assumes "queued q xs"
  shows "fst (fq_shift q) = fst (list_deq xs) \<and> queued (snd (fq_shift q)) (snd (list_deq xs))"
proof -
  obtain zs yss where c: "chain q (zs # yss)" and xs: "xs = zs @ concat yss"
    using assms chainD(3) unfolding queued_def by (metis concat.simps(2) neq_Nil_conv)
  show ?thesis
  proof (cases zs)
    case Nil
    then have "yss = []" using chainD(6) [OF c] by auto
    with Nil xs c buffered_shift_Nil [of "fq_store q ! fq_tail q"] chain_tail [OF c] show ?thesis
      by (auto simp: fq_shift_def queued_def)
  next
    case (Cons x ys)
    with c xs chain_shift_stay [of q x ys yss] chain_shift_next [of q x yss] show ?thesis
      unfolding queued_def by (cases "ys = [] \<and> yss \<noteq> []") fastforce+
  qed
qed

lemma queued_isEmpty: "queued q xs \<Longrightarrow> fq_isEmpty q \<longleftrightarrow> xs = []"
proof -
  assume "queued q xs"
  then obtain yss ys where c: "chain q (yss @ [ys])" and xs: "xs = concat yss @ ys"
    using chainD(3) unfolding queued_def
    by (metis append_butlast_last_id concat.simps concat_append append_Nil2)
  have "ys = [] \<Longrightarrow> yss = []" using chainD(6) [OF c] by (cases yss) auto
  with xs buffered_isEmpty [OF chain_head(3) [OF c]] show ?thesis by (auto simp: fq_isEmpty_def)
qed

lemma queued_new: "queued new_FixedQueue []"
  unfolding queued_def by (rule exI [of _ "[[]]"]) (simp add: chain_def new_FixedQueue_def)

interpretation fixed: fifo new_FixedQueue fq_push fq_shift fq_isEmpty queued
  by unfold_locales (simp_all add: queued_new queued_push queued_shift queued_isEmpty)

section \<open>Property\<close>

text \<open>
  C28: \<open>FixedQueue\<close> is a queue: whatever elements are pushed and shifted in whatever order, across any
  number of full buffers, it answers every operation as a list does that takes at the end and gives
  from the front.
\<close>

theorem fixed_queue_refines_list:
  "run_queue fq_push fq_shift fq_isEmpty ops new_FixedQueue =
   run_queue list_enq list_deq (\<lambda>xs. xs = []) ops []"
  by (rule fixed.run_refines [OF queued_new])

end
