(* ===== verification/WsSender.thy ===== *)
theory WsSender
  imports WsFrame FixedQueue
begin

text \<open>
  \<open>undici/lib/web/websocket/sender.js\<close>: the queue that keeps messages in order while the bytes of a
  \<open>Blob\<close> are awaited. It is an event machine: \<open>Add\<close> is a call of \<open>add\<close>, \<open>Resolved\<close> and \<open>Rejected\<close>
  settle the promise of the \<open>j\<close>-th blob. Nodes are shared between the queue, the running loop and the
  promise, so they are in a store. A callback is the number of bytes it subtracts from
  \<open>bufferedAmount\<close>.

  \<open>send_queue_in_order\<close>: what the socket gets is, message by message, what was added, in the order
  it was added, up to the first blob whose bytes are not there.
\<close>

section \<open>The machine\<close>

datatype send_hint = HintText | HintTypedArray | HintArrayBuffer | HintBlob

datatype promise_state = Waiting | Settled | Broken

record send_node =
  nd_promise :: promise_state
  nd_callback :: "nat option"
  nd_frame :: "bytes option"

record send_queue =
  sq_nodes :: "send_node list"
  sq_thens :: "nat list"
  sq_queue :: "nat fixed_queue"
  sq_running :: bool
  sq_await :: "nat option"
  sq_socket :: "(bytes \<times> nat option) list"
  sq_pool :: mask_pool

definition new_SendQueue :: send_queue where
  "new_SendQueue = \<lparr>sq_nodes = [], sq_thens = [], sq_queue = new_FixedQueue, sq_running = False, sq_await = None,
     sq_socket = [], sq_pool = new_pool\<rparr>"

datatype send_event = Add send_hint bytes | Resolved nat bytes | Rejected nat


definition hint_opcode :: "send_hint \<Rightarrow> nat" where
  "hint_opcode hint = (if hint = HintText then TEXT else BINARY)"

text \<open>\<open>createFrame\<close> of the sender, with the pool of masks.\<close>

definition sender_frame :: "(nat \<Rightarrow> nat \<Rightarrow> byte) \<Rightarrow> send_hint \<Rightarrow> bytes \<Rightarrow> send_queue \<Rightarrow> bytes \<times> send_queue" where
  "sender_frame rnd hint data q =
     (let (k, pool) = generateMask rnd (sq_pool q) in
      (createFrame k (hint_opcode hint) data, q\<lparr>sq_pool := pool\<rparr>))"

definition socket_write :: "bytes \<Rightarrow> nat option \<Rightarrow> send_queue \<Rightarrow> send_queue" where
  "socket_write data cb q = q\<lparr>sq_socket := sq_socket q @ [(data, cb)]\<rparr>"

definition push_node :: "send_node \<Rightarrow> send_queue \<Rightarrow> send_queue" where
  "push_node node q = q\<lparr>sq_nodes := sq_nodes q @ [node], sq_queue := fq_push (length (sq_nodes q)) (sq_queue q)\<rparr>"

text \<open>The end of a turn of the loop: the frame is written and the node is emptied.\<close>

definition write_node :: "nat \<Rightarrow> send_queue \<Rightarrow> send_queue" where
  "write_node k q =
     (let node = sq_nodes q ! k in
      (socket_write (case nd_frame node of None \<Rightarrow> [] | Some f \<Rightarrow> f) (nd_callback node) q)
        \<lparr>sq_nodes := (sq_nodes q)[k := node\<lparr>nd_callback := None, nd_frame := None\<rparr>]\<rparr>)"

text \<open>
  The loop of \<open>#run\<close>, up to the next promise it has to wait for. A rejected promise ends it for good,
  with \<open>#running\<close> set. A node is taken at most once, so the number of nodes bounds the turns.
\<close>

primrec send_loop :: "nat \<Rightarrow> send_queue \<Rightarrow> send_queue" where
  "send_loop 0 q = q"
| "send_loop (Suc n) q =
     (if fq_isEmpty (sq_queue q) then q\<lparr>sq_running := False\<rparr>
      else (case fq_shift (sq_queue q) of
              (None, queue) \<Rightarrow> q\<lparr>sq_queue := queue\<rparr>
            | (Some k, queue) \<Rightarrow>
                (let q' = q\<lparr>sq_queue := queue\<rparr> in
                 case nd_promise (sq_nodes q' ! k) of
                   Waiting \<Rightarrow> q'\<lparr>sq_await := Some k\<rparr>
                 | Broken \<Rightarrow> q'
                 | Settled \<Rightarrow> send_loop n (write_node k q'))))"

definition send_run :: "send_queue \<Rightarrow> send_queue" where
  "send_run q = send_loop (Suc (length (sq_nodes q))) (q\<lparr>sq_running := True\<rparr>)"

definition send_add :: "(nat \<Rightarrow> nat \<Rightarrow> byte) \<Rightarrow> bytes \<Rightarrow> nat \<Rightarrow> send_hint \<Rightarrow> send_queue \<Rightarrow> send_queue" where
  "send_add rnd item cb hint q =
     (if hint \<noteq> HintBlob
      then if \<not> sq_running q
           then if hint = HintText
                then (let (k, pool) = generateMask rnd (sq_pool q); (head, body) = createFastTextFrame k item in
                      socket_write body (Some cb) (socket_write head None (q\<lparr>sq_pool := pool\<rparr>)))
                else (let (frame, q') = sender_frame rnd hint item q in socket_write frame (Some cb) q')
           else (let (frame, q') = sender_frame rnd hint item q in
                 push_node \<lparr>nd_promise = Settled, nd_callback = Some cb, nd_frame = Some frame\<rparr> q')
      else (let q' = push_node \<lparr>nd_promise = Waiting, nd_callback = Some cb, nd_frame = None\<rparr>
                  (q\<lparr>sq_thens := sq_thens q @ [length (sq_nodes q)]\<rparr>) in
            if \<not> sq_running q' then send_run q' else q'))"

text \<open>The promise of a blob is settled: first its own \<open>then\<close> runs, then the loop that awaits it.\<close>

definition send_resolved :: "(nat \<Rightarrow> nat \<Rightarrow> byte) \<Rightarrow> nat \<Rightarrow> bytes \<Rightarrow> send_queue \<Rightarrow> send_queue" where
  "send_resolved rnd j ab q =
     (if length (sq_thens q) \<le> j \<or> nd_promise (sq_nodes q ! (sq_thens q ! j)) \<noteq> Waiting then q
      else (let k = sq_thens q ! j; (frame, q1) = sender_frame rnd HintBlob ab q;
                q2 = q1\<lparr>sq_nodes := (sq_nodes q1)[k := (sq_nodes q1 ! k)\<lparr>nd_promise := Settled, nd_frame := Some frame\<rparr>]\<rparr> in
            if sq_await q2 = Some k
            then send_run (write_node k (q2\<lparr>sq_await := None\<rparr>))
            else q2))"

definition send_rejected :: "nat \<Rightarrow> send_queue \<Rightarrow> send_queue" where
  "send_rejected j q =
     (if length (sq_thens q) \<le> j \<or> nd_promise (sq_nodes q ! (sq_thens q ! j)) \<noteq> Waiting then q
      else (let k = sq_thens q ! j in
            q\<lparr>sq_nodes := (sq_nodes q)[k := (sq_nodes q ! k)\<lparr>nd_promise := Broken\<rparr>],
              sq_await := (if sq_await q = Some k then None else sq_await q)\<rparr>))"

fun send_step :: "(nat \<Rightarrow> nat \<Rightarrow> byte) \<Rightarrow> send_queue \<Rightarrow> send_event \<Rightarrow> send_queue" where
  "send_step rnd q (Add hint item) = send_add rnd item (length item) hint q"
| "send_step rnd q (Resolved j ab) = send_resolved rnd j ab q"
| "send_step rnd q (Rejected j) = send_rejected j q"

definition send_events :: "(nat \<Rightarrow> nat \<Rightarrow> byte) \<Rightarrow> send_event list \<Rightarrow> send_queue" where
  "send_events rnd es = foldl (send_step rnd) new_SendQueue es"

section \<open>What is to be sent\<close>

text \<open>
  The messages in the order of the calls. The bytes of a blob come later, or never.
\<close>

datatype send_slot = Ready nat bytes | Later | Failed

fun is_ready :: "send_slot \<Rightarrow> bool" where
  "is_ready (Ready opcode data) = True"
| "is_ready _ = False"

fun slot_message :: "send_slot \<Rightarrow> nat \<times> bytes" where
  "slot_message (Ready opcode data) = (opcode, data)"
| "slot_message _ = (0, [])"

definition fill_slot :: "nat \<Rightarrow> send_slot \<Rightarrow> send_slot list \<times> nat list \<Rightarrow> send_slot list \<times> nat list" where
  "fill_slot j s st =
     (case st of (slots, blobs) \<Rightarrow>
        if j < length blobs \<and> slots ! (blobs ! j) = Later then (slots[blobs ! j := s], blobs) else st)"

fun order_step :: "send_slot list \<times> nat list \<Rightarrow> send_event \<Rightarrow> send_slot list \<times> nat list" where
  "order_step (slots, blobs) (Add hint item) =
     (if hint = HintBlob then (slots @ [Later], blobs @ [length slots])
      else (slots @ [Ready (hint_opcode hint) item], blobs))"
| "order_step st (Resolved j ab) = fill_slot j (Ready BINARY ab) st"
| "order_step st (Rejected j) = fill_slot j Failed st"

definition ordered_messages :: "send_event list \<Rightarrow> (nat \<times> bytes) list" where
  "ordered_messages es = map slot_message (takeWhile is_ready (fst (foldl order_step ([], []) es)))"

section \<open>Invariant\<close>

fun node_matches :: "send_node \<Rightarrow> send_slot \<Rightarrow> bool" where
  "node_matches node (Ready opcode data) = (nd_promise node = Settled)"
| "node_matches node Later = (nd_promise node = Waiting)"
| "node_matches node Failed = (nd_promise node = Broken)"

definition holds_frame :: "send_node \<Rightarrow> send_slot \<Rightarrow> bool" where
  "holds_frame node s \<longleftrightarrow> (\<forall>opcode data. s = Ready opcode data \<longrightarrow>
     (\<exists>key. nd_frame node = Some (createFrame key opcode data)))"

lemma holds_frame_create: "nd_frame node = Some (createFrame key opcode data) \<Longrightarrow> holds_frame node (Ready opcode data)"
  unfolding holds_frame_def by blast

definition is_frame :: "bytes \<Rightarrow> send_slot \<Rightarrow> bool" where
  "is_frame f s \<longleftrightarrow> (\<exists>key opcode data. s = Ready opcode data \<and> f = createFrame key opcode data)"

lemma is_frame_create [simp]: "is_frame (createFrame key opcode data) (Ready opcode data)"
  unfolding is_frame_def by blast

definition written :: "bytes \<Rightarrow> send_slot list \<Rightarrow> bool" where
  "written bs slots \<longleftrightarrow> (\<exists>fs. bs = concat fs \<and> list_all2 is_frame fs slots)"

lemma written_Nil: "written [] []"
  unfolding written_def by (rule exI [of _ "[]"]) simp

lemma written_snoc: "written bs slots \<Longrightarrow> written (bs @ createFrame key opcode data) (slots @ [Ready opcode data])"
proof -
  assume "written bs slots"
  then obtain fs where fs: "bs = concat fs" "list_all2 is_frame fs slots" by (auto simp: written_def)
  show ?thesis
    unfolding written_def
    by (rule exI [of _ "fs @ [createFrame key opcode data]"]) (use fs in \<open>auto intro: list_all2_appendI\<close>)
qed

lemma written_ready: "written bs slots \<Longrightarrow> list_all is_ready slots"
  unfolding written_def by (auto simp: list_all_length list_all2_conv_all_nth is_frame_def)

text \<open>
  The first \<open>n\<close> slots are written. \<open>owner\<close> gives the node of a slot, \<open>current\<close> the nodes the loop has
  taken from the queue and not written.
\<close>

definition send_inv :: "send_queue \<Rightarrow> send_slot list \<Rightarrow> nat list \<Rightarrow> nat option list \<Rightarrow> nat \<Rightarrow> nat list \<Rightarrow> bool" where
  "send_inv q slots blobs owner n current \<longleftrightarrow>
     length owner = length slots \<and> n \<le> length slots \<and>
     written (concat (map fst (sq_socket q))) (take n slots) \<and>
     (\<forall>i<length slots. \<forall>j<length slots. \<forall>k. owner ! i = Some k \<longrightarrow> owner ! j = Some k \<longrightarrow> i = j) \<and>
     (\<forall>i<length slots. \<forall>k. owner ! i = Some k \<longrightarrow> k < length (sq_nodes q) \<and> node_matches (sq_nodes q ! k) (slots ! i)) \<and>
     (\<forall>i<length slots. \<forall>k. n \<le> i \<longrightarrow> owner ! i = Some k \<longrightarrow> holds_frame (sq_nodes q ! k) (slots ! i)) \<and>
     length (sq_thens q) = length blobs \<and>
     (\<forall>j<length blobs. blobs ! j < length slots \<and> owner ! (blobs ! j) = Some (sq_thens q ! j)) \<and>
     (\<exists>rest. queued (sq_queue q) rest \<and> drop n owner = map Some (current @ rest))"

lemma send_invD:
  assumes "send_inv q slots blobs owner n current"
  shows "length owner = length slots" "n \<le> length slots"
    "written (concat (map fst (sq_socket q))) (take n slots)"
    "i < length slots \<Longrightarrow> j < length slots \<Longrightarrow> owner ! i = Some k \<Longrightarrow> owner ! j = Some k \<Longrightarrow> i = j"
    "i < length slots \<Longrightarrow> owner ! i = Some k \<Longrightarrow> k < length (sq_nodes q)"
    "i < length slots \<Longrightarrow> owner ! i = Some k \<Longrightarrow> node_matches (sq_nodes q ! k) (slots ! i)"
    "i < length slots \<Longrightarrow> n \<le> i \<Longrightarrow> owner ! i = Some k \<Longrightarrow> holds_frame (sq_nodes q ! k) (slots ! i)"
    "length (sq_thens q) = length blobs"
    "j < length blobs \<Longrightarrow> blobs ! j < length slots" "j < length blobs \<Longrightarrow> owner ! (blobs ! j) = Some (sq_thens q ! j)"
    "\<exists>rest. queued (sq_queue q) rest \<and> drop n owner = map Some (current @ rest)"
  using assms unfolding send_inv_def by blast+

lemma send_inv_start: "send_inv (new_SendQueue) [] [] [] 0 []"
  by (auto simp: send_inv_def new_SendQueue_def written_Nil intro!: exI [of _ "[]"] queued_new)

text \<open>The first node that is not written is the owner of slot \<open>n\<close>.\<close>

lemma send_inv_first:
  assumes "send_inv q slots blobs owner n (k # ks)"
  shows "n < length slots" "owner ! n = Some k" "drop (Suc n) owner = tl (drop n owner)"
proof -
  from send_invD(11) [OF assms] obtain rest where r: "drop n owner = Some k # map Some (ks @ rest)" by auto
  then have "n < length owner" by (metis drop_all leI list.distinct(1))
  with r show "n < length slots" "owner ! n = Some k" "drop (Suc n) owner = tl (drop n owner)"
    using send_invD(1) [OF assms] by (auto simp: Cons_nth_drop_Suc [symmetric] drop_Suc tl_drop)
qed

lemma send_inv_frame:
  assumes "send_inv q slots blobs owner n current"
    and "sq_nodes q' = sq_nodes q" "sq_thens q' = sq_thens q" "sq_queue q' = sq_queue q" "sq_socket q' = sq_socket q"
  shows "send_inv q' slots blobs owner n current"
  using assms unfolding send_inv_def by simp

lemma send_inv_write:
  assumes inv: "send_inv q slots blobs owner n (k # ks)" and ready: "is_ready (slots ! n)"
  shows "send_inv (write_node k q) slots blobs owner (Suc n) ks"
proof -
  note d = send_invD [OF inv] and f = send_inv_first [OF inv]
  obtain opcode data where s: "slots ! n = Ready opcode data" using ready by (cases "slots ! n") auto
  obtain key where fr: "nd_frame (sq_nodes q ! k) = Some (createFrame key opcode data)"
    using d(7) [OF f(1) order_refl f(2)] s by (auto simp: holds_frame_def)
  have "written (concat (map fst (sq_socket (write_node k q)))) (take (Suc n) slots)"
    using written_snoc [OF d(3), of key opcode data] f(1) s
    by (simp add: write_node_def socket_write_def Let_def fr take_Suc_conv_app_nth)
  moreover have "node_matches (sq_nodes (write_node k q) ! k') s \<longleftrightarrow> node_matches (sq_nodes q ! k') s" for k' s
    using d(5) [OF f(1,2)] by (cases s; cases "k' = k") (simp_all add: write_node_def socket_write_def Let_def)
  moreover have "sq_nodes (write_node k q) ! k' = sq_nodes q ! k'" if "k' \<noteq> k" for k'
    using that by (simp add: write_node_def socket_write_def Let_def)
  moreover have "i \<noteq> n" if "owner ! i = Some k'" "k' \<noteq> k" for i k' using that f(2) by auto
  moreover have "k' \<noteq> k" if "i < length slots" "Suc n \<le> i" "owner ! i = Some k'" for i k'
    using that d(4) [OF that(1) f(1), of k'] f(2) by auto
  moreover have "sq_thens (write_node k q) = sq_thens q" "sq_queue (write_node k q) = sq_queue q"
    "length (sq_nodes (write_node k q)) = length (sq_nodes q)"
    by (simp_all add: write_node_def socket_write_def Let_def)
  ultimately show ?thesis
    unfolding send_inv_def using d f by (auto simp: f(3))
qed

lemma send_inv_shift:
  assumes inv: "send_inv q slots blobs owner n []" and ne: "\<not> fq_isEmpty (sq_queue q)"
  shows "\<exists>k queue. fq_shift (sq_queue q) = (Some k, queue) \<and> send_inv (q\<lparr>sq_queue := queue\<rparr>) slots blobs owner n [k]"
proof -
  from send_invD(11) [OF inv] obtain rest where r: "queued (sq_queue q) rest" "drop n owner = map Some rest" by auto
  with ne fixed.rep_emp [OF r(1)] obtain k ks where rest: "rest = k # ks" by (cases rest) auto
  with fixed.deq_Cons [of "sq_queue q" k ks] r obtain queue where "fq_shift (sq_queue q) = (Some k, queue)" "queued queue ks"
    by auto
  with inv r rest show ?thesis unfolding send_inv_def by auto
qed

lemma send_inv_empty:
  assumes inv: "send_inv q slots blobs owner n []" and "fq_isEmpty (sq_queue q)"
  shows "n = length slots"
  using send_invD(1,2,11) [OF inv] assms(2) fixed.rep_emp by fastforce

text \<open>A node is added for a new slot.\<close>

lemma send_inv_push:
  assumes inv: "send_inv q slots blobs owner n current" and "node_matches node s" "holds_frame node s"
  shows "send_inv (push_node node q) (slots @ [s]) blobs (owner @ [Some (length (sq_nodes q))]) n current"
proof -
  note d = send_invD [OF inv]
  from d(11) obtain rest where r: "queued (sq_queue q) rest" "drop n owner = map Some (current @ rest)" by auto
  have "queued (sq_queue (push_node node q)) (rest @ [length (sq_nodes q)])"
    using fixed.rep_enq [OF r(1)] by (simp add: push_node_def)
  moreover have "drop n (owner @ [Some (length (sq_nodes q))]) = map Some (current @ rest @ [length (sq_nodes q)])"
    using r(2) d(1,2) by simp
  moreover have "sq_socket (push_node node q) = sq_socket q" "sq_thens (push_node node q) = sq_thens q"
    "sq_nodes (push_node node q) = sq_nodes q @ [node]" by (simp_all add: push_node_def)
  moreover have "owner ! i \<noteq> Some (length (sq_nodes q))" if "i < length slots" for i
    using d(5) [OF that] by blast
  ultimately show ?thesis
    unfolding send_inv_def using d assms(2,3)
    by (auto simp: nth_append less_Suc_eq)
qed

text \<open>A message is written at once, when nothing is queued.\<close>

lemma send_inv_direct:
  assumes inv: "send_inv q slots blobs owner (length slots) []"
    and q': "sq_nodes q' = sq_nodes q" "sq_thens q' = sq_thens q" "sq_queue q' = sq_queue q"
      "concat (map fst (sq_socket q')) = concat (map fst (sq_socket q)) @ createFrame key opcode data"
  shows "send_inv q' (slots @ [Ready opcode data]) blobs (owner @ [None]) (length (slots @ [Ready opcode data])) []"
proof -
  note d = send_invD [OF inv]
  have "written (concat (map fst (sq_socket q'))) (slots @ [Ready opcode data])"
    using written_snoc [OF d(3), of key opcode data] by (simp add: q')
  then show ?thesis
    unfolding send_inv_def using d q'(1-3) by (auto simp: nth_append less_Suc_eq)
qed

text \<open>The promise of the blob in slot \<open>i\<close> is settled.\<close>

lemma send_inv_settle:
  assumes inv: "send_inv q slots blobs owner n current" and i: "i < length slots" "owner ! i = Some k" "slots ! i = Later"
    and node: "node_matches node s" "holds_frame node s"
    and q': "sq_nodes q' = (sq_nodes q)[k := node]" "sq_thens q' = sq_thens q" "sq_queue q' = sq_queue q"
      "sq_socket q' = sq_socket q"
  shows "send_inv q' (slots[i := s]) blobs owner n current"
proof -
  note d = send_invD [OF inv]
  have "n \<le> i"
  proof (rule ccontr)
    assume "\<not> n \<le> i"
    with i d(2) have "slots ! i \<in> set (take n slots)" by (metis in_set_conv_nth length_take min.absorb2 not_le nth_take)
    with written_ready [OF d(3)] i(3) show False by (auto simp: list_all_iff)
  qed
  moreover have "k' \<noteq> k" if "i' < length slots" "owner ! i' = Some k'" "i' \<noteq> i" for i' k'
    using d(4) [OF i(1) that(1) i(2)] that by auto
  ultimately show ?thesis
    unfolding send_inv_def using d i node by (auto simp: q' nth_list_update)
qed

text \<open>Between two events: the loop runs if and only if a slot is open, and the first open slot is not ready.\<close>

definition send_stable :: "send_queue \<Rightarrow> send_slot list \<Rightarrow> nat list \<Rightarrow> bool" where
  "send_stable q slots blobs \<longleftrightarrow> (\<exists>owner n current. send_inv q slots blobs owner n current \<and>
     (if n < length slots
      then sq_running q \<and> \<not> is_ready (slots ! n) \<and>
           (\<exists>k. current = [k] \<and> sq_await q = (if slots ! n = Later then Some k else None))
      else \<not> sq_running q \<and> current = [] \<and> sq_await q = None))"

lemma send_loop_stable:
  assumes "send_inv q slots blobs owner n []" "sq_running q" "sq_await q = None" "length slots - n < fuel"
  shows "send_stable (send_loop fuel q) slots blobs"
  using assms
proof (induction fuel arbitrary: q n)
  case (Suc fuel)
  show ?case
  proof (cases "fq_isEmpty (sq_queue q)")
    case True
    with send_inv_empty [OF Suc.prems(1)] have "n = length slots" by blast
    moreover have "send_inv (q\<lparr>sq_running := False\<rparr>) slots blobs owner n []"
      by (rule send_inv_frame [OF Suc.prems(1)]) simp_all
    ultimately show ?thesis using True Suc.prems(3) unfolding send_stable_def by auto
  next
    case False
    from send_inv_shift [OF Suc.prems(1) False] obtain k queue
      where k: "fq_shift (sq_queue q) = (Some k, queue)" and inv: "send_inv (q\<lparr>sq_queue := queue\<rparr>) slots blobs owner n [k]"
      by blast
    note f = send_inv_first [OF inv] and m = send_invD(6) [OF inv send_inv_first(1,2) [OF inv]]
    show ?thesis
    proof (cases "slots ! n")
      case (Ready opcode data)
      let ?q = "write_node k (q\<lparr>sq_queue := queue\<rparr>)"
      have "send_inv ?q slots blobs owner (Suc n) []" by (rule send_inv_write [OF inv]) (simp add: Ready)
      moreover have "sq_running ?q" "sq_await ?q = None"
        using Suc.prems(2,3) by (simp_all add: write_node_def socket_write_def Let_def)
      ultimately have "send_stable (send_loop fuel ?q) slots blobs" using Suc.IH Suc.prems(4) f(1) by simp
      with False k m Ready show ?thesis by (simp add: Let_def)
    next
      case Later
      have "send_inv (q\<lparr>sq_queue := queue, sq_await := Some k\<rparr>) slots blobs owner n [k]"
        by (rule send_inv_frame [OF inv]) simp_all
      with Later f(1) Suc.prems(2) have "send_stable (q\<lparr>sq_queue := queue, sq_await := Some k\<rparr>) slots blobs"
        unfolding send_stable_def by (intro exI [of _ owner] exI [of _ n] exI [of _ "[k]"]) simp
      with False k m Later show ?thesis by (simp add: Let_def)
    next
      case Failed
      with inv f(1) Suc.prems(2,3) have "send_stable (q\<lparr>sq_queue := queue\<rparr>) slots blobs"
        unfolding send_stable_def by (intro exI [of _ owner] exI [of _ n] exI [of _ "[k]"]) simp
      with False k m Failed show ?thesis by (simp add: Let_def)
    qed
  qed
qed simp

lemma open_slots_bound:
  assumes "send_inv q slots blobs owner n current"
  shows "length slots - n \<le> length (sq_nodes q)"
proof -
  note d = send_invD [OF assms]
  from d(11) obtain ids where ids: "drop n owner = map Some ids" by blast
  then have nth: "owner ! (n + i) = Some (ids ! i)" "n + i < length slots" if "i < length ids" for i
    using that d(1,2) by (metis nth_drop nth_map length_drop length_map add.commute less_diff_conv)+
  have "distinct ids"
    unfolding distinct_conv_nth using nth d(4) by (metis add_left_cancel)
  moreover have "set ids \<subseteq> {..<length (sq_nodes q)}"
    using nth d(5) by (fastforce simp: in_set_conv_nth)
  ultimately have "length ids \<le> length (sq_nodes q)"
    by (metis card_lessThan card_mono distinct_card finite_lessThan)
  then show ?thesis using d(1) ids by (metis length_drop length_map)
qed

lemma send_run_stable:
  assumes "send_inv q slots blobs owner n []" "sq_await q = None"
  shows "send_stable (send_run q) slots blobs"
  unfolding send_run_def
proof (rule send_loop_stable)
  show "send_inv (q\<lparr>sq_running := True\<rparr>) slots blobs owner n []" by (rule send_inv_frame [OF assms(1)]) simp_all
  show "length slots - n < Suc (length (sq_nodes q))" using open_slots_bound [OF assms(1)] by simp
qed (simp_all add: assms(2))

lemma send_inv_blob:
  assumes "send_inv q slots blobs owner n current"
    and q': "sq_nodes q' = sq_nodes q" "sq_thens q' = sq_thens q @ [k]" "sq_queue q' = sq_queue q" "sq_socket q' = sq_socket q"
    and "i < length slots" "owner ! i = Some k"
  shows "send_inv q' slots (blobs @ [i]) owner n current"
  using assms unfolding send_inv_def by (auto simp: nth_append less_Suc_eq)

lemma send_stable_cases:
  assumes "send_stable q slots blobs"
  obtains (idle) owner where "send_inv q slots blobs owner (length slots) []" "\<not> sq_running q" "sq_await q = None"
  | (busy) owner n k where "send_inv q slots blobs owner n [k]" "n < length slots" "sq_running q" "\<not> is_ready (slots ! n)"
      "sq_await q = (if slots ! n = Later then Some k else None)"
  using assms send_invD(2) unfolding send_stable_def by (metis le_antisym linorder_not_less)

lemma send_stable_idleI:
  "send_inv q slots blobs owner (length slots) [] \<Longrightarrow> \<not> sq_running q \<Longrightarrow> sq_await q = None \<Longrightarrow> send_stable q slots blobs"
  unfolding send_stable_def by (intro exI [of _ owner] exI [of _ "length slots"] exI [of _ "[]"]) simp

lemma send_stable_busyI:
  "send_inv q slots blobs owner n [k] \<Longrightarrow> n < length slots \<Longrightarrow> sq_running q \<Longrightarrow> \<not> is_ready (slots ! n) \<Longrightarrow>
   sq_await q = (if slots ! n = Later then Some k else None) \<Longrightarrow> send_stable q slots blobs"
  unfolding send_stable_def by (intro exI [of _ owner] exI [of _ n] exI [of _ "[k]"]) simp

lemma sender_frame_simps:
  obtains key pool where "sender_frame rnd hint data q = (createFrame key (hint_opcode hint) data, q\<lparr>sq_pool := pool\<rparr>)"
  by (cases "generateMask rnd (sq_pool q)") (simp add: sender_frame_def)

lemma push_busy:
  assumes "send_inv q slots blobs owner n [k]" "n < length slots" "sq_running q" "\<not> is_ready (slots ! n)"
    "sq_await q = (if slots ! n = Later then Some k else None)" "node_matches node s" "holds_frame node s"
  shows "send_stable (push_node node q) (slots @ [s]) blobs"
  by (rule send_stable_busyI [OF send_inv_push [OF assms(1,6,7)]])
    (use assms(2-5) in \<open>simp_all add: push_node_def nth_append\<close>)

lemma send_add_message:
  assumes st: "send_stable q slots blobs" and hint: "hint \<noteq> HintBlob"
  shows "send_stable (send_add rnd item cb hint q) (slots @ [Ready (hint_opcode hint) item]) blobs"
  using st
proof (cases rule: send_stable_cases)
  case (idle owner)
  show ?thesis
  proof (cases "hint = HintText")
    case True
    obtain key pool where m: "generateMask rnd (sq_pool q) = (key, pool)" by (cases "generateMask rnd (sq_pool q)")
    obtain head body where fb: "createFastTextFrame key item = (head, body)" by (cases "createFastTextFrame key item")
    have "head @ body = createFrame key TEXT item" using fast_frame [of key item] fb by simp
    with True idle m fb show ?thesis
      by (intro send_stable_idleI [OF send_inv_direct [OF idle(1)]])
        (simp_all add: send_add_def socket_write_def hint_opcode_def)
  next
    case False
    obtain key pool where fr: "sender_frame rnd hint item q = (createFrame key (hint_opcode hint) item, q\<lparr>sq_pool := pool\<rparr>)"
      by (rule sender_frame_simps)
    with False hint idle show ?thesis
      by (intro send_stable_idleI [OF send_inv_direct [OF idle(1)]]) (simp_all add: send_add_def socket_write_def)
  qed
next
  case (busy owner n k)
  obtain key pool where fr: "sender_frame rnd hint item q = (createFrame key (hint_opcode hint) item, q\<lparr>sq_pool := pool\<rparr>)"
    by (rule sender_frame_simps)
  have "send_inv (q\<lparr>sq_pool := pool\<rparr>) slots blobs owner n [k]" by (rule send_inv_frame [OF busy(1)]) simp_all
  from push_busy [OF this busy(2)] busy hint fr show ?thesis
    by (simp add: send_add_def holds_frame_create)
qed

lemma send_add_blob:
  assumes st: "send_stable q slots blobs"
  shows "send_stable (send_add rnd item cb HintBlob q) (slots @ [Later]) (blobs @ [length slots])"
proof -
  let ?node = "\<lparr>nd_promise = Waiting, nd_callback = Some cb, nd_frame = None\<rparr>"
  let ?q = "push_node ?node (q\<lparr>sq_thens := sq_thens q @ [length (sq_nodes q)]\<rparr>)"
  have inv: "send_inv ?q (slots @ [Later]) (blobs @ [length slots]) (owner @ [Some (length (sq_nodes q))]) n current"
    if "send_inv q slots blobs owner n current" for owner n current
    by (rule send_inv_blob [OF send_inv_push [OF that, of ?node Later]])
      (use send_invD(1) [OF that] in \<open>simp_all add: push_node_def holds_frame_def nth_append\<close>)
  from st show ?thesis
  proof (cases rule: send_stable_cases)
    case (idle owner)
    with send_run_stable [OF inv [OF idle(1)]] show ?thesis by (simp add: send_add_def push_node_def)
  next
    case (busy owner n k)
    then have e: "send_add rnd item cb HintBlob q = ?q" by (simp add: send_add_def push_node_def)
    show ?thesis unfolding e
      by (rule send_stable_busyI [OF inv [OF busy(1)]]) (use busy in \<open>simp_all add: push_node_def nth_append\<close>)
  qed
qed

text \<open>Settling the \<open>j\<close>-th promise fills the \<open>j\<close>-th blob slot.\<close>

lemma blob_slot:
  assumes "send_stable q slots blobs"
  shows "length (sq_thens q) = length blobs"
    "j < length blobs \<Longrightarrow> nd_promise (sq_nodes q ! (sq_thens q ! j)) = Waiting \<longleftrightarrow> slots ! (blobs ! j) = Later"
proof -
  from assms obtain owner n current where inv: "send_inv q slots blobs owner n current" unfolding send_stable_def by blast
  note d = send_invD [OF inv]
  show "length (sq_thens q) = length blobs" by (rule d(8))
  assume "j < length blobs"
  from d(6) [OF d(9,10) [OF this]]
  show "nd_promise (sq_nodes q ! (sq_thens q ! j)) = Waiting \<longleftrightarrow> slots ! (blobs ! j) = Later"
    by (cases "slots ! (blobs ! j)") auto
qed

lemma send_settled:
  assumes st: "send_stable q slots blobs" and j: "j < length blobs" "slots ! (blobs ! j) = Later"
    and node: "node_matches node s" "holds_frame node s"
    and q': "sq_nodes q' = (sq_nodes q)[sq_thens q ! j := node]" "sq_thens q' = sq_thens q"
      "sq_queue q' = sq_queue q" "sq_socket q' = sq_socket q" "sq_running q' = sq_running q"
  shows "sq_await q \<noteq> Some (sq_thens q ! j) \<Longrightarrow> sq_await q' = sq_await q \<Longrightarrow> send_stable q' (slots[blobs ! j := s]) blobs"
    "sq_await q = Some (sq_thens q ! j) \<Longrightarrow>
       \<exists>owner. send_inv q' (slots[blobs ! j := s]) blobs owner (blobs ! j) [sq_thens q ! j] \<and> sq_running q \<and> blobs ! j < length slots"
proof -
  let ?k = "sq_thens q ! j" and ?i = "blobs ! j"
  have settle: "send_inv q' (slots[?i := s]) blobs owner n current \<and> ?i < length slots \<and> owner ! ?i = Some ?k"
    if "send_inv q slots blobs owner n current" for owner n current
    using send_inv_settle [OF that send_invD(9,10) [OF that j(1)] j(2) node q'(1-4)] send_invD(9,10) [OF that j(1)] by blast
  show "send_stable q' (slots[?i := s]) blobs" if a: "sq_await q \<noteq> Some ?k" "sq_await q' = sq_await q"
    using st
  proof (cases rule: send_stable_cases)
    case (idle owner)
    with settle [OF idle(1)] a q' show ?thesis by (intro send_stable_idleI [of _ _ _ owner]) simp_all
  next
    case (busy owner n k)
    have "n \<noteq> ?i" using a busy(5) j(2) send_inv_first(2) [OF busy(1)] settle [OF busy(1)] by (auto split: if_splits)
    with settle [OF busy(1)] a q' busy show ?thesis by (intro send_stable_busyI [of _ _ _ owner n k]) simp_all
  qed
  show "\<exists>owner. send_inv q' (slots[?i := s]) blobs owner ?i [?k] \<and> sq_running q \<and> ?i < length slots" if a: "sq_await q = Some ?k"
    using st
  proof (cases rule: send_stable_cases)
    case (busy owner n k)
    then have "k = ?k" using a by (simp split: if_splits)
    moreover have "n = ?i"
      using send_invD(4) [OF busy(1) busy(2)] send_inv_first(2) [OF busy(1)] settle [OF busy(1)] \<open>k = ?k\<close> by blast
    ultimately show ?thesis using settle [OF busy(1)] busy(3) by blast
  qed (use a in simp)
qed

lemma send_resolved_stable:
  assumes st: "send_stable q slots blobs"
  shows "case fill_slot j (Ready BINARY ab) (slots, blobs) of (slots', blobs') \<Rightarrow> send_stable (send_resolved rnd j ab q) slots' blobs'"
proof (cases "j < length blobs \<and> slots ! (blobs ! j) = Later")
  case True
  then have j: "j < length blobs" "slots ! (blobs ! j) = Later" by simp_all
  let ?k = "sq_thens q ! j"
  obtain key pool where fr: "sender_frame rnd HintBlob ab q = (createFrame key (hint_opcode HintBlob) ab, q\<lparr>sq_pool := pool\<rparr>)"
    by (rule sender_frame_simps)
  let ?node = "(sq_nodes q ! ?k)\<lparr>nd_promise := Settled, nd_frame := Some (createFrame key BINARY ab)\<rparr>"
  let ?q = "q\<lparr>sq_pool := pool, sq_nodes := (sq_nodes q)[?k := ?node]\<rparr>"
  have node: "node_matches ?node (Ready BINARY ab)" "holds_frame ?node (Ready BINARY ab)"
    by (simp_all add: holds_frame_create)
  have e: "send_resolved rnd j ab q = (if sq_await q = Some ?k then send_run (write_node ?k (?q\<lparr>sq_await := None\<rparr>)) else ?q)"
    using blob_slot [OF st] j fr by (simp add: send_resolved_def hint_opcode_def Let_def)
  show ?thesis
  proof (cases "sq_await q = Some ?k")
    case aw: True
    from send_settled(2) [OF st j node, of "?q\<lparr>sq_await := None\<rparr>"] aw obtain owner
      where inv: "send_inv (?q\<lparr>sq_await := None\<rparr>) (slots[blobs ! j := Ready BINARY ab]) blobs owner (blobs ! j) [?k]"
        "blobs ! j < length slots" by auto
    from send_inv_write [OF inv(1)] inv(2)
    have "send_inv (write_node ?k (?q\<lparr>sq_await := None\<rparr>)) (slots[blobs ! j := Ready BINARY ab]) blobs owner (Suc (blobs ! j)) []"
      by simp
    from send_run_stable [OF this] aw True show ?thesis
      by (simp add: e fill_slot_def write_node_def socket_write_def Let_def)
  next
    case False
    with send_settled(1) [OF st j node, of ?q] True show ?thesis by (simp add: e fill_slot_def)
  qed
next
  case False
  with blob_slot [OF st] st show ?thesis by (auto simp: send_resolved_def fill_slot_def not_le)
qed

lemma send_rejected_stable:
  assumes st: "send_stable q slots blobs"
  shows "case fill_slot j Failed (slots, blobs) of (slots', blobs') \<Rightarrow> send_stable (send_rejected j q) slots' blobs'"
proof (cases "j < length blobs \<and> slots ! (blobs ! j) = Later")
  case True
  then have j: "j < length blobs" "slots ! (blobs ! j) = Later" by simp_all
  let ?k = "sq_thens q ! j"
  let ?node = "(sq_nodes q ! ?k)\<lparr>nd_promise := Broken\<rparr>"
  let ?q = "q\<lparr>sq_nodes := (sq_nodes q)[?k := ?node], sq_await := (if sq_await q = Some ?k then None else sq_await q)\<rparr>"
  have node: "node_matches ?node Failed" "holds_frame ?node Failed" by (simp_all add: holds_frame_def)
  have e: "send_rejected j q = ?q" using blob_slot [OF st] j by (simp add: send_rejected_def Let_def)
  show ?thesis
  proof (cases "sq_await q = Some ?k")
    case aw: True
    from send_settled(2) [OF st j node, of ?q] aw obtain owner
      where "send_inv ?q (slots[blobs ! j := Failed]) blobs owner (blobs ! j) [?k]" "sq_running q" "blobs ! j < length slots"
      by auto
    then have "send_stable ?q (slots[blobs ! j := Failed]) blobs"
      by (elim send_stable_busyI) (simp_all add: aw)
    with True show ?thesis by (simp add: e fill_slot_def)
  next
    case False
    with send_settled(1) [OF st j node, of ?q] True show ?thesis by (simp add: e fill_slot_def)
  qed
next
  case False
  with blob_slot [OF st] st show ?thesis by (auto simp: send_rejected_def fill_slot_def not_le)
qed

lemma send_step_stable:
  assumes "send_stable q slots blobs"
  shows "case order_step (slots, blobs) e of (slots', blobs') \<Rightarrow> send_stable (send_step rnd q e) slots' blobs'"
proof (cases e)
  case (Add hint item)
  with send_add_message [OF assms] send_add_blob [OF assms] show ?thesis by (cases "hint = HintBlob") auto
next
  case (Resolved j ab)
  with send_resolved_stable [OF assms] show ?thesis by (simp only: order_step.simps send_step.simps)
next
  case (Rejected j)
  with send_rejected_stable [OF assms] show ?thesis by (simp only: order_step.simps send_step.simps)
qed

lemma send_events_stable:
  "case foldl order_step ([], []) es of (slots, blobs) \<Rightarrow> send_stable (send_events rnd es) slots blobs"
proof (induction es rule: rev_induct)
  case Nil
  have "send_stable new_SendQueue [] []"
    by (rule send_stable_idleI [of _ _ _ "[]"]) (simp_all add: send_inv_start, simp_all add: new_SendQueue_def)
  then show ?case by (simp add: send_events_def)
next
  case (snoc e es)
  then show ?case
    using send_step_stable by (fastforce simp: send_events_def split: prod.splits)
qed

text \<open>What has been written is exactly the ready slots in front of the first open one.\<close>

lemma send_stable_written:
  assumes "send_stable q slots blobs"
  shows "written (concat (map fst (sq_socket q))) (takeWhile is_ready slots)"
proof -
  have "takeWhile is_ready slots = take n slots"
    if "written bs (take n slots)" "n < length slots \<Longrightarrow> \<not> is_ready (slots ! n)" for bs n
    using written_ready [OF that(1)] that(2)
    by (cases "n < length slots") (simp_all add: takeWhile_eq_take_P_nth list_all_length, simp add: all_set_conv_all_nth)
  with assms show ?thesis using send_invD(3) unfolding send_stable_def by metis
qed

text \<open>The reader of the standard over a stream of frames.\<close>

definition frame_messages :: "bytes \<Rightarrow> (nat \<times> bytes) list" where
  "frame_messages bs = map (\<lambda>f. (wf_opcode f, wf_payload f)) (read_frames bs)"

lemma read_frames_written:
  assumes "list_all2 is_frame fs slots" "list_all (\<lambda>s. fst (slot_message s) < 16 \<and> length (snd (slot_message s)) < 2 ^ 48) slots"
    "length fs \<le> n"
  shows "map (\<lambda>f. (wf_opcode f, wf_payload f)) (read_frames_upto n (concat fs)) = map slot_message slots"
  using assms
proof (induction fs slots arbitrary: n rule: list_all2_induct)
  case Nil
  show ?case by (cases n) (simp_all add: read_frame_def)
next
  case (Cons f fs s slots)
  then obtain m key opcode data where s: "n = Suc m" "s = Ready opcode data" "f = createFrame key opcode data"
    by (cases n) (auto simp: is_frame_def)
  with Cons read_createFrame [of opcode data key "concat fs"] show ?case by simp
qed

lemma frame_length: "is_frame f s \<Longrightarrow> 2 \<le> length f"
  by (auto simp: is_frame_def createFrame_def)

lemma written_messages:
  assumes "written bs slots" "list_all (\<lambda>s. fst (slot_message s) < 16 \<and> length (snd (slot_message s)) < 2 ^ 48) slots"
  shows "frame_messages bs = map slot_message slots"
proof -
  from assms(1) obtain fs where fs: "bs = concat fs" "list_all2 is_frame fs slots" by (auto simp: written_def)
  have "list_all2 is_frame fs slots \<Longrightarrow> length fs \<le> length (concat fs)"
    by (induction fs slots rule: list_all2_induct) (auto dest: frame_length)
  with fs read_frames_written [OF fs(2) assms(2)] show ?thesis by (simp add: frame_messages_def read_frames_def)
qed

text \<open>Data of a length that a frame can have.\<close>

fun frame_sized :: "send_event \<Rightarrow> bool" where
  "frame_sized (Add hint item) = (length item < 2 ^ 48)"
| "frame_sized (Resolved j ab) = (length ab < 2 ^ 48)"
| "frame_sized (Rejected j) = True"

lemma order_sized:
  "list_all frame_sized es \<Longrightarrow>
   list_all (\<lambda>s. fst (slot_message s) < 16 \<and> length (snd (slot_message s)) < 2 ^ 48) (fst (foldl order_step ([], []) es))"
proof (induction es rule: rev_induct)
  case (snoc e es)
  obtain slots blobs where st: "foldl order_step ([], []) es = (slots, blobs)" by (cases "foldl order_step ([], []) es")
  with snoc have ok: "list_all (\<lambda>s. fst (slot_message s) < 16 \<and> length (snd (slot_message s)) < 2 ^ 48) slots" by simp
  have put: "list_all P (xs[i := x])" if "list_all P xs" "P x" for P i and x :: send_slot and xs
    using that set_update_subset_insert [of xs i x] by (auto simp: list_all_iff)
  have fill: "list_all P (fst (fill_slot j s (slots, blobs)))" if "list_all P slots" "P s" for P j s
    using put [OF that] that by (simp add: fill_slot_def)
  show ?case
  proof (cases e)
    case (Add hint item)
    with ok snoc.prems st show ?thesis by (simp add: hint_opcode_def opcode_defs)
  next
    case (Resolved j ab)
    with fill [OF ok, of "Ready BINARY ab"] snoc.prems st show ?thesis by (simp add: opcode_defs)
  next
    case (Rejected j)
    with fill [OF ok, of Failed] st show ?thesis by simp
  qed
qed simp

section \<open>Property\<close>

text \<open>
  C20: whatever is sent while the bytes of blobs are awaited, and in whatever order these arrive or
  fail, the reader of the standard finds on the socket exactly the messages that were sent, complete
  and in the order of the calls, up to the first blob whose bytes are not there.
\<close>

theorem send_queue_in_order:
  assumes "list_all frame_sized es"
  shows "frame_messages (concat (map fst (sq_socket (send_events rnd es)))) = ordered_messages es"
proof -
  obtain slots blobs where st: "foldl order_step ([], []) es = (slots, blobs)" by (cases "foldl order_step ([], []) es")
  have "send_stable (send_events rnd es) slots blobs" using send_events_stable [where es = es and rnd = rnd] st by simp
  from written_messages [OF send_stable_written [OF this]] order_sized [OF assms] st
  show ?thesis unfolding ordered_messages_def by (auto simp: list_all_iff dest: set_takeWhileD)
qed

theorem send_queue_in_order_witness:
  "ordered_messages [Add HintText [104], Add HintBlob [1, 2], Add HintText [105], Resolved 0 [1, 2]] =
     [(1, [104]), (2, [1, 2]), (1, [105])] \<and>
   frame_messages (concat (map fst (sq_socket (send_events (\<lambda>n i. of_nat i)
     [Add HintText [104], Add HintBlob [1, 2], Add HintText [105], Resolved 0 [1, 2]])))) =
     [(1, [104]), (2, [1, 2]), (1, [105])]"
proof -
  let ?es = "[Add HintText [104], Add HintBlob [1, 2], Add HintText [105], Resolved 0 [1, 2]]"
  have o: "ordered_messages ?es = [(1, [104]), (2, [1, 2]), (1, [105])]" by code_simp
  moreover have "list_all frame_sized ?es" by simp
  ultimately show ?thesis using send_queue_in_order [where es = ?es and rnd = "\<lambda>n i. of_nat i"] by simp
qed

end
