(* ===== verification/WsReceiver.thy ===== *)
theory WsReceiver
  imports WsFrame
begin

unbundle bit_operations_syntax

text \<open>
  \<open>undici/lib/web/websocket/receiver.js\<close>, \<open>permessage-deflate.js\<close>, the closing half of \<open>connection.js\<close>
  and the handler of \<open>websocket.js\<close>: what a WebSocket does with the bytes of the server.

  The parser is a state machine over the chunks it has been given. \<open>ws_step\<close> is one turn of its loop,
  \<open>ws_run\<close> the loop, \<open>ws_feed\<close> a chunk that arrives. A \<open>return\<close> that does not call the stream's
  callback leaves the parser waiting for ever; a destroyed socket delivers no more chunks.

  Parameters are zlib (\<open>cf_inflate\<close>: the output for the last of the chunks given to one inflater, or its
  error), the decoder of UTF-8 and the random source. Listeners do not call back into the socket.
\<close>

section \<open>Handler and connection\<close>

datatype socket_state = NoSocket | Live | Destroyed

datatype ws_event =
    OpenEvent
  | TextMessage string
  | BinaryMessage bytes
  | PingReceived bytes
  | PongReceived bytes
  | ErrorEvent string
  | CloseEvent bool nat string

record ws_handler =
  hd_readyState :: ready_state
  hd_sent :: bool
  hd_received :: bool
  hd_socket :: socket_state
  hd_aborted :: bool
  hd_writes :: "bytes list"
  hd_pool :: mask_pool
  hd_events :: "ws_event list"

record close_info =
  ci_code :: "nat option"
  ci_reason :: string
  ci_error :: bool

record ws_config =
  cf_extensions :: "(string \<times> string) list"
  cf_maxFragments :: nat
  cf_maxPayloadSize :: nat
  cf_inflate :: "(bytes \<times> bool) list \<Rightarrow> string + bytes"
  cf_utf8 :: "bytes \<Rightarrow> string option"
  cf_rnd :: "nat \<Rightarrow> nat \<Rightarrow> byte"

definition fire :: "ws_event \<Rightarrow> ws_handler \<Rightarrow> ws_handler" where
  "fire e h = h\<lparr>hd_events := hd_events h @ [e]\<rparr>"

definition write_frame :: "ws_config \<Rightarrow> nat \<Rightarrow> bytes \<Rightarrow> ws_handler \<Rightarrow> ws_handler" where
  "write_frame cf opcode data h =
     (let (k, pool) = generateMask (cf_rnd cf) (hd_pool h) in
      h\<lparr>hd_pool := pool, hd_writes := hd_writes h @ [createFrame k opcode data]\<rparr>)"

definition onSocketClose :: "close_info option \<Rightarrow> ws_handler \<Rightarrow> ws_handler" where
  "onSocketClose result h =
     (let wasClean = (hd_sent h \<and> hd_received h);
          code = (case result of Some r \<Rightarrow> if ci_error r then 1005 else (case ci_code r of Some c \<Rightarrow> c | None \<Rightarrow> 1005) | None \<Rightarrow> 1005);
          reason = (case result of Some r \<Rightarrow> if ci_error r then [] else ci_reason r | None \<Rightarrow> []);
          h1 = h\<lparr>hd_readyState := CLOSED\<rparr> in
      if \<not> hd_received h then fire (CloseEvent wasClean 1006 reason) (fire (ErrorEvent reason) h1)
      else fire (CloseEvent wasClean code reason) h1)"

definition utf8_bytes :: "string \<Rightarrow> bytes" where
  "utf8_bytes s = concat (map utf8_char s)"

definition validateCloseCodeAndReason :: "nat option \<Rightarrow> string \<Rightarrow> string option" where
  "validateCloseCodeAndReason code reason =
     (if (case code of None \<Rightarrow> False | Some c \<Rightarrow> c \<noteq> 1000 \<and> (c < 3000 \<or> c > 4999)) then Some ''InvalidAccessError''
      else if length (utf8_bytes reason) > 123 then Some ''SyntaxError''
      else None)"

text \<open>The branch of \<open>closeWebSocketConnection\<close> for an open connection.\<close>

definition send_close :: "ws_config \<Rightarrow> nat option \<Rightarrow> string \<Rightarrow> ws_handler \<Rightarrow> ws_handler" where
  "send_close cf code0 reason h =
     (if \<not> hd_sent h \<and> \<not> hd_received h
      then (let code = (if reason \<noteq> [] \<and> code0 = None then Some 1000 else code0);
                data = (case code of None \<Rightarrow> [] | Some c \<Rightarrow> be 2 c @ utf8_bytes reason) in
            (write_frame cf CLOSE data h)\<lparr>hd_sent := True, hd_readyState := CLOSING\<rparr>)
      else h\<lparr>hd_readyState := CLOSING\<rparr>)"

definition failWebsocketConnection :: "ws_config \<Rightarrow> nat option \<Rightarrow> string \<Rightarrow> ws_handler \<Rightarrow> ws_handler" where
  "failWebsocketConnection cf code reason h0 =
     (let h1 = (if hd_readyState h0 = OPEN then send_close cf code reason h0 else h0);
          h = h1\<lparr>hd_aborted := True\<rparr> in
      if hd_readyState h = CONNECTING then onSocketClose None h
      else if hd_socket h = Live then h\<lparr>hd_socket := Destroyed\<rparr>
      else h)"

text \<open>Without the validation, which only \<open>close\<close> asks for and which changes nothing.\<close>

definition closeWebSocketConnection :: "ws_config \<Rightarrow> nat option \<Rightarrow> string \<Rightarrow> ws_handler \<Rightarrow> ws_handler" where
  "closeWebSocketConnection cf code reason h =
     (if hd_readyState h = CLOSED \<or> hd_readyState h = CLOSING then h
      else if hd_readyState h \<noteq> OPEN then (failWebsocketConnection cf None [] h)\<lparr>hd_readyState := CLOSING\<rparr>
      else send_close cf code reason h)"

definition ws_close :: "ws_config \<Rightarrow> nat option \<Rightarrow> string \<Rightarrow> ws_handler \<Rightarrow> string option \<times> ws_handler" where
  "ws_close cf code reason h =
     (case validateCloseCodeAndReason code reason of
        Some e \<Rightarrow> (Some e, h)
      | None \<Rightarrow> (None, closeWebSocketConnection cf code reason h))"

definition onMessage :: "ws_config \<Rightarrow> nat \<Rightarrow> bytes \<Rightarrow> ws_handler \<Rightarrow> ws_handler" where
  "onMessage cf opcode data h =
     (if hd_readyState h \<noteq> OPEN then h
      else if opcode = TEXT
      then (case cf_utf8 cf data of
              None \<Rightarrow> failWebsocketConnection cf (Some 1007) ''Received invalid UTF-8 in text frame.'' h
            | Some s \<Rightarrow> fire (TextMessage s) h)
      else fire (BinaryMessage data) h)"

section \<open>The parser\<close>

datatype parser_state = INFO | PAYLOADLENGTH_16 | PAYLOADLENGTH_64 | READ_DATA

record ws_info =
  in_payloadLength :: nat
  in_opcode :: nat
  in_masked :: bool
  in_fin :: bool
  in_fragmented :: bool
  in_binaryType :: nat
  in_compressed :: bool
  in_closeInfo :: "close_info option"

record byte_parser =
  bp_buffers :: "bytes list"
  bp_byteOffset :: nat
  bp_loop :: bool
  bp_state :: parser_state
  bp_info :: ws_info
  bp_fragments :: "bytes list"
  bp_fragmentsBytes :: nat
  bp_inflated :: "(bytes \<times> bool) list"
  bp_waiting :: bool

definition new_ByteParser :: byte_parser where
  "new_ByteParser =
     \<lparr>bp_buffers = [], bp_byteOffset = 0, bp_loop = False, bp_state = INFO,
      bp_info = \<lparr>in_payloadLength = 0, in_opcode = 0, in_masked = False, in_fin = False, in_fragmented = False,
                 in_binaryType = 0, in_compressed = False, in_closeInfo = None\<rparr>,
      bp_fragments = [], bp_fragmentsBytes = 0, bp_inflated = [], bp_waiting = False\<rparr>"

type_synonym ws_conn = "byte_parser \<times> ws_handler"

fun take_bytes :: "nat \<Rightarrow> bytes list \<Rightarrow> bytes \<times> bytes list" where
  "take_bytes n [] = ([], [])"
| "take_bytes n (first # rest) =
     (if length first > n then (take n first, drop n first # rest)
      else if length first = n then (first, rest)
      else (let (more, rest') = take_bytes (n - length first) rest in (first @ more, rest')))"

text \<open>\<open>consume\<close> is only called with at least \<open>n\<close> bytes at hand.\<close>

definition consume :: "nat \<Rightarrow> byte_parser \<Rightarrow> bytes \<times> byte_parser" where
  "consume n p =
     (if n = 0 then ([], p)
      else (let (bs, rest) = take_bytes n (bp_buffers p) in
            (bs, p\<lparr>bp_byteOffset := bp_byteOffset p - n, bp_buffers := rest\<rparr>)))"

definition payload_fits :: "ws_config \<Rightarrow> byte_parser \<Rightarrow> bool" where
  "payload_fits cf p \<longleftrightarrow>
     \<not> (cf_maxPayloadSize cf > 0 \<and> \<not> isControlFrame (in_opcode (bp_info p)) \<and>
        in_payloadLength (bp_info p) + bp_fragmentsBytes p > cf_maxPayloadSize cf)"

definition writeFragments :: "ws_config \<Rightarrow> bytes \<Rightarrow> byte_parser \<Rightarrow> byte_parser option" where
  "writeFragments cf fragment p =
     (if cf_maxFragments cf > 0 \<and> length (bp_fragments p) = cf_maxFragments cf then None
      else Some (p\<lparr>bp_fragmentsBytes := bp_fragmentsBytes p + length fragment, bp_fragments := bp_fragments p @ [fragment]\<rparr>))"

definition consumeFragments :: "byte_parser \<Rightarrow> bytes \<times> byte_parser" where
  "consumeFragments p = (concat (bp_fragments p), p\<lparr>bp_fragments := [], bp_fragmentsBytes := 0\<rparr>)"

definition parseCloseBody :: "ws_config \<Rightarrow> bytes \<Rightarrow> close_info" where
  "parseCloseBody cf data =
     (let code = (if length data \<ge> 2 then Some (read_be (take 2 data)) else None) in
      if (case code of None \<Rightarrow> False | Some c \<Rightarrow> \<not> isValidStatusCode c)
      then \<lparr>ci_code = Some 1002, ci_reason = ''Invalid status code'', ci_error = True\<rparr>
      else (let reason = drop 2 data;
                reason' = (if take 3 reason = [239, 187, 191] then drop 3 reason else reason) in
            case cf_utf8 cf reason' of
              None \<Rightarrow> \<lparr>ci_code = Some 1007, ci_reason = ''Invalid UTF-8'', ci_error = True\<rparr>
            | Some s \<Rightarrow> \<lparr>ci_code = code, ci_reason = s, ci_error = False\<rparr>))"

definition set_closeInfo :: "close_info \<Rightarrow> byte_parser \<Rightarrow> byte_parser" where
  "set_closeInfo ci p = p\<lparr>bp_info := (bp_info p)\<lparr>in_closeInfo := Some ci\<rparr>\<rparr>"

definition parseControlFrame :: "ws_config \<Rightarrow> bytes \<Rightarrow> ws_conn \<Rightarrow> bool \<times> ws_conn" where
  "parseControlFrame cf body st =
     (let (p, h) = st; opcode = in_opcode (bp_info p) in
      if opcode = CLOSE
      then if in_payloadLength (bp_info p) = 1
           then (False, p, failWebsocketConnection cf (Some 1002) ''Received close frame with a 1-byte body.'' h)
           else (let ci = parseCloseBody cf body; p1 = set_closeInfo ci p in
                 if ci_error ci then (False, p1, failWebsocketConnection cf (ci_code ci) (ci_reason ci) h)
                 else (let h1 = (if \<not> hd_sent h \<and> \<not> hd_received h
                                 then (write_frame cf CLOSE (case ci_code ci of None \<Rightarrow> [] | Some c \<Rightarrow> be 2 c) h)\<lparr>hd_sent := True\<rparr>
                                 else h) in
                       (False, p1, h1\<lparr>hd_readyState := CLOSING, hd_received := True\<rparr>)))
      else if opcode = PING
      then (True, p, if \<not> hd_received h then fire (PingReceived body) (write_frame cf PONG body h) else h)
      else if opcode = PONG then (True, p, fire (PongReceived body) h)
      else (True, p, h))"

text \<open>One turn of the loop, behind its call of \<open>consume\<close>: go on, wait for bytes, or stop, with or without calling the callback.\<close>

datatype 's outcome = Continue 's | NeedMore | Stop bool 's

definition fail_stop :: "ws_config \<Rightarrow> bool \<Rightarrow> nat \<Rightarrow> string \<Rightarrow> ws_conn \<Rightarrow> ws_conn outcome" where
  "fail_stop cf called code reason st = Stop called (fst st, failWebsocketConnection cf (Some code) reason (snd st))"

text \<open>The payload length is known: on to the data, unless the message gets too long.\<close>

definition to_data :: "ws_config \<Rightarrow> ws_conn \<Rightarrow> ws_conn outcome" where
  "to_data cf st =
     (if payload_fits cf (fst st) then Continue st
      else fail_stop cf False 1009 ''Payload size exceeds maximum allowed size'' st)"

definition info_step :: "ws_config \<Rightarrow> bytes \<Rightarrow> ws_conn \<Rightarrow> ws_conn outcome" where
  "info_step cf buffer st =
     (let (p, h) = st; info = bp_info p;
          b0 = buffer ! 0; b1 = buffer ! 1;
          fin = (b0 AND 128 \<noteq> 0);
          opcode = unat (b0 AND 15);
          masked = (b1 AND 128 = 128);
          fragmented = (\<not> fin \<and> opcode \<noteq> CONTINUATION);
          payloadLength = unat (b1 AND 127);
          rsv1 = b0 AND 64; rsv2 = b0 AND 32; rsv3 = b0 AND 16 in
      if \<not> isValidOpcode opcode then fail_stop cf True 1002 ''Invalid opcode received'' st
      else if masked then fail_stop cf True 1002 ''Frame cannot be masked'' st
      else if rsv1 \<noteq> 0 \<and> map_of (cf_extensions cf) ''permessage-deflate'' = None
      then fail_stop cf False 1002 ''Expected RSV1 to be clear.'' st
      else if rsv2 \<noteq> 0 \<or> rsv3 \<noteq> 0 then fail_stop cf False 1002 ''RSV1, RSV2, RSV3 must be clear'' st
      else if fragmented \<and> \<not> isTextBinaryFrame opcode
      then fail_stop cf False 1002 ''Invalid frame type was fragmented.'' st
      else if isTextBinaryFrame opcode \<and> length (bp_fragments p) > 0
      then fail_stop cf False 1002 ''Expected continuation frame'' st
      else if in_fragmented info \<and> fragmented
      then fail_stop cf False 1002 ''Fragmented frame exceeded 125 bytes.'' st
      else if (payloadLength > 125 \<or> fragmented) \<and> isControlFrame opcode
      then fail_stop cf False 1002 ''Control frame either too large or fragmented'' st
      else if isContinuationFrame opcode \<and> length (bp_fragments p) = 0 \<and> \<not> in_compressed info
      then fail_stop cf False 1002 ''Unexpected continuation frame'' st
      else
        (let info1 = (if isTextBinaryFrame opcode then info\<lparr>in_binaryType := opcode, in_compressed := (rsv1 \<noteq> 0)\<rparr> else info);
             info2 = info1\<lparr>in_opcode := opcode, in_masked := masked, in_fin := fin, in_fragmented := fragmented\<rparr> in
         if payloadLength \<le> 125
         then (let p1 = p\<lparr>bp_info := info\<lparr>in_payloadLength := payloadLength\<rparr>, bp_state := READ_DATA\<rparr> in
               if payload_fits cf p1
               then Continue (p1\<lparr>bp_info := info2\<lparr>in_payloadLength := payloadLength\<rparr>\<rparr>, h)
               else fail_stop cf False 1009 ''Payload size exceeds maximum allowed size'' (p1, h))
         else if payloadLength = 126 then Continue (p\<lparr>bp_info := info2, bp_state := PAYLOADLENGTH_16\<rparr>, h)
         else Continue (p\<lparr>bp_info := info2, bp_state := PAYLOADLENGTH_64\<rparr>, h)))"

definition length16_step :: "ws_config \<Rightarrow> bytes \<Rightarrow> ws_conn \<Rightarrow> ws_conn outcome" where
  "length16_step cf buffer st =
     (let (p, h) = st in
      to_data cf (p\<lparr>bp_info := (bp_info p)\<lparr>in_payloadLength := read_be buffer\<rparr>, bp_state := READ_DATA\<rparr>, h))"

definition length64_step :: "ws_config \<Rightarrow> bytes \<Rightarrow> ws_conn \<Rightarrow> ws_conn outcome" where
  "length64_step cf buffer st =
     (let (p, h) = st; upper = read_be (take 4 buffer); lower = read_be (drop 4 buffer) in
      if upper \<noteq> 0 \<or> lower > 2 ^ 31 - 1
      then fail_stop cf False 1009 ''Received payload length > 2^31 bytes.'' (p, h)
      else to_data cf (p\<lparr>bp_info := (bp_info p)\<lparr>in_payloadLength := lower\<rparr>, bp_state := READ_DATA\<rparr>, h))"

text \<open>A finished message goes to the handler.\<close>

definition deliver_message :: "ws_config \<Rightarrow> ws_conn \<Rightarrow> ws_conn" where
  "deliver_message cf st =
     (let (data, p) = consumeFragments (fst st) in (p, onMessage cf (in_binaryType (bp_info p)) data (snd st)))"

text \<open>
  \<open>PerMessageDeflate.decompress\<close>: the code and the message of an error, or the inflated data; and the
  chunks the inflater has seen. An inflater that failed is dropped.
\<close>

definition invalid_window :: "ws_config \<Rightarrow> bool" where
  "invalid_window cf \<longleftrightarrow>
     (case map_of (cf_extensions cf) ''server_max_window_bits'' of
        None \<Rightarrow> False | Some bits \<Rightarrow> bits \<noteq> [] \<and> \<not> isValidClientWindowBits bits)"

definition decompress :: "ws_config \<Rightarrow> bytes \<Rightarrow> bool \<Rightarrow> (bytes \<times> bool) list \<Rightarrow> (nat \<times> string + bytes) \<times> (bytes \<times> bool) list" where
  "decompress cf chunk fin seen =
     (if seen = [] \<and> invalid_window cf then (Inl (1007, ''Invalid server_max_window_bits''), [])
      else (case cf_inflate cf (seen @ [(chunk, fin)]) of
              Inl msg \<Rightarrow> (Inl (1007, msg), [])
            | Inr out \<Rightarrow>
                if cf_maxPayloadSize cf > 0 \<and> length out > cf_maxPayloadSize cf
                then (Inl (1009, ''Max decompressed message size exceeded''), [])
                else (Inr out, seen @ [(chunk, fin)])))"

text \<open>The data of a frame of a compressed message, with the callback that \<open>decompress\<close> calls.\<close>

definition inflate_step :: "ws_config \<Rightarrow> bytes \<Rightarrow> ws_conn \<Rightarrow> ws_conn outcome" where
  "inflate_step cf body st =
     (let (p, h) = st; (result, seen) = decompress cf body (in_fin (bp_info p)) (bp_inflated p);
          p1 = p\<lparr>bp_inflated := seen\<rparr> in
      case result of
        Inl (code, msg) \<Rightarrow> fail_stop cf False code msg (p1, h)
      | Inr data \<Rightarrow>
          (case writeFragments cf data p1 of
             None \<Rightarrow> fail_stop cf False 1008 ''Too many message fragments'' (p1, h)
           | Some p2 \<Rightarrow>
               if cf_maxPayloadSize cf > 0 \<and> bp_fragmentsBytes p2 > cf_maxPayloadSize cf
               then fail_stop cf False 1009 ''Max decompressed message size exceeded'' (p2, h)
               else (let (p3, h3) = (if in_fin (bp_info p2) then deliver_message cf (p2, h) else (p2, h)) in
                     Continue (p3\<lparr>bp_state := INFO\<rparr>, h3))))"

definition data_step :: "ws_config \<Rightarrow> bytes \<Rightarrow> ws_conn \<Rightarrow> ws_conn outcome" where
  "data_step cf body st =
     (let (p, h) = st in
      if isControlFrame (in_opcode (bp_info p))
      then (let (go, p1, h1) = parseControlFrame cf body (p, h) in
            Continue (p1\<lparr>bp_loop := go, bp_state := INFO\<rparr>, h1))
      else if \<not> in_compressed (bp_info p)
      then (case writeFragments cf body p of
              None \<Rightarrow> fail_stop cf False 1008 ''Too many message fragments'' (p, h)
            | Some p1 \<Rightarrow>
                (let (p2, h2) = (if \<not> in_fragmented (bp_info p1) \<and> in_fin (bp_info p1)
                                 then deliver_message cf (p1, h) else (p1, h)) in
                 Continue (p2\<lparr>bp_state := INFO\<rparr>, h2)))
      else inflate_step cf body (p, h))"

text \<open>The bytes a turn needs.\<close>

definition needed :: "byte_parser \<Rightarrow> nat" where
  "needed p =
     (case bp_state p of INFO \<Rightarrow> 2 | PAYLOADLENGTH_16 \<Rightarrow> 2 | PAYLOADLENGTH_64 \<Rightarrow> 8
        | READ_DATA \<Rightarrow> in_payloadLength (bp_info p))"

definition ws_step :: "ws_config \<Rightarrow> ws_conn \<Rightarrow> ws_conn outcome" where
  "ws_step cf st =
     (if bp_byteOffset (fst st) < needed (fst st) then NeedMore
      else (let (buffer, p) = consume (needed (fst st)) (fst st) in
            case bp_state p of
              INFO \<Rightarrow> info_step cf buffer (p, snd st)
            | PAYLOADLENGTH_16 \<Rightarrow> length16_step cf buffer (p, snd st)
            | PAYLOADLENGTH_64 \<Rightarrow> length64_step cf buffer (p, snd st)
            | READ_DATA \<Rightarrow> data_step cf buffer (p, snd st)))"

section \<open>The loop ends\<close>

text \<open>A turn does not look at the bytes that are left: it commutes with replacing them.\<close>

definition rebuf :: "bytes list \<Rightarrow> nat \<Rightarrow> byte_parser \<Rightarrow> byte_parser" where
  "rebuf b k p = p\<lparr>bp_buffers := b, bp_byteOffset := k\<rparr>"

fun map_conn :: "(byte_parser \<Rightarrow> byte_parser) \<Rightarrow> ws_conn outcome \<Rightarrow> ws_conn outcome" where
  "map_conn f (Continue (p, h)) = Continue (f p, h)"
| "map_conn f NeedMore = NeedMore"
| "map_conn f (Stop c (p, h)) = Stop c (f p, h)"

lemma rebuf_simps [simp]:
  "bp_buffers (rebuf b k p) = b" "bp_byteOffset (rebuf b k p) = k" "bp_loop (rebuf b k p) = bp_loop p"
  "bp_state (rebuf b k p) = bp_state p" "bp_info (rebuf b k p) = bp_info p" "bp_fragments (rebuf b k p) = bp_fragments p"
  "bp_fragmentsBytes (rebuf b k p) = bp_fragmentsBytes p" "bp_inflated (rebuf b k p) = bp_inflated p"
  "bp_waiting (rebuf b k p) = bp_waiting p" "rebuf b k (rebuf b' k' p) = rebuf b k p"
  "rebuf (bp_buffers p) (bp_byteOffset p) p = p"
  by (simp_all add: rebuf_def)

lemma rebuf_updates:
  "rebuf b k p\<lparr>bp_loop := x1\<rparr> = rebuf b k (p\<lparr>bp_loop := x1\<rparr>)"
  "rebuf b k p\<lparr>bp_state := x2\<rparr> = rebuf b k (p\<lparr>bp_state := x2\<rparr>)"
  "rebuf b k p\<lparr>bp_info := x3\<rparr> = rebuf b k (p\<lparr>bp_info := x3\<rparr>)"
  "rebuf b k p\<lparr>bp_fragments := x4\<rparr> = rebuf b k (p\<lparr>bp_fragments := x4\<rparr>)"
  "rebuf b k p\<lparr>bp_fragmentsBytes := x5\<rparr> = rebuf b k (p\<lparr>bp_fragmentsBytes := x5\<rparr>)"
  "rebuf b k p\<lparr>bp_inflated := x6\<rparr> = rebuf b k (p\<lparr>bp_inflated := x6\<rparr>)"
  "rebuf b k p\<lparr>bp_waiting := x7\<rparr> = rebuf b k (p\<lparr>bp_waiting := x7\<rparr>)"
  by (simp_all add: rebuf_def)

lemma map_conn_fail [simp]: "map_conn f (fail_stop cf c code r (p, h)) = fail_stop cf c code r (f p, h)"
  by (simp add: fail_stop_def)

lemma payload_fits_rebuf [simp]: "payload_fits cf (rebuf b k p) = payload_fits cf p"
  by (simp add: payload_fits_def)

lemma to_data_rebuf: "to_data cf (rebuf b k p, h) = map_conn (rebuf b k) (to_data cf (p, h))"
  by (simp add: to_data_def)

lemma info_step_rebuf: "info_step cf buffer (rebuf b k p, h) = map_conn (rebuf b k) (info_step cf buffer (p, h))"
  unfolding info_step_def Let_def case_prod_conv rebuf_simps rebuf_updates payload_fits_rebuf
  by (simp only: if_distrib [of "map_conn (rebuf b k)"] map_conn_fail map_conn.simps)

lemma length_step_rebuf:
  "length16_step cf buffer (rebuf b k p, h) = map_conn (rebuf b k) (length16_step cf buffer (p, h))"
  "length64_step cf buffer (rebuf b k p, h) = map_conn (rebuf b k) (length64_step cf buffer (p, h))"
  by (simp_all add: length16_step_def length64_step_def Let_def rebuf_updates to_data_rebuf)

lemma deliver_rebuf:
  "deliver_message cf (rebuf b k p, h) = (rebuf b k (fst (deliver_message cf (p, h))), snd (deliver_message cf (p, h)))"
  by (simp add: deliver_message_def consumeFragments_def rebuf_updates)

lemma writeFragments_rebuf: "writeFragments cf f (rebuf b k p) = map_option (rebuf b k) (writeFragments cf f p)"
  by (simp add: writeFragments_def rebuf_updates)

lemma parseControlFrame_rebuf:
  "parseControlFrame cf body (rebuf b k p, h) =
     (case parseControlFrame cf body (p, h) of (go, p', h') \<Rightarrow> (go, rebuf b k p', h'))"
  by (simp add: parseControlFrame_def Let_def set_closeInfo_def rebuf_updates)

lemma inflate_step_rebuf: "inflate_step cf body (rebuf b k p, h) = map_conn (rebuf b k) (inflate_step cf body (p, h))"
  by (simp add: inflate_step_def Let_def rebuf_updates writeFragments_rebuf deliver_rebuf case_prod_beta
      split: sum.split option.split)

lemma data_step_rebuf: "data_step cf body (rebuf b k p, h) = map_conn (rebuf b k) (data_step cf body (p, h))"
  by (simp add: data_step_def Let_def parseControlFrame_rebuf rebuf_updates writeFragments_rebuf deliver_rebuf
      inflate_step_rebuf case_prod_beta split: option.split)

definition turn :: "ws_config \<Rightarrow> bytes \<Rightarrow> ws_conn \<Rightarrow> ws_conn outcome" where
  "turn cf buffer st =
     (case bp_state (fst st) of
        INFO \<Rightarrow> info_step cf buffer st
      | PAYLOADLENGTH_16 \<Rightarrow> length16_step cf buffer st
      | PAYLOADLENGTH_64 \<Rightarrow> length64_step cf buffer st
      | READ_DATA \<Rightarrow> data_step cf buffer st)"

lemma turn_rebuf: "turn cf buffer (rebuf b k p, h) = map_conn (rebuf b k) (turn cf buffer (p, h))"
  by (simp add: turn_def info_step_rebuf length_step_rebuf data_step_rebuf split: parser_state.split)

lemma ws_step_turn:
  "ws_step cf st =
     (if bp_byteOffset (fst st) < needed (fst st) then NeedMore
      else turn cf (fst (consume (needed (fst st)) (fst st))) (snd (consume (needed (fst st)) (fst st)), snd st))"
  by (simp add: ws_step_def turn_def case_prod_beta Let_def)

lemma turn_keeps_bytes:
  "turn cf buffer (p, h) = Continue (p', h') \<Longrightarrow> bp_buffers p' = bp_buffers p \<and> bp_byteOffset p' = bp_byteOffset p"
  "turn cf buffer (p, h) = Stop c (p', h') \<Longrightarrow> bp_buffers p' = bp_buffers p \<and> bp_byteOffset p' = bp_byteOffset p"
  using turn_rebuf [of cf buffer "bp_buffers p" "bp_byteOffset p" p h] by (simp; metis rebuf_simps(1,2))+

lemma turn_reads_data:
  "bp_state p = READ_DATA \<Longrightarrow> turn cf buffer (p, h) = Continue (p', h') \<Longrightarrow> bp_state p' = INFO"
  by (auto simp: turn_def data_step_def inflate_step_def fail_stop_def Let_def case_prod_beta
      split: option.splits sum.splits if_splits)

lemma consume_keeps [simp]:
  "bp_info (snd (consume n p)) = bp_info p" "bp_state (snd (consume n p)) = bp_state p"
  "bp_loop (snd (consume n p)) = bp_loop p" "bp_fragments (snd (consume n p)) = bp_fragments p"
  "bp_fragmentsBytes (snd (consume n p)) = bp_fragmentsBytes p" "bp_inflated (snd (consume n p)) = bp_inflated p"
  "bp_waiting (snd (consume n p)) = bp_waiting p" "bp_byteOffset (snd (consume n p)) = bp_byteOffset p - n"
  by (simp_all add: consume_def case_prod_beta Let_def)

definition parser_weight :: "byte_parser \<Rightarrow> nat" where
  "parser_weight p = 2 * bp_byteOffset p + (if bp_state p = READ_DATA then 1 else 0)"

lemma ws_step_weight: "ws_step cf st = Continue st' \<Longrightarrow> parser_weight (fst st') < parser_weight (fst st)"
proof -
  assume s: "ws_step cf st = Continue st'"
  define p where "p = snd (consume (needed (fst st)) (fst st))"
  obtain p' h' where st': "st' = (p', h')" by (cases st')
  from s have n: "needed (fst st) \<le> bp_byteOffset (fst st)" and
    t: "turn cf (fst (consume (needed (fst st)) (fst st))) (p, snd st) = Continue (p', h')"
    by (simp_all add: ws_step_turn p_def st' split: if_splits)
  have "bp_byteOffset p' = bp_byteOffset (fst st) - needed (fst st)" using turn_keeps_bytes(1) [OF t] by (simp add: p_def)
  moreover have "bp_state (fst st) = READ_DATA \<Longrightarrow> bp_state p' = INFO" using turn_reads_data [OF _ t] by (simp add: p_def)
  moreover have "bp_state (fst st) \<noteq> READ_DATA \<Longrightarrow> 2 \<le> needed (fst st)" by (simp add: needed_def split: parser_state.split)
  ultimately show ?thesis using n by (auto simp: parser_weight_def st')
qed

text \<open>
  \<open>run\<close>. Where the loop ends without the callback, the stream waits for ever. A turn either takes
  bytes or hands on a frame, so the loop ends.
\<close>

function ws_run :: "ws_config \<Rightarrow> ws_conn \<Rightarrow> ws_conn" where
  "ws_run cf st =
     (if \<not> bp_loop (fst st) then ((fst st)\<lparr>bp_waiting := True\<rparr>, snd st)
      else (case ws_step cf st of
              Continue st' \<Rightarrow> ws_run cf st'
            | NeedMore \<Rightarrow> st
            | Stop called st' \<Rightarrow> ((fst st')\<lparr>bp_waiting := \<not> called\<rparr>, snd st')))"
  by pat_completeness auto
termination
  by (relation "measure (\<lambda>(cf, st). parser_weight (fst st))") (simp_all add: ws_step_weight)

declare ws_run.simps [simp del]

definition push_chunk :: "bytes \<Rightarrow> byte_parser \<Rightarrow> byte_parser" where
  "push_chunk chunk p =
     p\<lparr>bp_buffers := bp_buffers p @ [chunk], bp_byteOffset := bp_byteOffset p + length chunk\<rparr>"

text \<open>
  A chunk arrives from the socket. Chunks that come while the stream waits are kept by the stream and
  never reach the parser.
\<close>

definition ws_deaf :: "ws_conn \<Rightarrow> bool" where
  "ws_deaf st \<longleftrightarrow> bp_waiting (fst st) \<or> hd_socket (snd st) \<noteq> Live"

definition ws_feed :: "ws_config \<Rightarrow> ws_conn \<Rightarrow> bytes \<Rightarrow> ws_conn" where
  "ws_feed cf st chunk =
     (if ws_deaf st then st
      else ws_run cf ((push_chunk chunk (fst st))\<lparr>bp_loop := True\<rparr>, snd st))"

definition ws_feed_all :: "ws_config \<Rightarrow> ws_conn \<Rightarrow> bytes list \<Rightarrow> ws_conn" where
  "ws_feed_all cf st chunks = foldl (ws_feed cf) st chunks"

lemma fail_stop_NeedMore [simp]: "fail_stop cf c code r st \<noteq> NeedMore" "to_data cf st \<noteq> NeedMore"
  by (simp_all add: fail_stop_def to_data_def)

lemma info_step_NeedMore: "info_step cf buffer (p, h) \<noteq> NeedMore"
  unfolding info_step_def Let_def case_prod_conv by simp

lemma inflate_step_NeedMore: "inflate_step cf body (p, h) \<noteq> NeedMore"
  unfolding inflate_step_def Let_def case_prod_beta by (simp split: sum.split option.split)

lemma data_step_NeedMore: "data_step cf body (p, h) \<noteq> NeedMore"
  unfolding data_step_def Let_def case_prod_beta by (simp add: inflate_step_NeedMore split: option.split)

lemma turn_not_NeedMore: "turn cf buffer (p, h) \<noteq> NeedMore"
  by (simp add: turn_def info_step_NeedMore data_step_NeedMore length16_step_def length64_step_def Let_def
      split: parser_state.split)

lemma ws_step_NeedMore: "ws_step cf st = NeedMore \<longleftrightarrow> bp_byteOffset (fst st) < needed (fst st)"
  by (simp add: ws_step_turn turn_not_NeedMore)

section \<open>Chunks do not matter\<close>

definition sound :: "byte_parser \<Rightarrow> bool" where
  "sound p \<longleftrightarrow> bp_byteOffset p = length (concat (bp_buffers p))"

text \<open>\<open>q\<close> is \<open>p\<close>, cut differently, with the bytes \<open>ys\<close> behind its own.\<close>

definition ahead :: "bytes \<Rightarrow> byte_parser \<Rightarrow> byte_parser \<Rightarrow> bool" where
  "ahead ys p q \<longleftrightarrow> q = rebuf (bp_buffers q) (bp_byteOffset p + length ys) p \<and>
     concat (bp_buffers q) = concat (bp_buffers p) @ ys"

lemma take_bytes:
  "n \<le> length (concat bs) \<Longrightarrow> fst (take_bytes n bs) = take n (concat bs) \<and> concat (snd (take_bytes n bs)) = drop n (concat bs)"
  by (induction n bs rule: take_bytes.induct) (auto simp: case_prod_beta)

lemma consume_bytes:
  assumes "sound p" "n \<le> bp_byteOffset p"
  shows "fst (consume n p) = take n (concat (bp_buffers p))" "concat (bp_buffers (snd (consume n p))) = drop n (concat (bp_buffers p))"
    "snd (consume n p) = rebuf (bp_buffers (snd (consume n p))) (bp_byteOffset p - n) p" "sound (snd (consume n p))"
proof -
  show e: "fst (consume n p) = take n (concat (bp_buffers p))" "concat (bp_buffers (snd (consume n p))) = drop n (concat (bp_buffers p))"
    using take_bytes [of n "bp_buffers p"] assms by (auto simp: consume_def sound_def case_prod_beta Let_def)
  show "snd (consume n p) = rebuf (bp_buffers (snd (consume n p))) (bp_byteOffset p - n) p"
    by (auto simp: consume_def case_prod_beta Let_def rebuf_def)
  show "sound (snd (consume n p))" using e(2) assms by (simp add: sound_def)
qed

lemma ahead_sound: "ahead ys p q \<Longrightarrow> sound p \<Longrightarrow> sound q"
  unfolding ahead_def sound_def by (metis length_append rebuf_simps(2))

lemma consume_ahead:
  assumes a: "ahead ys p q" and s: "sound p" and n: "n \<le> bp_byteOffset p"
  shows "fst (consume n q) = fst (consume n p)" "ahead ys (snd (consume n p)) (snd (consume n q))"
proof -
  have q: "q = rebuf (bp_buffers q) (bp_byteOffset p + length ys) p" "concat (bp_buffers q) = concat (bp_buffers p) @ ys"
    using a by (simp_all add: ahead_def)
  then have o: "bp_byteOffset q = bp_byteOffset p + length ys" by (metis rebuf_simps(2))
  have l: "n \<le> length (concat (bp_buffers p))" using s n by (simp add: sound_def)
  note cp = consume_bytes [OF s n] and cq = consume_bytes [OF ahead_sound [OF a s], of n]
  show "fst (consume n q) = fst (consume n p)" using cp(1) cq(1) o n l by (simp add: q(2))
  have "snd (consume n q) = rebuf (bp_buffers (snd (consume n q))) (bp_byteOffset p - n + length ys) p"
    using cq(3) n o q(1) by (metis add_diff_assoc2 le_add1 le_trans rebuf_simps(10))
  also have "\<dots> = rebuf (bp_buffers (snd (consume n q))) (bp_byteOffset (snd (consume n p)) + length ys) (snd (consume n p))"
    using cp(3) by (metis consume_keeps(8) rebuf_simps(10))
  finally show "ahead ys (snd (consume n p)) (snd (consume n q))"
    using cp(2) cq(2) o n l by (simp add: ahead_def q(2))
qed

lemma ahead_rebuf: "ahead ys p q \<Longrightarrow> bp_buffers p' = bp_buffers p \<Longrightarrow> bp_byteOffset p' = bp_byteOffset p \<Longrightarrow>
    ahead ys p' (rebuf (bp_buffers q) (bp_byteOffset q) p')"
  unfolding ahead_def by (metis rebuf_simps(1,2))

lemma ws_step_ahead:
  assumes a: "ahead ys p q" and s: "sound p"
  shows "case ws_step cf (p, h) of
      Continue (p', h') \<Rightarrow> sound p' \<and> (\<exists>q'. ws_step cf (q, h) = Continue (q', h') \<and> ahead ys p' q')
    | NeedMore \<Rightarrow> True
    | Stop c (p', h') \<Rightarrow> \<exists>q'. ws_step cf (q, h) = Stop c (q', h') \<and> ahead ys p' q'"
proof (cases "bp_byteOffset p < needed p")
  case True
  then show ?thesis by (simp add: ws_step_turn)
next
  case False
  then have n: "needed p \<le> bp_byteOffset p" by simp
  have q: "needed q = needed p" "bp_byteOffset q = bp_byteOffset p + length ys"
    using a unfolding ahead_def needed_def by (metis rebuf_simps(2,4,5))+
  let ?p = "snd (consume (needed p) p)" and ?q = "snd (consume (needed p) q)" and ?b = "fst (consume (needed p) p)"
  note c = consume_ahead [OF a s n] and cp = consume_bytes [OF s n]
  have sp: "ws_step cf (p, h) = turn cf ?b (?p, h)" using n by (simp add: ws_step_turn)
  have sq: "ws_step cf (q, h) = turn cf ?b (?q, h)" using n q c(1) by (simp add: ws_step_turn)
  have "?q = rebuf (bp_buffers ?q) (bp_byteOffset ?q) ?p" using c(2) unfolding ahead_def by (metis rebuf_simps(2))
  then have tq: "turn cf ?b (?q, h) = map_conn (rebuf (bp_buffers ?q) (bp_byteOffset ?q)) (turn cf ?b (?p, h))"
    by (metis turn_rebuf)
  show ?thesis
  proof (cases "turn cf ?b (?p, h)")
    case (Continue st)
    obtain p' h' where st: "st = (p', h')" by (cases st)
    note k = turn_keeps_bytes(1) [OF Continue [unfolded st]]
    have "sound p'" using k cp(4) by (simp add: sound_def)
    moreover have "ahead ys p' (rebuf (bp_buffers ?q) (bp_byteOffset ?q) p')" using ahead_rebuf [OF c(2)] k by simp
    ultimately show ?thesis using Continue tq by (simp add: sp sq st)
  next
    case (Stop b st)
    obtain p' h' where st: "st = (p', h')" by (cases st)
    note k = turn_keeps_bytes(2) [OF Stop [unfolded st]]
    have "ahead ys p' (rebuf (bp_buffers ?q) (bp_byteOffset ?q) p')" using ahead_rebuf [OF c(2)] k by simp
    then show ?thesis using Stop tq by (simp add: sp sq st)
  qed (simp add: sp)
qed

text \<open>
  A connection that is no longer open hands on no message; every failure and every close frame ends it.
\<close>

fun is_message :: "ws_event \<Rightarrow> bool" where
  "is_message (TextMessage s) = True"
| "is_message (BinaryMessage data) = True"
| "is_message _ = False"

definition hd_messages :: "ws_handler \<Rightarrow> ws_event list" where
  "hd_messages h = filter is_message (hd_events h)"

definition silent :: "ws_handler \<Rightarrow> bool" where
  "silent h \<longleftrightarrow> hd_readyState h = CLOSING \<or> hd_readyState h = CLOSED"

definition open_live :: "ws_handler \<Rightarrow> bool" where
  "open_live h \<longleftrightarrow> hd_readyState h = OPEN \<and> hd_socket h = Live"

text \<open>What a step does to the handler: it stays open, or falls silent, and then nothing is heard any more.\<close>

definition calm :: "ws_handler \<Rightarrow> ws_handler \<Rightarrow> bool" where
  "calm h h' \<longleftrightarrow> (silent h \<longrightarrow> silent h' \<and> hd_messages h' = hd_messages h) \<and>
     (open_live h \<longrightarrow> open_live h' \<or> silent h')"

lemma calm_refl [simp]: "calm h h"
  by (simp add: calm_def)

lemma write_frame_keeps [simp]:
  "hd_readyState (write_frame cf op d h) = hd_readyState h" "hd_socket (write_frame cf op d h) = hd_socket h"
  "hd_events (write_frame cf op d h) = hd_events h" "hd_received (write_frame cf op d h) = hd_received h"
  "hd_sent (write_frame cf op d h) = hd_sent h"
  by (simp_all add: write_frame_def case_prod_beta)

lemma send_close_keeps [simp]:
  "hd_readyState (send_close cf code reason h) = CLOSING" "hd_events (send_close cf code reason h) = hd_events h"
  by (simp_all add: send_close_def Let_def)

lemma fail_silent:
  assumes "hd_readyState h \<noteq> CONNECTING"
  shows "silent (failWebsocketConnection cf code reason h)"
    "hd_messages (failWebsocketConnection cf code reason h) = hd_messages h"
  using assms by (cases "hd_readyState h";
      simp add: failWebsocketConnection_def silent_def hd_messages_def Let_def)+

lemma calm_fail [simp]: "calm h (failWebsocketConnection cf code reason h)"
proof (cases "hd_readyState h = CONNECTING")
  case False
  with fail_silent [OF this] show ?thesis by (simp add: calm_def)
qed (simp add: calm_def silent_def open_live_def)

lemma calm_onMessage: "calm h (onMessage cf op d h)"
  by (auto simp: onMessage_def calm_def silent_def open_live_def fire_def fail_silent split: option.split)
    (metis calm_def calm_fail open_live_def silent_def)+

lemma calm_trans: "calm h h' \<Longrightarrow> calm h' h'' \<Longrightarrow> calm h h''"
  by (auto simp: calm_def)

lemma calm_events:
  "hd_events h' = hd_events h \<Longrightarrow> silent h' \<or> hd_readyState h' = hd_readyState h \<and> hd_socket h' = hd_socket h \<Longrightarrow> calm h h'"
  by (auto simp: calm_def silent_def open_live_def hd_messages_def)

lemma calm_fire: "\<not> is_message e \<Longrightarrow> calm h (fire e h)"
  by (auto simp: calm_def silent_def open_live_def hd_messages_def fire_def)

lemma calm_write: "calm h (write_frame cf op d h)"
  by (rule calm_events) simp_all

lemma parseControlFrame_calm:
  "calm h (snd (snd (parseControlFrame cf body (p, h))))"
  "bp_waiting (fst (snd (parseControlFrame cf body (p, h)))) = bp_waiting p"
proof -
  show "bp_waiting (fst (snd (parseControlFrame cf body (p, h)))) = bp_waiting p"
    by (simp add: parseControlFrame_def Let_def set_closeInfo_def)
  have "calm h (fire (PingReceived body) (write_frame cf PONG body h))"
    by (rule calm_trans [OF calm_write calm_fire]) simp
  moreover have "calm h (write_frame cf CLOSE d h\<lparr>hd_sent := True, hd_readyState := CLOSING, hd_received := True\<rparr>)"
    "calm h (h\<lparr>hd_readyState := CLOSING, hd_received := True\<rparr>)" for d
    by (rule calm_events; simp add: silent_def)+
  ultimately show "calm h (snd (snd (parseControlFrame cf body (p, h))))"
    by (simp add: parseControlFrame_def Let_def calm_fire)
qed

lemma parseControlFrame_last:
  "hd_readyState h \<noteq> CONNECTING \<Longrightarrow> \<not> fst (parseControlFrame cf body (p, h)) \<Longrightarrow>
   silent (snd (snd (parseControlFrame cf body (p, h))))"
  by (auto simp: parseControlFrame_def Let_def fail_silent) (auto simp: silent_def)

definition step_calm :: "ws_conn \<Rightarrow> ws_conn outcome \<Rightarrow> bool" where
  "step_calm st r \<longleftrightarrow>
     (case r of
        Continue (p', h') \<Rightarrow> calm (snd st) h' \<and> bp_waiting p' = bp_waiting (fst st) \<and>
          (hd_readyState (snd st) \<noteq> CONNECTING \<longrightarrow> bp_loop (fst st) \<longrightarrow> bp_loop p' \<or> silent h')
      | NeedMore \<Rightarrow> True
      | Stop c (p', h') \<Rightarrow> calm (snd st) h' \<and> (hd_readyState (snd st) \<noteq> CONNECTING \<longrightarrow> silent h'))"

lemma step_calm_fail [simp]: "snd st' = snd st \<Longrightarrow> step_calm st (fail_stop cf c code r st')"
  by (simp add: step_calm_def fail_stop_def fail_silent)

lemma step_calm_to_data:
  "snd st' = snd st \<Longrightarrow> bp_waiting (fst st') = bp_waiting (fst st) \<Longrightarrow> bp_loop (fst st') = bp_loop (fst st) \<Longrightarrow>
   step_calm st (to_data cf st')"
  unfolding to_data_def by (cases st') (simp add: step_calm_def [of _ "Continue _"])

lemma step_calm_Continue:
  "snd st' = snd st \<Longrightarrow> bp_waiting (fst st') = bp_waiting (fst st) \<Longrightarrow> bp_loop (fst st') = bp_loop (fst st) \<Longrightarrow>
   step_calm st (Continue st')"
  by (cases st') (simp add: step_calm_def)

lemma info_step_calm: "step_calm (p, h) (info_step cf buffer (p, h))"
  unfolding info_step_def Let_def case_prod_conv
  by (simp add: step_calm_Continue)

lemma deliver_calm:
  "calm h (snd (deliver_message cf (p, h)))" "bp_waiting (fst (deliver_message cf (p, h))) = bp_waiting p"
  "bp_loop (fst (deliver_message cf (p, h))) = bp_loop p"
  by (simp_all add: deliver_message_def consumeFragments_def calm_onMessage)

lemma writeFragments_keeps:
  "writeFragments cf f p = Some p' \<Longrightarrow> bp_loop p' = bp_loop p \<and> bp_waiting p' = bp_waiting p"
  by (auto simp: writeFragments_def split: if_splits)

lemma step_calm_deliver:
  "bp_waiting q = bp_waiting p \<Longrightarrow> bp_loop q = bp_loop p \<Longrightarrow>
   step_calm (p, h) (Continue (fst (deliver_message cf (q, h))\<lparr>bp_state := s\<rparr>, snd (deliver_message cf (q, h))))"
  by (simp add: step_calm_def deliver_calm)

lemma inflate_step_calm: "step_calm (p, h) (inflate_step cf body (p, h))"
  unfolding inflate_step_def Let_def case_prod_beta
  by (auto simp: step_calm_deliver step_calm_Continue dest!: writeFragments_keeps split: sum.split option.split)

lemma data_step_calm: "step_calm (p, h) (data_step cf body (p, h))"
proof (cases "isControlFrame (in_opcode (bp_info p))")
  case True
  with parseControlFrame_calm(1) [where h = h and p = p and cf = cf and body = body]
    parseControlFrame_calm(2) [where h = h and p = p and cf = cf and body = body]
    parseControlFrame_last [where h = h and p = p and cf = cf and body = body] show ?thesis
    by (auto simp: data_step_def step_calm_def case_prod_beta)
qed (auto simp: data_step_def Let_def case_prod_beta step_calm_deliver step_calm_Continue inflate_step_calm
    dest!: writeFragments_keeps split: option.split)

lemma turn_calm: "step_calm (p, h) (turn cf buffer (p, h))"
  by (simp add: turn_def info_step_calm data_step_calm length16_step_def length64_step_def step_calm_to_data Let_def
      split: parser_state.split)

lemma step_calm_same:
  "step_calm (p, h) r \<Longrightarrow> bp_waiting p = bp_waiting p' \<Longrightarrow> bp_loop p = bp_loop p' \<Longrightarrow> step_calm (p', h) r"
  by (cases r) (auto simp: step_calm_def)

lemma ws_step_calm: "step_calm (p, h) (ws_step cf (p, h))"
  using step_calm_same [OF turn_calm, of "snd (consume (needed p) p)" p h cf "fst (consume (needed p) p)"]
  by (auto simp: ws_step_turn) (simp add: step_calm_def)

lemma ws_run_calm: "calm (snd st) (snd (ws_run cf st))"
proof (induction cf st rule: ws_run.induct)
  case (1 cf st)
  obtain p h where st: "st = (p, h)" by (cases st)
  have c: "step_calm (p, h) (ws_step cf (p, h))" by (rule ws_step_calm)
  show ?case
  proof (cases "bp_loop p")
    case True
    with 1 c show ?thesis unfolding st
      by (subst ws_run.simps) (auto simp: step_calm_def st split: outcome.split prod.splits intro: calm_trans)
  qed (simp add: st ws_run.simps [of cf "(p, h)"])
qed

lemma ws_feed_silent:
  "silent (snd st) \<Longrightarrow> silent (snd (ws_feed cf st c)) \<and> hd_messages (snd (ws_feed cf st c)) = hd_messages (snd st)"
  using ws_run_calm [of "((push_chunk c (fst st))\<lparr>bp_loop := True\<rparr>, snd st)" cf]
  by (auto simp: ws_feed_def calm_def)

text \<open>Two connections that are alike: the same but for the cuts, or both silent after the same messages.\<close>

definition alike :: "ws_conn \<Rightarrow> ws_conn \<Rightarrow> bool" where
  "alike st st' \<longleftrightarrow>
     silent (snd st) \<and> silent (snd st') \<and> hd_messages (snd st) = hd_messages (snd st') \<or>
     open_live (snd st) \<and> snd st' = snd st \<and> sound (fst st) \<and> ahead [] (fst st) (fst st') \<and> \<not> bp_waiting (fst st)"

lemma silent_not_open: "open_live h \<Longrightarrow> \<not> silent h"
  by (simp add: open_live_def silent_def)

lemma alike_silent:
  "silent h \<Longrightarrow> calm h (snd st) \<Longrightarrow> calm h (snd st') \<Longrightarrow> alike st st'"
  by (simp add: alike_def calm_def)

lemma ahead_fields:
  "ahead ys p q \<Longrightarrow> bp_loop q = bp_loop p \<and> bp_byteOffset q = bp_byteOffset p + length ys \<and> needed q = needed p \<and>
     bp_waiting q = bp_waiting p"
  unfolding ahead_def needed_def by (metis rebuf_simps(2,3,4,5,9))

text \<open>What a turn of the loop does on two parsers of which one has more bytes behind.\<close>

lemma run_cases:
  assumes s: "sound p" "ahead ys p q" "bp_loop p" "\<not> bp_waiting p" "open_live h"
  obtains (more) "ws_run cf (p, h) = (p, h)" "ws_step cf (p, h) = NeedMore"
  | (silent) h' where "silent h'" "calm h' (snd (ws_run cf (p, h)))" "calm h' (snd (ws_run cf (q, h)))"
  | (go) p' q' h' where "ws_step cf (p, h) = Continue (p', h')" "ws_run cf (p, h) = ws_run cf (p', h')"
      "ws_run cf (q, h) = ws_run cf (q', h')"
      "sound p'" "ahead ys p' q'" "bp_loop p'" "\<not> bp_waiting p'" "open_live h'"
proof -
  have l: "bp_loop q" using ahead_fields [OF s(2)] s(3) by simp
  have c: "step_calm (p, h) (ws_step cf (p, h))" by (rule ws_step_calm)
  have nc: "hd_readyState h \<noteq> CONNECTING" using s(5) by (simp add: open_live_def)
  show thesis
  proof (cases "ws_step cf (p, h)")
    case NeedMore
    with s(3) show thesis by (intro more) (simp_all add: ws_run.simps [of cf "(p, h)"])
  next
    case (Stop b st)
    obtain p' h' where st: "st = (p', h')" by (cases st)
    with Stop ws_step_ahead [OF s(2,1), of cf h] obtain q' where q': "ws_step cf (q, h) = Stop b (q', h')" by auto
    have "silent h'" using c nc Stop st by (simp add: step_calm_def)
    with Stop q' st s(3) l show thesis
      by (intro silent [of h']) (simp_all add: ws_run.simps [of cf "(p, h)"] ws_run.simps [of cf "(q, h)"])
  next
    case (Continue st)
    obtain p' h' where st: "st = (p', h')" by (cases st)
    with Continue ws_step_ahead [OF s(2,1), of cf h] obtain q' where
      q': "ws_step cf (q, h) = Continue (q', h')" "sound p'" "ahead ys p' q'" by auto
    have r: "ws_run cf (p, h) = ws_run cf (p', h')" "ws_run cf (q, h) = ws_run cf (q', h')"
      using Continue st q'(1) s(3) l by (simp_all add: ws_run.simps [of cf "(p, h)"] ws_run.simps [of cf "(q, h)"])
    have k: "calm h h'" "bp_waiting p' = bp_waiting p" "bp_loop p' \<or> silent h'"
      using c nc s(3) Continue st by (simp_all add: step_calm_def)
    show thesis
    proof (cases "silent h'")
      case True
      then show thesis
        using ws_run_calm [of "(p', h')" cf] ws_run_calm [of "(q', h')" cf] by (intro silent [of h']) (simp_all add: r)
    next
      case False
      with k s(3,4,5) q' r Continue st show thesis by (intro go [of p' h' q']) (simp_all add: calm_def)
    qed
  qed
qed

lemma ws_run_alike:
  "sound (fst st) \<Longrightarrow> ahead [] (fst st) q \<Longrightarrow> bp_loop (fst st) \<Longrightarrow> \<not> bp_waiting (fst st) \<Longrightarrow> open_live (snd st) \<Longrightarrow>
   alike (ws_run cf st) (ws_run cf (q, snd st))"
proof (induction cf st arbitrary: q rule: ws_run.induct)
  case (1 cf st)
  obtain p h where st: "st = (p, h)" by (cases st)
  note pr = "1.prems" [unfolded st, simplified]
  from pr show ?case unfolding st
  proof (cases rule: run_cases [where cf = cf])
    case more
    have "ws_run cf (q, h) = (q, h)"
      using more ahead_fields [OF pr(2)] pr(3) ws_step_NeedMore [of cf "(p, h)"] ws_step_NeedMore [of cf "(q, h)"]
      by (simp add: ws_run.simps [of cf "(q, h)"])
    with more pr show "alike (ws_run cf (p, h)) (ws_run cf (q, snd (p, h)))" by (simp add: alike_def)
  next
    case (silent h')
    then show "alike (ws_run cf (p, h)) (ws_run cf (q, snd (p, h)))" using alike_silent by simp
  next
    case (go p' q' h')
    with 1(1) [of "(p', h')" q'] pr st show "alike (ws_run cf (p, h)) (ws_run cf (q, snd (p, h)))" by simp
  qed
qed

lemma aheadE:
  assumes "ahead ys p q"
  obtains b where "q = rebuf b (bp_byteOffset p + length ys) p" "concat b = concat (bp_buffers p) @ ys"
  using assms unfolding ahead_def by blast

lemma push_ahead: "ahead ys p q \<Longrightarrow> ahead [] (push_chunk ys p) q"
  by (elim aheadE) (simp add: ahead_def push_chunk_def rebuf_def)

lemma push_sound: "sound p \<Longrightarrow> sound (push_chunk ys p)"
  by (simp add: sound_def push_chunk_def)

lemma ws_run_feed:
  "sound (fst st) \<Longrightarrow> ahead ys (fst st) q \<Longrightarrow> bp_loop (fst st) \<Longrightarrow> \<not> bp_waiting (fst st) \<Longrightarrow> open_live (snd st) \<Longrightarrow>
   alike (ws_feed cf (ws_run cf st) ys) (ws_run cf (q, snd st))"
proof (induction cf st arbitrary: q rule: ws_run.induct)
  case (1 cf st)
  obtain p h where st: "st = (p, h)" by (cases st)
  note pr = "1.prems" [unfolded st, simplified]
  from pr show ?case unfolding st
  proof (cases rule: run_cases [where cf = cf])
    case more
    have "(push_chunk ys p)\<lparr>bp_loop := True\<rparr> = push_chunk ys p" using pr(3) by (simp add: push_chunk_def)
    then have "ws_feed cf (ws_run cf (p, h)) ys = ws_run cf (push_chunk ys p, h)"
      using more pr by (simp add: ws_feed_def ws_deaf_def open_live_def)
    then show "alike (ws_feed cf (ws_run cf (p, h)) ys) (ws_run cf (q, snd (p, h)))"
      using ws_run_alike [of "(push_chunk ys p, h)" q cf] push_sound push_ahead pr by (simp add: push_chunk_def)
  next
    case (silent h')
    then have "silent (snd (ws_run cf (p, h)))" by (simp add: calm_def)
    with silent ws_feed_silent [OF this, of cf ys]
    show "alike (ws_feed cf (ws_run cf (p, h)) ys) (ws_run cf (q, snd (p, h)))"
      by (intro alike_silent [of h']) (simp_all add: calm_def)
  next
    case (go p' q' h')
    with 1(1) [of "(p', h')" q'] pr st
    show "alike (ws_feed cf (ws_run cf (p, h)) ys) (ws_run cf (q, snd (p, h)))" by simp
  qed
qed

lemma alike_feed: "alike st st' \<Longrightarrow> alike (ws_feed cf st c) (ws_feed cf st' c)"
proof -
  assume a: "alike st st'"
  show ?thesis
  proof (cases "silent (snd st)")
    case True
    with a silent_not_open have "silent (snd st')" "hd_messages (snd st) = hd_messages (snd st')" by (auto simp: alike_def)
    with True ws_feed_silent [of st cf c] ws_feed_silent [of st' cf c] show ?thesis by (simp add: alike_def)
  next
    case False
    with a have o: "open_live (snd st)" "snd st' = snd st" "sound (fst st)" "ahead [] (fst st) (fst st')" "\<not> bp_waiting (fst st)"
      by (auto simp: alike_def)
    let ?p = "(push_chunk c (fst st))\<lparr>bp_loop := True\<rparr>" and ?q = "(push_chunk c (fst st'))\<lparr>bp_loop := True\<rparr>"
    obtain b where "fst st' = rebuf b (bp_byteOffset (fst st)) (fst st)" "concat b = concat (bp_buffers (fst st))"
      by (rule aheadE [OF o(4)]) simp
    then have "ahead [] ?p ?q" by (simp add: ahead_def push_chunk_def rebuf_def)
    moreover have "sound ?p" using push_sound [OF o(3)] by (simp add: sound_def)
    ultimately have "alike (ws_run cf (?p, snd st)) (ws_run cf (?q, snd st))"
      using ws_run_alike [of "(?p, snd st)" ?q cf] o by (simp add: push_chunk_def)
    with o ahead_fields [OF o(4)] show ?thesis by (simp add: ws_feed_def ws_deaf_def open_live_def)
  qed
qed

lemma ahead_refl [simp]: "ahead [] p p"
  by (simp add: ahead_def)

lemma ahead_trans: "ahead [] p q \<Longrightarrow> ahead [] q r \<Longrightarrow> ahead [] p r"
  by (elim aheadE) (simp add: ahead_def)

lemma alike_trans: "alike st st' \<Longrightarrow> alike st' st'' \<Longrightarrow> alike st st''"
  using silent_not_open by (auto simp: alike_def intro: ahead_trans)

definition fresh :: "ws_conn \<Rightarrow> bool" where
  "fresh st \<longleftrightarrow> open_live (snd st) \<and> sound (fst st) \<and> \<not> bp_waiting (fst st)"

lemma ws_feed_fresh:
  "fresh st \<Longrightarrow> ws_feed cf st c = ws_run cf ((push_chunk c (fst st))\<lparr>bp_loop := True\<rparr>, snd st)"
  by (simp add: fresh_def ws_feed_def ws_deaf_def open_live_def)

lemma fresh_pushed:
  "fresh st \<Longrightarrow> sound ((push_chunk c (fst st))\<lparr>bp_loop := True\<rparr>)"
  "fresh st \<Longrightarrow> ahead ys ((push_chunk c (fst st))\<lparr>bp_loop := True\<rparr>) ((push_chunk (c @ ys) (fst st))\<lparr>bp_loop := True\<rparr>)"
  using push_sound [of "fst st" c] by (simp_all add: fresh_def sound_def ahead_def push_chunk_def rebuf_def)

lemma ws_feed_chunks:
  assumes "fresh st"
  shows "alike (ws_feed_all cf st (c # cs)) (ws_feed cf st (concat (c # cs)))"
proof (induction cs rule: rev_induct)
  case Nil
  show ?case
    using ws_run_alike [of "((push_chunk c (fst st))\<lparr>bp_loop := True\<rparr>, snd st)" _ cf, OF _ ahead_refl]
      fresh_pushed(1) [OF assms] assms
    by (simp add: ws_feed_all_def ws_feed_fresh fresh_def push_chunk_def)
next
  case (snoc x cs)
  let ?st = "((push_chunk (concat (c # cs)) (fst st))\<lparr>bp_loop := True\<rparr>, snd st)"
  have "alike (ws_feed cf (ws_run cf ?st) x) (ws_run cf ((push_chunk (concat (c # cs) @ x) (fst st))\<lparr>bp_loop := True\<rparr>, snd st))"
    using ws_run_feed [of ?st x "(push_chunk (concat (c # cs) @ x) (fst st))\<lparr>bp_loop := True\<rparr>" cf]
      fresh_pushed(1) [OF assms, of "concat (c # cs)"] fresh_pushed(2) [OF assms, where ys = x and c = "concat (c # cs)"] assms
    by (simp add: fresh_def push_chunk_def)
  with alike_feed [OF snoc, of cf x] show ?case
    using alike_trans by (fastforce simp: ws_feed_all_def ws_feed_fresh [OF assms])
qed

lemma ws_feed_nothing:
  assumes "fresh st" "bp_byteOffset (fst st) < needed (fst st)"
  shows "snd (ws_feed cf st []) = snd st"
proof -
  let ?st = "((push_chunk [] (fst st))\<lparr>bp_loop := True\<rparr>, snd st)"
  have "ws_step cf ?st = NeedMore" using assms(2)
    by (cases "bp_state (fst st)") (simp_all add: ws_step_NeedMore push_chunk_def needed_def)
  then show ?thesis by (simp add: ws_feed_fresh [OF assms(1)] ws_run.simps [of cf ?st])
qed

lemma fresh_start: "open_live h \<Longrightarrow> fresh (new_ByteParser, h)"
  by (simp add: fresh_def sound_def new_ByteParser_def)

section \<open>Valid streams are delivered\<close>

text \<open>A frame as a server writes it, unmasked.\<close>

record server_frame =
  sf_fin :: bool
  sf_opcode :: nat
  sf_data :: bytes

definition server_bytes :: "server_frame \<Rightarrow> bytes" where
  "server_bytes f =
     [(if sf_fin f then 128 else 0) + of_nat (sf_opcode f), of_nat (payload_length (length (sf_data f)))] @
     extended_length (length (sf_data f)) @ sf_data f"

definition message_event :: "ws_config \<Rightarrow> nat \<Rightarrow> bytes \<Rightarrow> ws_event option" where
  "message_event cf opcode data =
     (if opcode = TEXT then map_option TextMessage (cf_utf8 cf data) else Some (BinaryMessage data))"

text \<open>
  What a frame means while the message \<open>m\<close> is in progress, if the standard allows it there: the message
  that is then in progress, and the events. \<open>m\<close> is the opcode and the data so far.
\<close>

definition frame_effect :: "ws_config \<Rightarrow> (nat \<times> bytes list) option \<Rightarrow> server_frame \<Rightarrow>
    ((nat \<times> bytes list) option \<times> ws_event list) option" where
  "frame_effect cf m f =
     (if sf_opcode f = PING \<or> sf_opcode f = PONG
      then if sf_fin f \<and> length (sf_data f) \<le> 125
           then Some (m, [if sf_opcode f = PING then PingReceived (sf_data f) else PongReceived (sf_data f)])
           else None
      else
        (case (case m of
                 None \<Rightarrow> if isTextBinaryFrame (sf_opcode f) then Some (sf_opcode f, [sf_data f]) else None
               | Some (opcode, parts) \<Rightarrow> if sf_opcode f = CONTINUATION then Some (opcode, parts @ [sf_data f]) else None) of
           None \<Rightarrow> None
         | Some (opcode, parts) \<Rightarrow>
             if sf_fin f then map_option (\<lambda>e. (None, [e])) (message_event cf opcode (concat parts))
             else Some (Some (opcode, parts), [])))"

fun stream_events :: "ws_config \<Rightarrow> (nat \<times> bytes list) option \<Rightarrow> server_frame list \<Rightarrow> ws_event list option" where
  "stream_events cf m [] = Some []"
| "stream_events cf m (f # fs) =
     (case frame_effect cf m f of
        None \<Rightarrow> None
      | Some (m', es) \<Rightarrow> map_option ((@) es) (stream_events cf m' fs))"

text \<open>The parser stands in front of a frame, with the message in progress \<open>m\<close> and the bytes \<open>rest\<close>.\<close>

definition at_frame :: "(nat \<times> bytes list) option \<Rightarrow> bytes \<Rightarrow> byte_parser \<Rightarrow> bool" where
  "at_frame m rest p \<longleftrightarrow> sound p \<and> bp_loop p \<and> \<not> bp_waiting p \<and> bp_state p = INFO \<and> concat (bp_buffers p) = rest \<and>
     \<not> in_compressed (bp_info p) \<and>
     (case m of
        None \<Rightarrow> bp_fragments p = [] \<and> \<not> in_fragmented (bp_info p)
      | Some (opcode, parts) \<Rightarrow> parts \<noteq> [] \<and> bp_fragments p = parts \<and> in_binaryType (bp_info p) = opcode)"

text \<open>The first two bytes, by evaluation.\<close>

lemma server_final_all:
  "list_all (\<lambda>op. (128 + of_nat op :: byte) AND 64 = 0 \<and> (128 + of_nat op :: byte) AND 32 = 0 \<and>
     (128 + of_nat op :: byte) AND 16 = 0 \<and> unat ((128 + of_nat op :: byte) AND 15) = op \<and>
     (128 + of_nat op :: byte) AND 128 \<noteq> 0) [0..<16]"
  by code_simp

lemma server_part_all:
  "list_all (\<lambda>op. (of_nat op :: byte) AND 64 = 0 \<and> (of_nat op :: byte) AND 32 = 0 \<and> (of_nat op :: byte) AND 16 = 0 \<and>
     unat ((of_nat op :: byte) AND 15) = op \<and> (of_nat op :: byte) AND 128 = 0) [0..<16]"
  by code_simp

lemma server_second_all:
  "list_all (\<lambda>n. (of_nat n :: byte) AND 128 = 0 \<and> unat ((of_nat n :: byte) AND 127) = n) [0..<128]"
  by code_simp

lemma server_first:
  assumes "op < 16" and b: "b = (if fin then 128 else 0) + (of_nat op :: byte)"
  shows "b AND 64 = 0" "b AND 32 = 0" "b AND 16 = 0" "unat (b AND 15) = op" "b AND 128 = 0 \<longleftrightarrow> \<not> fin"
  using all_upt [OF server_final_all assms(1)] all_upt [OF server_part_all assms(1)] unfolding b by (cases fin; simp)+

lemma server_second:
  assumes "n < 128"
  shows "(of_nat n :: byte) AND 128 = 0" "unat ((of_nat n :: byte) AND 127) = n"
  using all_upt [OF server_second_all assms] by simp_all

definition header_info :: "server_frame \<Rightarrow> ws_info \<Rightarrow> ws_info" where
  "header_info f info =
     (if isTextBinaryFrame (sf_opcode f) then info\<lparr>in_binaryType := sf_opcode f, in_compressed := False\<rparr> else info)
       \<lparr>in_opcode := sf_opcode f, in_masked := False, in_fin := sf_fin f,
        in_fragmented := (\<not> sf_fin f \<and> sf_opcode f \<noteq> CONTINUATION)\<rparr>"

text \<open>The frame \<open>f\<close> may come while the message \<open>m\<close> is in progress.\<close>

definition may_come :: "(nat \<times> bytes list) option \<Rightarrow> server_frame \<Rightarrow> bool" where
  "may_come m f \<longleftrightarrow> length (sf_data f) < 2 ^ 31 \<and>
     (if sf_opcode f = PING \<or> sf_opcode f = PONG then sf_fin f \<and> length (sf_data f) \<le> 125
      else if m = None then isTextBinaryFrame (sf_opcode f) else sf_opcode f = CONTINUATION)"

lemma may_come_opcode: "may_come m f \<Longrightarrow> sf_opcode f < 16"
  by (auto simp: may_come_def isTextBinaryFrame_def opcode_defs split: if_splits)

lemma payload_length_cases:
  "payload_length n = n \<and> n \<le> 125 \<and> extended_length n = [] \<or>
   payload_length n = 126 \<and> n < 65536 \<and> extended_length n = be 2 n \<or>
   payload_length n = 127 \<and> extended_length n = [0, 0] @ be 6 n"
  by (auto simp: payload_length_def extended_length_def maxUnsigned16Bit_def)

lemma info_step_valid:
  assumes "may_come m f" "at_frame m bs p" "cf_maxPayloadSize cf = 0"
    and b: "b0 = (if sf_fin f then 128 else 0) + of_nat (sf_opcode f)" "b1 = of_nat (payload_length (length (sf_data f)))"
    and p': "bp_info p' = bp_info p" "bp_fragments p' = bp_fragments p"
  shows "info_step cf [b0, b1] (p', h) = Continue
    (if length (sf_data f) \<le> 125
     then p'\<lparr>bp_info := (header_info f (bp_info p))\<lparr>in_payloadLength := length (sf_data f)\<rparr>, bp_state := READ_DATA\<rparr>
     else p'\<lparr>bp_info := header_info f (bp_info p),
             bp_state := (if payload_length (length (sf_data f)) = 126 then PAYLOADLENGTH_16 else PAYLOADLENGTH_64)\<rparr>, h)"
proof -
  let ?n = "length (sf_data f)"
  have bits: "b0 AND 64 = 0" "b0 AND 32 = 0" "b0 AND 16 = 0" "unat (b0 AND 15) = sf_opcode f" "b0 AND 128 = 0 \<longleftrightarrow> \<not> sf_fin f"
      "b1 AND 128 = 0" "unat (b1 AND 127) = payload_length ?n"
    using server_first [OF may_come_opcode [OF assms(1)] b(1)] server_second [OF payload_length_small, of ?n]
    unfolding b(2) by simp_all
  have fits: "payload_fits cf q" for q using assms(3) by (simp add: payload_fits_def)
  consider (control) "isControlFrame (sf_opcode f)" "\<not> isTextBinaryFrame (sf_opcode f)" "\<not> isContinuationFrame (sf_opcode f)"
      "sf_fin f" "?n \<le> 125"
    | (first) "\<not> isControlFrame (sf_opcode f)" "isTextBinaryFrame (sf_opcode f)" "\<not> isContinuationFrame (sf_opcode f)"
      "sf_opcode f \<noteq> CONTINUATION" "bp_fragments p = []" "\<not> in_fragmented (bp_info p)"
    | (more) "\<not> isControlFrame (sf_opcode f)" "\<not> isTextBinaryFrame (sf_opcode f)" "isContinuationFrame (sf_opcode f)"
      "sf_opcode f = CONTINUATION" "bp_fragments p \<noteq> []"
    using assms(1,2)
    by (auto simp: may_come_def at_frame_def isTextBinaryFrame_def isControlFrame_def isContinuationFrame_def
        opcode_defs split: if_splits option.splits)
  note kind = this
  have pl: "payload_length ?n \<le> 125 \<longleftrightarrow> ?n \<le> 125" "125 < payload_length ?n \<longleftrightarrow> 125 < ?n" "?n \<le> 125 \<Longrightarrow> payload_length ?n = ?n"
    by (auto simp: payload_length_def maxUnsigned16Bit_def)
  have e: "info_step cf [b0, b1] (p', h) = Continue
      (if payload_length ?n \<le> 125
       then p'\<lparr>bp_info := (header_info f (bp_info p))\<lparr>in_payloadLength := payload_length ?n\<rparr>, bp_state := READ_DATA\<rparr>
       else p'\<lparr>bp_info := header_info f (bp_info p),
               bp_state := (if payload_length ?n = 126 then PAYLOADLENGTH_16 else PAYLOADLENGTH_64)\<rparr>, h)"
    unfolding info_step_def Let_def case_prod_conv nth_Cons_0 nth_Cons_Suc One_nat_def bits p'
    by (rule kind) (simp_all add: isValidOpcode_def header_info_def bits pl(1,2) fits p')
  show ?thesis using pl(1,3) unfolding e by simp
qed

lemma ws_step_bytes:
  assumes "sound p" "concat (bp_buffers p) = xs @ ys" "length xs = needed p"
  obtains b where "ws_step cf (p, h) = turn cf xs (rebuf b (length ys) p, h)" "concat b = ys"
proof -
  have o: "bp_byteOffset p = length xs + length ys" using assms(1,2) by (simp add: sound_def)
  then have n: "needed p \<le> bp_byteOffset p" using assms(3) by simp
  note c = consume_bytes [OF assms(1) n]
  have "fst (consume (needed p) p) = xs" "concat (bp_buffers (snd (consume (needed p) p))) = ys"
    using c(1,2) assms(2,3) by simp_all
  moreover have "snd (consume (needed p) p) = rebuf (bp_buffers (snd (consume (needed p) p))) (length ys) p"
    using c(3) o assms(3) by simp
  ultimately show thesis using n by (intro that [of "bp_buffers (snd (consume (needed p) p))"]) (simp_all add: ws_step_turn)
qed

lemma ws_run_Continue: "bp_loop p \<Longrightarrow> ws_step cf (p, h) = Continue st \<Longrightarrow> ws_run cf (p, h) = ws_run cf st"
  by (simp add: ws_run.simps [of cf "(p, h)"])

lemma to_data_unlimited: "cf_maxPayloadSize cf = 0 \<Longrightarrow> to_data cf st = Continue st"
  by (simp add: to_data_def payload_fits_def)

lemma be_add: "be (m + n) v = be m (v div 256 ^ n) @ be n v"
  by (induction n arbitrary: v) (simp_all add: div_mult2_eq)

lemma read_be_long:
  assumes "n < 2 ^ 31"
  shows "read_be (take 4 ([0, 0] @ be 6 n)) = 0 \<and> read_be (drop 4 ([0, 0] @ be 6 n)) = n"
proof -
  have "be 6 n = be 2 (n div 256 ^ 4) @ be 4 n" using be_add [of 2 4 n] by simp
  moreover have "n div 256 ^ 4 = 0" using assms by simp
  moreover have "be 2 0 = [0, 0]" by (simp add: numeral_2_eq_2)
  ultimately have "be 6 n = [0, 0] @ be 4 n" by simp
  with read_be_be [of n 4] assms show ?thesis by (simp add: read_be_def)
qed

text \<open>From the header to the data.\<close>

lemma ws_run_header:
  assumes "may_come m f" and at: "at_frame m (server_bytes f @ rest) p" and cf: "cf_maxPayloadSize cf = 0"
  obtains b where "concat b = sf_data f @ rest"
    "ws_run cf (p, h) = ws_run cf
       (rebuf b (length (sf_data f @ rest))
          (p\<lparr>bp_info := (header_info f (bp_info p))\<lparr>in_payloadLength := length (sf_data f)\<rparr>, bp_state := READ_DATA\<rparr>), h)"
proof -
  let ?n = "length (sf_data f)"
  let ?b0 = "(if sf_fin f then 128 else 0) + of_nat (sf_opcode f) :: byte" and ?b1 = "of_nat (payload_length ?n) :: byte"
  let ?done = "\<lambda>b. rebuf b (length (sf_data f @ rest))
          (p\<lparr>bp_info := (header_info f (bp_info p))\<lparr>in_payloadLength := ?n\<rparr>, bp_state := READ_DATA\<rparr>)"
  have p: "sound p" "bp_loop p" "bp_state p = INFO"
    "concat (bp_buffers p) = [?b0, ?b1] @ extended_length ?n @ sf_data f @ rest"
    using at by (simp_all add: at_frame_def server_bytes_def)
  obtain b where b: "ws_step cf (p, h) = turn cf [?b0, ?b1] (rebuf b (length (extended_length ?n @ sf_data f @ rest)) p, h)"
      "concat b = extended_length ?n @ sf_data f @ rest"
    by (rule ws_step_bytes [OF p(1,4)]) (simp_all add: needed_def p(3))
  let ?p = "rebuf b (length (extended_length ?n @ sf_data f @ rest)) p"
  have s: "ws_step cf (p, h) = Continue
    (if ?n \<le> 125
     then ?p\<lparr>bp_info := (header_info f (bp_info p))\<lparr>in_payloadLength := ?n\<rparr>, bp_state := READ_DATA\<rparr>
     else ?p\<lparr>bp_info := header_info f (bp_info p),
             bp_state := (if payload_length ?n = 126 then PAYLOADLENGTH_16 else PAYLOADLENGTH_64)\<rparr>, h)"
    unfolding b(1) by (simp add: turn_def p(3) info_step_valid [OF assms(1) at cf refl refl])
  note r = ws_run_Continue [OF p(2) s]
  show thesis
  proof (cases "?n \<le> 125")
    case True
    then have "extended_length ?n = []" by (simp add: extended_length_def payload_length_def maxUnsigned16Bit_def)
    with True b(2) r that [of b] show thesis by (simp add: rebuf_updates)
  next
    case False
    let ?k = "if payload_length ?n = 126 then 2 else 8 :: nat"
    define q where "q = ?p\<lparr>bp_info := header_info f (bp_info p),
             bp_state := (if payload_length ?n = 126 then PAYLOADLENGTH_16 else PAYLOADLENGTH_64)\<rparr>"
    have q: "ws_run cf (p, h) = ws_run cf (q, h)" "bp_loop q" "sound q" "concat (bp_buffers q) = extended_length ?n @ sf_data f @ rest"
      using r False p(2) b(2) by (simp_all add: q_def sound_def)
    have k: "length (extended_length ?n) = needed q"
      using payload_length_cases [of ?n] False by (auto simp: needed_def q_def)
    obtain b' where b': "ws_step cf (q, h) = turn cf (extended_length ?n) (rebuf b' (length (sf_data f @ rest)) q, h)"
        "concat b' = sf_data f @ rest"
      by (rule ws_step_bytes [OF q(3,4) k])
    have z: "read_be (take 4 ([0, 0] @ be 6 ?n)) = 0 \<and> read_be (drop 4 ([0, 0] @ be 6 ?n)) = ?n"
      using read_be_long assms(1) by (simp add: may_come_def)
    have "ws_step cf (q, h) = Continue (?done b', h)"
      using payload_length_cases [of ?n]
    proof (elim disjE)
      assume "payload_length ?n = 126 \<and> ?n < 65536 \<and> extended_length ?n = be 2 ?n"
      then show ?thesis using b'(1) read_be_be [of ?n 2]
        by (simp add: turn_def q_def length16_step_def to_data_unlimited [OF cf] rebuf_updates)
    next
      assume "payload_length ?n = 127 \<and> extended_length ?n = [0, 0] @ be 6 ?n"
      then show ?thesis using b'(1) z assms(1)
        by (simp add: turn_def q_def length64_step_def to_data_unlimited [OF cf] rebuf_updates may_come_def Let_def)
    qed (use False in simp)
    from ws_run_Continue [OF q(2) this] q(1) b'(2) that [of b'] show thesis by simp
  qed
qed

text \<open>From the data to the next frame.\<close>

lemma frame_effect_may_come:
  "frame_effect cf m f = Some r \<Longrightarrow> length (sf_data f) < 2 ^ 31 \<Longrightarrow> may_come m f"
  by (auto simp: frame_effect_def may_come_def split: if_splits option.splits)

definition ready :: "ws_handler \<Rightarrow> bool" where
  "ready h \<longleftrightarrow> open_live h \<and> \<not> hd_received h"

lemma onMessage_event:
  "ready h \<Longrightarrow> message_event cf opcode data = Some e \<Longrightarrow> onMessage cf opcode data h = fire e h"
  by (auto simp: ready_def open_live_def onMessage_def message_event_def split: if_splits)

lemma ready_fire: "ready (fire e h) = ready h" "hd_events (fire e h) = hd_events h @ [e]"
  by (simp_all add: ready_def open_live_def fire_def)

lemma ready_write: "ready (write_frame cf op d h) = ready h"
  by (simp add: ready_def open_live_def)

lemma data_step_valid:
  fixes n :: nat
  assumes eff: "frame_effect cf m f = Some (m', es)" and at: "at_frame m bs p" and h: "ready h"
    and cf: "cf_maxFragments cf = 0" and b: "concat b = rest"
  defines "q \<equiv> rebuf b (length rest) (p\<lparr>bp_info := (header_info f (bp_info p))\<lparr>in_payloadLength := n\<rparr>, bp_state := READ_DATA\<rparr>)"
  shows "\<exists>p' h'. data_step cf (sf_data f) (q, h) = Continue (p', h') \<and> at_frame m' rest p' \<and> ready h' \<and> hd_events h' = hd_events h @ es"
proof (cases "sf_opcode f = PING \<or> sf_opcode f = PONG")
  case True
  then have "m' = m" "es = [if sf_opcode f = PING then PingReceived (sf_data f) else PongReceived (sf_data f)]" "sf_fin f"
    using eff by (auto simp: frame_effect_def split: if_splits)
  moreover have "\<not> hd_received h" using h by (simp add: ready_def)
  ultimately show ?thesis using True at h b
    by (auto simp: q_def data_step_def header_info_def isControlFrame_def isTextBinaryFrame_def parseControlFrame_def
        opcode_defs ready_fire ready_write at_frame_def sound_def Let_def split: option.splits)
next
  case False
  then obtain opcode parts where
    m: "(case m of None \<Rightarrow> if isTextBinaryFrame (sf_opcode f) then Some (sf_opcode f, [sf_data f]) else None
         | Some (opcode, parts) \<Rightarrow> if sf_opcode f = CONTINUATION then Some (opcode, parts @ [sf_data f]) else None) = Some (opcode, parts)"
    using eff by (auto simp: frame_effect_def split: option.splits)
  have nc: "\<not> isControlFrame (sf_opcode f)"
    using m by (auto simp: isControlFrame_def isTextBinaryFrame_def opcode_defs split: option.splits if_splits)
  have q: "bp_fragments q @ [sf_data f] = parts" "in_binaryType (bp_info q) = opcode" "\<not> in_compressed (bp_info q)"
    "in_opcode (bp_info q) = sf_opcode f" "in_fin (bp_info q) = sf_fin f" "sf_fin f \<Longrightarrow> \<not> in_fragmented (bp_info q)"
    "concat (bp_buffers q) = rest" "bp_byteOffset q = length rest" "bp_loop q" "\<not> bp_waiting q"
    using m at b by (auto simp: q_def header_info_def at_frame_def isTextBinaryFrame_def opcode_defs split: option.splits if_splits)
  show ?thesis
  proof (cases "sf_fin f")
    case True
    then obtain e where e: "message_event cf opcode (concat parts) = Some e" "m' = None" "es = [e]"
      using eff False m by (auto simp: frame_effect_def)
    with True nc q cf onMessage_event [OF h e(1)] h show ?thesis
      by (auto simp: data_step_def writeFragments_def deliver_message_def consumeFragments_def at_frame_def sound_def ready_fire
          Let_def)
  next
    case part: False
    then have "m' = Some (opcode, parts)" "es = []" using eff False m by (auto simp: frame_effect_def)
    with part nc q cf h show ?thesis
      by (auto simp: data_step_def writeFragments_def at_frame_def sound_def Let_def)
  qed
qed

lemma ws_run_frame:
  assumes eff: "frame_effect cf m f = Some (m', es)" "length (sf_data f) < 2 ^ 31" and at: "at_frame m (server_bytes f @ rest) p"
    and h: "ready h" and cf: "cf_maxFragments cf = 0" "cf_maxPayloadSize cf = 0"
  shows "\<exists>p' h'. ws_run cf (p, h) = ws_run cf (p', h') \<and> at_frame m' rest p' \<and> ready h' \<and> hd_events h' = hd_events h @ es"
proof -
  obtain b where b: "concat b = sf_data f @ rest"
    "ws_run cf (p, h) = ws_run cf
       (rebuf b (length (sf_data f @ rest))
          (p\<lparr>bp_info := (header_info f (bp_info p))\<lparr>in_payloadLength := length (sf_data f)\<rparr>, bp_state := READ_DATA\<rparr>), h)"
    by (rule ws_run_header [OF frame_effect_may_come [OF eff] at cf(2)])
  define q where "q = rebuf b (length (sf_data f @ rest))
          (p\<lparr>bp_info := (header_info f (bp_info p))\<lparr>in_payloadLength := length (sf_data f)\<rparr>, bp_state := READ_DATA\<rparr>)"
  have q: "sound q" "concat (bp_buffers q) = sf_data f @ rest" "length (sf_data f) = needed q" "bp_loop q"
    using b(1) at by (simp_all add: q_def sound_def needed_def at_frame_def)
  obtain b' where b': "ws_step cf (q, h) = turn cf (sf_data f) (rebuf b' (length rest) q, h)" "concat b' = rest"
    by (rule ws_step_bytes [OF q(1,2,3)])
  from data_step_valid [OF eff(1) at h cf(1) b'(2), of "length (sf_data f)"] obtain p' h' where
    "ws_step cf (q, h) = Continue (p', h')" "at_frame m' rest p'" "ready h'" "hd_events h' = hd_events h @ es"
    using b'(1) by (auto simp: turn_def q_def)
  moreover from this ws_run_Continue [OF q(4)] b(2) have "ws_run cf (p, h) = ws_run cf (p', h')" by (simp add: q_def)
  ultimately show ?thesis by blast
qed

lemma ws_run_stream:
  assumes "stream_events cf m fs = Some es" "list_all (\<lambda>f. length (sf_data f) < 2 ^ 31) fs"
    and "at_frame m (concat (map server_bytes fs)) p" "ready h" "cf_maxFragments cf = 0" "cf_maxPayloadSize cf = 0"
  shows "ready (snd (ws_run cf (p, h))) \<and> hd_events (snd (ws_run cf (p, h))) = hd_events h @ es"
  using assms
proof (induction fs arbitrary: m es p h)
  case Nil
  then have "concat (bp_buffers p) = []" by (simp add: at_frame_def)
  with Nil have "bp_byteOffset p = 0" by (simp only: at_frame_def sound_def list.size(3))
  with Nil have "ws_step cf (p, h) = NeedMore" by (simp add: ws_step_NeedMore at_frame_def needed_def)
  with Nil show ?case by (simp add: ws_run.simps [of cf "(p, h)"] at_frame_def)
next
  case (Cons f fs)
  then obtain m' es1 es2 where e: "frame_effect cf m f = Some (m', es1)" "stream_events cf m' fs = Some es2" "es = es1 @ es2"
    by (auto split: option.splits)
  from ws_run_frame [OF e(1) _ _ Cons.prems(4-6)] Cons.prems obtain p' h' where
    r: "ws_run cf (p, h) = ws_run cf (p', h')" "at_frame m' (concat (map server_bytes fs)) p'" "ready h'"
      "hd_events h' = hd_events h @ es1" by fastforce
  from Cons.IH [OF e(2) _ r(2,3)] Cons.prems r(1,4) e(3) show ?case by simp
qed

lemma start_at_frame:
  "at_frame None bs ((push_chunk bs new_ByteParser)\<lparr>bp_loop := True\<rparr>)"
  by (simp add: at_frame_def new_ByteParser_def push_chunk_def sound_def)

lemma ws_feed_stream:
  assumes "stream_events cf None fs = Some es" "list_all (\<lambda>f. length (sf_data f) < 2 ^ 31) fs"
    and "ready h" "cf_maxFragments cf = 0" "cf_maxPayloadSize cf = 0"
  shows "ready (snd (ws_feed cf (new_ByteParser, h) (concat (map server_bytes fs)))) \<and>
    hd_events (snd (ws_feed cf (new_ByteParser, h) (concat (map server_bytes fs)))) = hd_events h @ es"
  using ws_run_stream [OF assms(1,2) start_at_frame assms(3-5)] assms(3)
  by (simp add: ws_feed_fresh fresh_start ready_def)

lemma ws_feed_any_chunks:
  assumes "open_live h"
  shows "alike (ws_feed_all cf (new_ByteParser, h) chunks) (ws_feed cf (new_ByteParser, h) (concat chunks)) \<or> chunks = []"
  using ws_feed_chunks [OF fresh_start [OF assms]] by (cases chunks) auto

lemma ws_feed_empty: "open_live h \<Longrightarrow> snd (ws_feed cf (new_ByteParser, h) []) = h"
  using ws_feed_nothing [OF fresh_start] by (simp add: new_ByteParser_def needed_def)

section \<open>Closing\<close>

text \<open>What can happen to an open connection, in any order.\<close>

datatype ws_input = Chunk bytes | CloseCall "nat option" string | SocketClosed | SocketFailed

fun ws_input_step :: "ws_config \<Rightarrow> ws_conn \<Rightarrow> ws_input \<Rightarrow> ws_conn" where
  "ws_input_step cf st (Chunk c) = ws_feed cf st c"
| "ws_input_step cf (p, h) (CloseCall code reason) = (p, snd (ws_close cf code reason h))"
| "ws_input_step cf (p, h) SocketClosed = (p, onSocketClose (in_closeInfo (bp_info p)) (h\<lparr>hd_socket := Destroyed\<rparr>))"
| "ws_input_step cf (p, h) SocketFailed = (p, h\<lparr>hd_readyState := CLOSING, hd_socket := Destroyed\<rparr>)"

definition frame_opcode :: "bytes \<Rightarrow> nat" where
  "frame_opcode w = unat (w ! 0 AND 15)"

definition close_frames :: "ws_handler \<Rightarrow> nat" where
  "close_frames h = length (filter (\<lambda>w. frame_opcode w = CLOSE) (hd_writes h))"

definition closing_ok :: "ws_handler \<Rightarrow> bool" where
  "closing_ok h \<longleftrightarrow> close_frames h = (if hd_sent h then 1 else 0)"

lemma frame_opcode_create: "opcode < 16 \<Longrightarrow> frame_opcode (createFrame k opcode d) = opcode"
  using first_byte(3) [of opcode] by (simp add: frame_opcode_def createFrame_def)

lemma close_frames_write:
  "opcode < 16 \<Longrightarrow> close_frames (write_frame cf opcode d h) = close_frames h + (if opcode = CLOSE then 1 else 0)"
  by (simp add: close_frames_def write_frame_def case_prod_beta frame_opcode_create)

lemma closing_ok_updates:
  "closing_ok (h\<lparr>hd_readyState := x1\<rparr>) = closing_ok h" "closing_ok (h\<lparr>hd_received := x2\<rparr>) = closing_ok h"
  "closing_ok (h\<lparr>hd_socket := x3\<rparr>) = closing_ok h" "closing_ok (h\<lparr>hd_aborted := x4\<rparr>) = closing_ok h"
  "closing_ok (fire e h) = closing_ok h"
  by (simp_all add: closing_ok_def close_frames_def fire_def)

lemma closing_ok_close:
  "closing_ok h \<Longrightarrow> \<not> hd_sent h \<Longrightarrow> closing_ok (write_frame cf CLOSE d h\<lparr>hd_sent := True\<rparr>)"
  using close_frames_write [of CLOSE cf d h] by (simp add: closing_ok_def CLOSE_def) (simp add: close_frames_def)

lemma closing_ok_pong: "closing_ok h \<Longrightarrow> closing_ok (write_frame cf PONG d h)"
  using close_frames_write [of PONG cf d h] by (simp add: closing_ok_def opcode_defs)

lemma send_close_ok: "closing_ok h \<Longrightarrow> closing_ok (send_close cf code reason h)"
  using closing_ok_close [of h cf]
  by (auto simp: send_close_def Let_def closing_ok_updates)

lemma fail_ok: "closing_ok h \<Longrightarrow> closing_ok (failWebsocketConnection cf code reason h)"
  by (simp add: failWebsocketConnection_def onSocketClose_def Let_def send_close_ok closing_ok_updates)

lemma onMessage_ok: "closing_ok h \<Longrightarrow> closing_ok (onMessage cf opcode data h)"
  by (simp add: onMessage_def fail_ok closing_ok_updates split: option.split)

lemma parseControlFrame_ok: "closing_ok h \<Longrightarrow> closing_ok (snd (snd (parseControlFrame cf body (p, h))))"
  using closing_ok_close [of h cf]
  by (simp add: parseControlFrame_def Let_def fail_ok closing_ok_pong closing_ok_updates
      del: ws_handler.update_convs)

text \<open>The parser reaches the handler in three ways; what these keep, it keeps.\<close>

locale handler_invariant =
  fixes cf :: ws_config and I :: "ws_handler \<Rightarrow> bool"
  assumes fail: "I h \<Longrightarrow> I (failWebsocketConnection cf code reason h)"
    and message: "I h \<Longrightarrow> I (onMessage cf opcode data h)"
    and control: "I h \<Longrightarrow> I (snd (snd (parseControlFrame cf body (p, h))))"
begin

definition outcome_ok :: "ws_conn outcome \<Rightarrow> bool" where
  "outcome_ok r \<longleftrightarrow> (case r of Continue st \<Rightarrow> I (snd st) | NeedMore \<Rightarrow> True | Stop c st \<Rightarrow> I (snd st))"

lemma outcome_ok_simps [simp]:
  "outcome_ok (Continue st) = I (snd st)" "I (snd st) \<Longrightarrow> outcome_ok (fail_stop cf c code r st)"
  "I (snd st) \<Longrightarrow> outcome_ok (to_data cf st)"
  by (simp_all add: outcome_ok_def fail_stop_def to_data_def fail)

lemma deliver: "I h \<Longrightarrow> I (snd (deliver_message cf (p, h)))"
  by (simp add: deliver_message_def consumeFragments_def message)

lemma info: "I h \<Longrightarrow> outcome_ok (info_step cf buffer (p, h))"
  unfolding info_step_def Let_def case_prod_conv by simp

lemma inflate: "I h \<Longrightarrow> outcome_ok (inflate_step cf body (p, h))"
  unfolding inflate_step_def Let_def case_prod_beta by (simp add: deliver split: sum.split option.split)

lemma data: "I h \<Longrightarrow> outcome_ok (data_step cf body (p, h))"
  unfolding data_step_def Let_def case_prod_beta by (simp add: deliver inflate control split: option.split)

lemma turn: "I h \<Longrightarrow> outcome_ok (turn cf buffer (p, h))"
  by (simp add: turn_def info data length16_step_def length64_step_def Let_def split: parser_state.split)

lemma step: "I (snd st) \<Longrightarrow> outcome_ok (ws_step cf st)"
  using turn by (simp add: ws_step_turn) (simp add: outcome_ok_def)

lemma run: "I (snd st) \<Longrightarrow> I (snd (ws_run cf st))"
proof (induction st rule: measure_induct_rule [of "\<lambda>st. parser_weight (fst st)"])
  case (less st)
  show ?case
  proof (cases "ws_step cf st")
    case (Continue st')
    with less.IH [OF ws_step_weight [OF Continue]] step [OF less.prems] less.prems show ?thesis
      by (simp add: ws_run.simps [of cf st])
  next
    case (Stop c st')
    with step [OF less.prems] less.prems show ?thesis by (simp add: ws_run.simps [of cf st] outcome_ok_def)
  qed (use less.prems in \<open>simp add: ws_run.simps [of cf st]\<close>)
qed

lemma feed: "I (snd st) \<Longrightarrow> I (snd (ws_feed cf st c))"
  by (simp add: ws_feed_def run)

end

interpretation closing: handler_invariant cf closing_ok for cf
  by (rule handler_invariant.intro) (simp_all add: fail_ok onMessage_ok parseControlFrame_ok)

lemma ws_input_ok:
  assumes "closing_ok (snd st)"
  shows "closing_ok (snd (ws_input_step cf st i))"
proof (cases i)
  case (Chunk c)
  then show ?thesis using closing.feed [OF assms] by simp
next
  case (CloseCall code reason)
  then show ?thesis using assms
    by (cases st) (simp add: ws_close_def closeWebSocketConnection_def fail_ok send_close_ok closing_ok_updates
      split: option.split)
qed (use assms in \<open>cases st; simp add: onSocketClose_def Let_def closing_ok_updates\<close>)+

lemma ws_inputs_ok: "closing_ok (snd st) \<Longrightarrow> closing_ok (snd (foldl (ws_input_step cf) st is))"
  by (induction "is" arbitrary: st) (simp_all add: ws_input_ok)

section \<open>Properties\<close>

text \<open>
  C18: however the bytes of the server are cut into chunks, the parser hands on the messages that it
  hands on when they come at once; and as long as the connection is open, everything it does is the
  same.
\<close>

theorem websocket_chunks_do_not_matter:
  assumes "hd_readyState h = OPEN" "hd_socket h = Live"
  shows "hd_messages (snd (ws_feed_all cf (new_ByteParser, h) chunks)) =
      hd_messages (snd (ws_feed cf (new_ByteParser, h) (concat chunks))) \<and>
    (hd_readyState (snd (ws_feed_all cf (new_ByteParser, h) chunks)) = OPEN \<longrightarrow>
      snd (ws_feed_all cf (new_ByteParser, h) chunks) = snd (ws_feed cf (new_ByteParser, h) (concat chunks)))"
proof -
  have o: "open_live h" using assms by (simp add: open_live_def)
  from ws_feed_any_chunks [OF o, of cf chunks] show ?thesis
  proof
    assume "alike (ws_feed_all cf (new_ByteParser, h) chunks) (ws_feed cf (new_ByteParser, h) (concat chunks))"
    then show ?thesis by (auto simp: alike_def silent_def)
  next
    assume "chunks = []"
    then show ?thesis by (simp add: ws_feed_all_def ws_feed_empty [OF o])
  qed
qed

text \<open>A connection for evaluation: bytes are characters, nothing is compressed, no limits.\<close>

definition demo_config :: ws_config where
  "demo_config = \<lparr>cf_extensions = [], cf_maxFragments = 0, cf_maxPayloadSize = 0, cf_inflate = \<lambda>_. Inl [],
     cf_utf8 = \<lambda>bs. Some (map (\<lambda>b. char_of (unat b)) bs), cf_rnd = \<lambda>n i. of_nat i\<rparr>"

definition demo_handler :: ws_handler where
  "demo_handler = \<lparr>hd_readyState = OPEN, hd_sent = False, hd_received = False, hd_socket = Live, hd_aborted = False,
     hd_writes = [], hd_pool = new_pool, hd_events = []\<rparr>"

theorem websocket_chunks_do_not_matter_witness:
  "hd_messages (snd (ws_feed_all demo_config (new_ByteParser, demo_handler) [[129], [2, 104], [], [105]])) = [TextMessage ''hi'']"
proof -
  have "hd_messages (snd (ws_feed demo_config (new_ByteParser, demo_handler) [129, 2, 104, 105])) = [TextMessage ''hi'']"
    by code_simp
  then show ?thesis
    using websocket_chunks_do_not_matter [of demo_handler demo_config "[[129], [2, 104], [], [105]]"]
    by (simp add: demo_handler_def)
qed


definition demo_stream :: "server_frame list" where
  "demo_stream = [\<lparr>sf_fin = False, sf_opcode = 1, sf_data = [104]\<rparr>, \<lparr>sf_fin = True, sf_opcode = 9, sf_data = [7]\<rparr>,
     \<lparr>sf_fin = True, sf_opcode = 0, sf_data = [105]\<rparr>]"


text \<open>
  C19: whatever the server sends and whenever \<open>close\<close> is called or the socket fails or closes, at most
  one close frame is written.
\<close>

theorem websocket_one_close_frame:
  assumes "hd_writes h = []" "\<not> hd_sent h"
  shows "close_frames (snd (foldl (ws_input_step cf) (p, h) inputs)) \<le> 1"
proof -
  have "closing_ok h" using assms by (simp add: closing_ok_def close_frames_def)
  with ws_inputs_ok [of "(p, h)" cf inputs] show ?thesis by (simp add: closing_ok_def split: if_splits)
qed

theorem websocket_one_close_frame_witness:
  "close_frames (snd (foldl (ws_input_step demo_config) (new_ByteParser, demo_handler)
     [CloseCall (Some 1000) ''bye'', Chunk [136, 0], SocketClosed])) \<le> 1"
  by (rule websocket_one_close_frame) (simp_all add: demo_handler_def)

section \<open>Where the code differs from what it means\<close>

text \<open>
  The limit on the size of a message looks at the opcode of the frame before: behind a fragment of 8
  bytes, a ping of 5 fails a connection whose messages may have 10.
\<close>

lemma size_limit_counts_control_frames:
  assumes "cf_maxPayloadSize cf = 10" "in_opcode (bp_info p) = TEXT" "bp_fragmentsBytes p = 8"
  shows "\<exists>q. info_step cf [137, 5] (p, h) = fail_stop cf False 1009 ''Payload size exceeds maximum allowed size'' (q, h)"
  using assms
  by (intro exI [where x = "p\<lparr>bp_info := (bp_info p)\<lparr>in_payloadLength := 5\<rparr>, bp_state := READ_DATA\<rparr>"])
    (simp add: info_step_def payload_fits_def isValidOpcode_def isTextBinaryFrame_def isContinuationFrame_def
      isControlFrame_def opcode_defs)

text \<open>\<open>close\<close> while connecting reports that the connection is closed, and then sets it to closing, for good.\<close>

lemma close_while_connecting:
  assumes "hd_readyState h = CONNECTING" "\<not> hd_received h"
  shows "hd_readyState (snd (ws_close cf None [] h)) = CLOSING \<and>
    hd_events (snd (ws_close cf None [] h)) = hd_events h @ [ErrorEvent [], CloseEvent False 1006 []]"
  using assms
  by (simp add: ws_close_def validateCloseCodeAndReason_def utf8_bytes_def closeWebSocketConnection_def
      failWebsocketConnection_def onSocketClose_def fire_def Let_def)

end
