(* ===== verification/EventStream.thy ===== *)
theory EventStream
  imports MimeType Doubles
begin

text \<open>
  \<open>undici/lib/web/eventsource/eventsource-stream.js\<close>: the parser of event streams. The bytes not yet
  dropped are in a list of chunks with two cursors, the start of the line and the current byte; the record
  \<open>chunk_buffer\<close> has them as the code does, and \<open>buffer_line\<close> and \<open>buffer_rest\<close> are what they mean.

  Decoding UTF-8 is Node's: the parameter \<open>es_utf8\<close>. \<open>_transform\<close> is not called again once it has
  reported an error.
\<close>

section \<open>Bytes and fields\<close>

definition BOM :: "byte list" where "BOM = [239, 187, 191]"
definition LF :: byte where "LF = 10"
definition CR :: byte where "CR = 13"
definition COLON :: byte where "COLON = 58"
definition SPACE :: byte where "SPACE = 32"
definition DATA :: "byte list" where "DATA = [100, 97, 116, 97]"
definition EVENT :: "byte list" where "EVENT = [101, 118, 101, 110, 116]"
definition ID :: "byte list" where "ID = [105, 100]"
definition RETRY :: "byte list" where "RETRY = [114, 101, 116, 114, 121]"

definition isASCIINumberBytes :: "byte list \<Rightarrow> nat \<Rightarrow> bool" where
  "isASCIINumberBytes buffer start \<longleftrightarrow>
     start < length buffer \<and> list_all (\<lambda>b. \<not> (b < 48 \<or> b > 57)) (drop start buffer)"

definition isValidLastEventIdBytes :: "byte list \<Rightarrow> nat \<Rightarrow> bool" where
  "isValidLastEventIdBytes buffer start \<longleftrightarrow> list_all (\<lambda>b. b \<noteq> 0) (drop start buffer)"

definition isFieldName :: "byte list \<Rightarrow> nat \<Rightarrow> byte list \<Rightarrow> bool" where
  "isFieldName line n field \<longleftrightarrow> n = length field \<and> list_all (\<lambda>i. line ! i = field ! i) [0..<n]"

definition isValidLastEventId :: "string \<Rightarrow> bool" where
  "isValidLastEventId v \<longleftrightarrow> CHR 0x00 \<notin> set v"

definition isASCIINumber :: "string \<Rightarrow> bool" where
  "isASCIINumber v \<longleftrightarrow> v \<noteq> [] \<and> list_all (\<lambda>c. \<not> ((of_char c :: nat) < 48 \<or> (of_char c :: nat) > 57)) v"

text \<open>\<open>parseInt\<close> of digits: a double, which is infinite from \<open>2 ^ 1024\<close> on.\<close>

datatype js_time = Millis nat | Endless

definition parse_digits :: "string \<Rightarrow> js_time" where
  "parse_digits v = (let n = fl53 (nat_of_digits v) in if n < 2 ^ 1024 then Millis n else Endless)"

section \<open>The chunks and their cursors\<close>

record chunk_buffer =
  chunks :: "byte list list"
  chunkIndex :: nat
  pos :: nat
  lineChunkIndex :: nat
  linePos :: nat

definition empty_buffer :: chunk_buffer where
  "empty_buffer = \<lparr>chunks = [], chunkIndex = 0, pos = 0, lineChunkIndex = 0, linePos = 0\<rparr>"

definition push_bytes :: "byte list \<Rightarrow> chunk_buffer \<Rightarrow> chunk_buffer" where
  "push_bytes chunk b = b\<lparr>chunks := chunks b @ [chunk]\<rparr>"

definition hasCurrentByte :: "chunk_buffer \<Rightarrow> bool" where
  "hasCurrentByte b \<longleftrightarrow> chunkIndex b < length (chunks b) \<and> pos b < length (chunks b ! chunkIndex b)"

definition currentByte :: "chunk_buffer \<Rightarrow> byte" where
  "currentByte b = chunks b ! chunkIndex b ! pos b"

function next_chunk :: "byte list list \<Rightarrow> nat \<times> nat \<Rightarrow> nat \<times> nat" where
  "next_chunk cs (i, p) =
     (if i < length cs \<and> p \<ge> length (cs ! i) then next_chunk cs (i + 1, 0) else (i, p))"
  by pat_completeness auto
termination by (relation "measure (\<lambda>(cs, i, p). length cs - i)") auto

declare next_chunk.simps [simp del]

definition advanceCursor :: "chunk_buffer \<Rightarrow> chunk_buffer" where
  "advanceCursor b =
     (let (i, p) = next_chunk (chunks b) (chunkIndex b, pos b + 1) in b\<lparr>chunkIndex := i, pos := p\<rparr>)"

text \<open>\<open>chunkIndex\<close> is never below \<open>lineChunkIndex\<close>, so it does not go below 0.\<close>

primrec shift_chunks :: "nat \<Rightarrow> chunk_buffer \<Rightarrow> chunk_buffer" where
  "shift_chunks 0 b = b"
| "shift_chunks (Suc n) b =
     shift_chunks n (b\<lparr>chunks := tl (chunks b), lineChunkIndex := lineChunkIndex b - 1, chunkIndex := chunkIndex b - 1\<rparr>)"

definition dropConsumedChunks :: "chunk_buffer \<Rightarrow> chunk_buffer" where
  "dropConsumedChunks b =
     (let b1 = shift_chunks (lineChunkIndex b) b in
      if chunkIndex b1 = length (chunks b1) then empty_buffer else b1)"

definition syncLineStartToCursor :: "chunk_buffer \<Rightarrow> chunk_buffer" where
  "syncLineStartToCursor b = dropConsumedChunks (b\<lparr>lineChunkIndex := chunkIndex b, linePos := pos b\<rparr>)"

definition consumeCurrentByte :: "chunk_buffer \<Rightarrow> chunk_buffer" where
  "consumeCurrentByte b = syncLineStartToCursor (advanceCursor b)"

definition subarray :: "byte list \<Rightarrow> nat \<Rightarrow> nat \<Rightarrow> byte list" where
  "subarray bs start end = drop start (take end bs)"

definition line_slice :: "chunk_buffer \<Rightarrow> nat \<Rightarrow> byte list" where
  "line_slice b i =
     (let chunk = chunks b ! i;
          start = (if i = lineChunkIndex b then linePos b else 0);
          end = (if i = chunkIndex b then pos b else length chunk) in
      subarray chunk start end)"

definition readLine :: "chunk_buffer \<Rightarrow> byte list" where
  "readLine b =
     (if lineChunkIndex b = chunkIndex b then subarray (chunks b ! chunkIndex b) (linePos b) (pos b)
      else concat (map (line_slice b) [lineChunkIndex b..<chunkIndex b + 1]))"

text \<open>The loop of \<open>peekBufferedByte\<close>, over the chunks from \<open>lineChunkIndex\<close> on.\<close>

fun peek_from :: "byte list list \<Rightarrow> nat \<Rightarrow> nat \<Rightarrow> byte option" where
  "peek_from [] p offset = None"
| "peek_from (chunk # cs) p offset =
     (let remaining = length chunk - p in
      if offset < remaining then Some (chunk ! (p + offset)) else peek_from cs 0 (offset - remaining))"

definition peekBufferedByte :: "nat \<Rightarrow> chunk_buffer \<Rightarrow> byte option" where
  "peekBufferedByte offset b = peek_from (drop (lineChunkIndex b) (chunks b)) (linePos b) offset"

function discard_from :: "byte list list \<Rightarrow> nat \<Rightarrow> nat \<times> nat \<Rightarrow> nat \<times> nat" where
  "discard_from cs count (i, p) =
     (if count > 0 \<and> i < length cs
      then (let remaining = length (cs ! i) - p in
            if count < remaining then discard_from cs 0 (i, p + count)
            else discard_from cs (count - remaining) (i + 1, 0))
      else (i, p))"
  by pat_completeness auto
termination by (relation "measures [\<lambda>(cs, n, i, p). length cs - i, \<lambda>(cs, n, i, p). n]") auto

declare discard_from.simps [simp del]

definition discardLeadingBytes :: "nat \<Rightarrow> chunk_buffer \<Rightarrow> chunk_buffer" where
  "discardLeadingBytes count b =
     (let (i, p) = discard_from (chunks b) count (lineChunkIndex b, linePos b) in
      dropConsumedChunks (b\<lparr>lineChunkIndex := i, linePos := p, chunkIndex := i, pos := p\<rparr>))"

section \<open>Events\<close>

record stream_fields =
  sf_data :: "string option"
  sf_event :: "string option"
  sf_id :: "string option"
  sf_retry :: "string option"

definition no_fields :: stream_fields where
  "no_fields = \<lparr>sf_data = None, sf_event = None, sf_id = None, sf_retry = None\<rparr>"

record pushed_event =
  pe_type :: string
  pe_data :: string
  pe_lastEventId :: "string option"
  pe_origin :: "string option"

text \<open>The settings shared with the \<open>EventSource\<close>, and what the stream has done.\<close>

record es_state =
  es_reconnectionTime :: "js_time option"
  es_lastEventId :: "string option"
  es_origin :: "string option"
  es_pushed :: "pushed_event list"
  es_event :: stream_fields
  es_eventDataSize :: nat
  es_failed :: bool

record es_config =
  es_utf8 :: "byte list \<Rightarrow> string"
  es_maxEventSize :: nat

text \<open>\<open>None\<close> is the exception \<open>EventSource message size exceeded\<close>.\<close>

definition parseLine :: "es_config \<Rightarrow> byte list \<Rightarrow> es_state \<Rightarrow> es_state option" where
  "parseLine cf line st =
     (if line = [] then Some st
      else (let colonPosition = length (takeWhile (\<lambda>b. b \<noteq> COLON) line) in
        if colonPosition = 0 then Some st
        else (let found = colonPosition < length line;
                  fieldLength = colonPosition;
                  valueStart = (if found
                                then (if colonPosition + 1 < length line \<and> line ! (colonPosition + 1) = SPACE
                                      then colonPosition + 2 else colonPosition + 1)
                                else length line);
                  value = es_utf8 cf (drop valueStart line);
                  event = es_event st in
          if isFieldName line fieldLength DATA
          then (let valueBytes = length line - valueStart;
                    eventDataSize = es_eventDataSize st + (if sf_data event = None then 0 else 1) + valueBytes in
                if es_maxEventSize cf > 0 \<and> eventDataSize > es_maxEventSize cf then None
                else Some (st\<lparr>es_event := event\<lparr>sf_data := Some (case sf_data event of
                                                  None \<Rightarrow> value | Some d \<Rightarrow> d @ [CHR 0x0A] @ value)\<rparr>,
                              es_eventDataSize := eventDataSize\<rparr>))
          else if isFieldName line fieldLength RETRY
          then Some (if isASCIINumberBytes line valueStart
                     then st\<lparr>es_event := event\<lparr>sf_retry := Some value\<rparr>\<rparr> else st)
          else if isFieldName line fieldLength ID
          then Some (if isValidLastEventIdBytes line valueStart
                     then st\<lparr>es_event := event\<lparr>sf_id := Some value\<rparr>\<rparr> else st)
          else if isFieldName line fieldLength EVENT
          then Some (if value \<noteq> [] then st\<lparr>es_event := event\<lparr>sf_event := Some value\<rparr>\<rparr> else st)
          else Some st)))"

definition processEvent :: "es_state \<Rightarrow> es_state" where
  "processEvent st =
     (let event = es_event st;
          st1 = (case sf_retry event of
                   Some r \<Rightarrow> if r \<noteq> [] \<and> isASCIINumber r then st\<lparr>es_reconnectionTime := Some (parse_digits r)\<rparr> else st
                 | None \<Rightarrow> st);
          st2 = (case sf_id event of
                   Some i \<Rightarrow> if isValidLastEventId i then st1\<lparr>es_lastEventId := Some i\<rparr> else st1
                 | None \<Rightarrow> st1) in
      case sf_data event of
        None \<Rightarrow> st2
      | Some d \<Rightarrow>
          st2\<lparr>es_pushed := es_pushed st2 @
                [\<lparr>pe_type = (case sf_event event of Some t \<Rightarrow> if t = [] then ''message'' else t | None \<Rightarrow> ''message''),
                  pe_data = d, pe_lastEventId = es_lastEventId st2, pe_origin = es_origin st2\<rparr>]\<rparr>)"

definition clearEvent :: "es_state \<Rightarrow> es_state" where
  "clearEvent st = st\<lparr>es_event := no_fields, es_eventDataSize := 0\<rparr>"

definition hasPendingEvent :: "es_state \<Rightarrow> bool" where
  "hasPendingEvent st \<longleftrightarrow> sf_data (es_event st) \<noteq> None \<or> sf_event (es_event st) \<noteq> None \<or>
     sf_id (es_event st) \<noteq> None \<or> sf_retry (es_event st) \<noteq> None"

section \<open>The stream\<close>

record event_stream =
  es_checkBOM :: bool
  es_crlfCheck :: bool
  es_eventEndCheck :: bool
  es_buffer :: chunk_buffer
  es_core :: es_state

definition new_state :: "js_time option \<Rightarrow> string option \<Rightarrow> string option \<Rightarrow> es_state" where
  "new_state time lastEventId origin =
     \<lparr>es_reconnectionTime = time, es_lastEventId = lastEventId, es_origin = origin, es_pushed = [],
      es_event = no_fields, es_eventDataSize = 0, es_failed = False\<rparr>"

definition new_EventSourceStream :: "js_time option \<Rightarrow> string option \<Rightarrow> string option \<Rightarrow> event_stream" where
  "new_EventSourceStream time lastEventId origin =
     \<lparr>es_checkBOM = True, es_crlfCheck = False, es_eventEndCheck = False, es_buffer = empty_buffer,
      es_core = new_state time lastEventId origin\<rparr>"

text \<open>\<open>handleBOM\<close>: whether \<open>_transform\<close> is to wait for more bytes.\<close>

definition handleBOM :: "event_stream \<Rightarrow> bool \<times> event_stream" where
  "handleBOM s =
     (let b = es_buffer s;
          first = peekBufferedByte 0 b; second = peekBufferedByte 1 b; third = peekBufferedByte 2 b in
      if second = None
      then (if first = Some (BOM ! 0) then (True, s) else (True, s\<lparr>es_checkBOM := False\<rparr>))
      else if third = None
      then (if first = Some (BOM ! 0) \<and> second = Some (BOM ! 1) then (True, s) else (False, s\<lparr>es_checkBOM := False\<rparr>))
      else (let s1 = (if first = Some (BOM ! 0) \<and> second = Some (BOM ! 1) \<and> third = Some (BOM ! 2)
                      then s\<lparr>es_buffer := discardLeadingBytes 3 b\<rparr> else s) in
            (\<not> hasCurrentByte (es_buffer s1), s1\<lparr>es_checkBOM := False\<rparr>)))"

text \<open>The turn of the loop of \<open>_transform\<close> behind an empty line or the end of a line.\<close>

definition event_end_turn :: "byte \<Rightarrow> event_stream \<Rightarrow> event_stream" where
  "event_end_turn byte s =
     (if es_crlfCheck s \<and> byte = LF
      then s\<lparr>es_crlfCheck := False, es_buffer := consumeCurrentByte (es_buffer s)\<rparr>
      else (let s1 = s\<lparr>es_crlfCheck := False\<rparr> in
            if byte = LF \<or> byte = CR
            then s1\<lparr>es_crlfCheck := (byte = CR), es_buffer := consumeCurrentByte (es_buffer s1),
                    es_core := clearEvent (if hasPendingEvent (es_core s1) then processEvent (es_core s1) else es_core s1)\<rparr>
            else s1\<lparr>es_eventEndCheck := False\<rparr>))"

text \<open>A turn of the loop; \<open>None\<close> when it is left with an error.\<close>

definition transform_turn :: "es_config \<Rightarrow> event_stream \<Rightarrow> event_stream option" where
  "transform_turn cf s =
     (let byte = currentByte (es_buffer s) in
      if es_eventEndCheck s then Some (event_end_turn byte s)
      else if byte = LF \<or> byte = CR
      then (let s1 = s\<lparr>es_crlfCheck := es_crlfCheck s \<or> byte = CR\<rparr> in
            case parseLine cf (readLine (es_buffer s1)) (es_core s1) of
              None \<Rightarrow> None
            | Some st \<Rightarrow> Some (s1\<lparr>es_core := st, es_buffer := consumeCurrentByte (es_buffer s1), es_eventEndCheck := True\<rparr>))
      else Some (s\<lparr>es_buffer := advanceCursor (es_buffer s)\<rparr>))"

definition fail_stream :: "event_stream \<Rightarrow> event_stream" where
  "fail_stream s = s\<lparr>es_core := (es_core s)\<lparr>es_failed := True\<rparr>\<rparr>"

text \<open>The bytes from the cursor on.\<close>

fun rest_from :: "byte list list \<Rightarrow> nat \<times> nat \<Rightarrow> byte list" where
  "rest_from cs (i, p) = (if i < length cs then drop p (cs ! i) @ concat (drop (i + 1) cs) else [])"

definition buffer_rest :: "chunk_buffer \<Rightarrow> byte list" where
  "buffer_rest b = rest_from (chunks b) (chunkIndex b, pos b)"

lemma concat_drop: "i < length cs \<Longrightarrow> concat (drop i cs) = cs ! i @ concat (drop (Suc i) cs)"
  by (simp add: Cons_nth_drop_Suc [symmetric])

lemma rest_next_chunk: "rest_from cs (next_chunk cs ip) = rest_from cs ip"
proof (induction cs ip rule: next_chunk.induct)
  case (1 cs i p)
  then show ?case
    by (cases "Suc i < length cs") (auto simp: next_chunk.simps [of cs i p] concat_drop)
qed

lemma rest_advance: "hasCurrentByte b \<Longrightarrow> buffer_rest b = currentByte b # buffer_rest (advanceCursor b)"
  using rest_next_chunk [of "chunks b" "(chunkIndex b, pos b + 1)"]
  by (cases "next_chunk (chunks b) (chunkIndex b, pos b + 1)")
    (simp add: buffer_rest_def advanceCursor_def hasCurrentByte_def currentByte_def Cons_nth_drop_Suc)

lemma shift_chunks_fields:
  "chunks (shift_chunks n b) = drop n (chunks b)" "chunkIndex (shift_chunks n b) = chunkIndex b - n"
  "lineChunkIndex (shift_chunks n b) = lineChunkIndex b - n"
  "pos (shift_chunks n b) = pos b" "linePos (shift_chunks n b) = linePos b"
  by (induction n arbitrary: b) (simp_all add: drop_Suc)

lemma rest_drop_chunks: "lineChunkIndex b \<le> chunkIndex b \<Longrightarrow> buffer_rest (dropConsumedChunks b) = buffer_rest b"
  by (auto simp: dropConsumedChunks_def Let_def buffer_rest_def shift_chunks_fields empty_buffer_def)

lemma rest_consume: "hasCurrentByte b \<Longrightarrow> buffer_rest b = currentByte b # buffer_rest (consumeCurrentByte b)"
proof -
  have "buffer_rest (syncLineStartToCursor a) = buffer_rest a" for a
    by (simp add: syncLineStartToCursor_def rest_drop_chunks) (simp add: buffer_rest_def)
  then show "hasCurrentByte b \<Longrightarrow> ?thesis" by (simp add: consumeCurrentByte_def rest_advance)
qed

text \<open>A turn takes a byte, or the flag of an event's end goes down.\<close>

definition stream_weight :: "event_stream \<Rightarrow> nat" where
  "stream_weight s = 2 * length (buffer_rest (es_buffer s)) + (if es_eventEndCheck s then 1 else 0)"

lemma turn_weight:
  assumes "hasCurrentByte (es_buffer s)" "transform_turn cf s = Some s'"
  shows "stream_weight s' < stream_weight s"
  using assms(2) rest_consume [OF assms(1)] rest_advance [OF assms(1)]
  by (auto simp: transform_turn_def event_end_turn_def stream_weight_def Let_def split: if_splits option.splits)

function transform_loop :: "es_config \<Rightarrow> event_stream \<Rightarrow> event_stream" where
  "transform_loop cf s =
     (if hasCurrentByte (es_buffer s)
      then (case transform_turn cf s of None \<Rightarrow> fail_stream s | Some s' \<Rightarrow> transform_loop cf s')
      else s)"
  by pat_completeness auto
termination by (relation "measure (\<lambda>(cf, s). stream_weight s)") (auto simp: turn_weight)

declare transform_loop.simps [simp del]

definition es_transform :: "es_config \<Rightarrow> event_stream \<Rightarrow> byte list \<Rightarrow> event_stream" where
  "es_transform cf s chunk =
     (if es_failed (es_core s) \<or> chunk = [] then s
      else (let s1 = s\<lparr>es_buffer := push_bytes chunk (es_buffer s)\<rparr>;
                (wait, s2) = (if es_checkBOM s1 then handleBOM s1 else (False, s1)) in
            if wait then s2 else transform_loop cf s2))"

section \<open>What the chunks and cursors mean\<close>

text \<open>The bytes of the line so far, and the invariant of the buffer between two turns.\<close>

definition buffer_line :: "chunk_buffer \<Rightarrow> byte list" where
  "buffer_line b = drop (linePos b) (concat (take (chunkIndex b) (chunks b)) @ take (pos b) (chunks b ! chunkIndex b))"

definition sound_buffer :: "chunk_buffer \<Rightarrow> bool" where
  "sound_buffer b \<longleftrightarrow>
     [] \<notin> set (chunks b) \<and> lineChunkIndex b = 0 \<and>
     (if chunkIndex b < length (chunks b) then pos b < length (chunks b ! chunkIndex b)
      else chunkIndex b = length (chunks b) \<and> pos b = 0) \<and>
     (if chunkIndex b = 0 then linePos b \<le> pos b else linePos b \<le> length (chunks b ! 0))"

lemma sound_empty [simp]: "sound_buffer empty_buffer" "buffer_line empty_buffer = []" "buffer_rest empty_buffer = []"
  by (simp_all add: sound_buffer_def empty_buffer_def buffer_line_def buffer_rest_def)

lemma has_byte: "sound_buffer b \<Longrightarrow> hasCurrentByte b \<longleftrightarrow> buffer_rest b \<noteq> []"
  by (auto simp: sound_buffer_def hasCurrentByte_def buffer_rest_def split: if_splits)

lemma sound_push:
  assumes "sound_buffer b" "chunk \<noteq> []"
  shows "sound_buffer (push_bytes chunk b)" "buffer_line (push_bytes chunk b) = buffer_line b"
    "buffer_rest (push_bytes chunk b) = buffer_rest b @ chunk"
  using assms
  by (auto simp: sound_buffer_def push_bytes_def nth_append buffer_line_def buffer_rest_def split: if_splits)

lemma nth_nonempty: "[] \<notin> set cs \<Longrightarrow> i < length cs \<Longrightarrow> cs ! i \<noteq> []"
  by (metis nth_mem)

lemma next_chunk_sound:
  assumes "[] \<notin> set cs" "i < length cs" "p < length (cs ! i)"
  shows "next_chunk cs (i, p + 1) = (if p + 1 < length (cs ! i) then (i, p + 1) else (i + 1, 0))"
proof -
  have "next_chunk cs (Suc i, 0) = (Suc i, 0)"
    using nth_nonempty [OF assms(1), of "Suc i"] by (auto simp: next_chunk.simps [of cs "Suc i"])
  then show ?thesis using assms by (simp add: next_chunk.simps [of cs i])
qed

lemma sound_advance:
  assumes "sound_buffer b" "hasCurrentByte b"
  shows "sound_buffer (advanceCursor b)" "buffer_line (advanceCursor b) = buffer_line b @ [currentByte b]"
proof -
  have i: "[] \<notin> set (chunks b)" "chunkIndex b < length (chunks b)" "pos b < length (chunks b ! chunkIndex b)"
    using assms by (auto simp: sound_buffer_def hasCurrentByte_def)
  have n: "advanceCursor b = (if pos b + 1 < length (chunks b ! chunkIndex b) then b\<lparr>pos := pos b + 1\<rparr>
      else b\<lparr>chunkIndex := chunkIndex b + 1, pos := 0\<rparr>)"
    using next_chunk_sound [OF i] by (simp add: advanceCursor_def)
  show "sound_buffer (advanceCursor b)"
    using assms(1) i nth_nonempty [OF i(1)] by (auto simp: n sound_buffer_def split: if_splits)
  have l: "linePos b \<le> length (concat (take (chunkIndex b) (chunks b)) @ take (pos b) (chunks b ! chunkIndex b))"
  proof (cases "chunkIndex b")
    case 0
    then show ?thesis using assms(1) i by (simp add: sound_buffer_def)
  next
    case (Suc k)
    then have "chunks b = hd (chunks b) # tl (chunks b)" "hd (chunks b) = chunks b ! 0"
      using i(2) by (cases "chunks b"; simp)+
    then have "concat (take (chunkIndex b) (chunks b)) = chunks b ! 0 @ concat (take k (tl (chunks b)))"
      using Suc by (metis concat.simps(2) take_Suc_Cons)
    then show ?thesis using Suc assms(1) by (simp add: sound_buffer_def)
  qed
  show "buffer_line (advanceCursor b) = buffer_line b @ [currentByte b]"
  proof (cases "pos b + 1 < length (chunks b ! chunkIndex b)")
    case True
    then show ?thesis using l i
      by (simp add: n buffer_line_def currentByte_def take_Suc_conv_app_nth)
  next
    case False
    then have "chunks b ! chunkIndex b = take (pos b) (chunks b ! chunkIndex b) @ [chunks b ! chunkIndex b ! pos b]"
      using i(3) by (metis Suc_eq_plus1 Suc_leI le_antisym not_less take_Suc_conv_app_nth take_all_iff)
    then have "concat (take (Suc (chunkIndex b)) (chunks b)) =
        concat (take (chunkIndex b) (chunks b)) @ take (pos b) (chunks b ! chunkIndex b) @ [currentByte b]"
      using i(2) by (simp add: take_Suc_conv_app_nth currentByte_def)
    then show ?thesis using False l by (simp add: n buffer_line_def)
  qed
qed

lemma sound_drop:
  assumes "[] \<notin> set (chunks b)"
    "if chunkIndex b < length (chunks b) then pos b < length (chunks b ! chunkIndex b) else chunkIndex b = length (chunks b) \<and> pos b = 0"
    "lineChunkIndex b = chunkIndex b" "linePos b = pos b"
  shows "sound_buffer (dropConsumedChunks b)" "buffer_line (dropConsumedChunks b) = []"
proof -
  let ?k = "chunkIndex b"
  have f: "chunks (shift_chunks ?k b) = drop ?k (chunks b)" "chunkIndex (shift_chunks ?k b) = 0"
    "lineChunkIndex (shift_chunks ?k b) = 0" "pos (shift_chunks ?k b) = pos b" "linePos (shift_chunks ?k b) = pos b"
    using assms(3,4) by (simp_all add: shift_chunks_fields)
  show "sound_buffer (dropConsumedChunks b)"
    using assms by (auto simp: sound_buffer_def dropConsumedChunks_def f Let_def empty_buffer_def dest: in_set_dropD split: if_splits)
  show "buffer_line (dropConsumedChunks b) = []"
    using assms by (simp add: dropConsumedChunks_def f Let_def empty_buffer_def buffer_line_def)
qed

lemma sound_consume:
  assumes "sound_buffer b" "hasCurrentByte b"
  shows "sound_buffer (consumeCurrentByte b)" "buffer_line (consumeCurrentByte b) = []"
proof -
  let ?a = "advanceCursor b"
  have "sound_buffer ?a" using sound_advance [OF assms] by simp
  then show "sound_buffer (consumeCurrentByte b)" "buffer_line (consumeCurrentByte b) = []"
    unfolding consumeCurrentByte_def syncLineStartToCursor_def
    by (simp_all add: sound_drop sound_buffer_def [of ?a])
qed

lemma readLine_line:
  assumes "sound_buffer b" "hasCurrentByte b"
  shows "readLine b = buffer_line b"
proof (cases "chunkIndex b")
  case 0
  then show ?thesis using assms
    by (simp add: readLine_def sound_buffer_def subarray_def buffer_line_def)
next
  case (Suc k)
  have i: "lineChunkIndex b = 0" "Suc k < length (chunks b)" "linePos b \<le> length (chunks b ! 0)"
    using assms Suc by (auto simp: sound_buffer_def hasCurrentByte_def)
  have m: "map (line_slice b) [1..<Suc k] = map ((!) (chunks b)) [1..<Suc k]"
    by (rule map_cong) (use Suc i in \<open>auto simp: line_slice_def subarray_def Let_def\<close>)
  have t: "take (Suc k) (chunks b) = chunks b ! 0 # map ((!) (chunks b)) [1..<Suc k]"
  proof -
    have "take (Suc k) (map ((!) (chunks b)) [0..<length (chunks b)]) = map ((!) (chunks b)) [0..<Suc k]"
      using i(2) by (simp add: take_map del: map_nth)
    then have "take (Suc k) (chunks b) = map ((!) (chunks b)) [0..<Suc k]" by (simp add: map_nth)
    then show ?thesis by (simp only: upt_conv_Cons [OF zero_less_Suc] list.map One_nat_def)
  qed
  have "[0..<Suc (Suc k)] = 0 # [1..<Suc k] @ [Suc k]" by (simp add: upt_conv_Cons)
  then have "readLine b = drop (linePos b) (chunks b ! 0) @ concat (map (line_slice b) [1..<Suc k]) @ take (pos b) (chunks b ! Suc k)"
    using Suc i by (simp add: readLine_def line_slice_def subarray_def)
  then show ?thesis unfolding m using Suc i by (simp add: buffer_line_def t del: upt_Suc)
qed

text \<open>Before the first byte is read, all bytes are behind the cursors.\<close>

definition untouched_buffer :: "chunk_buffer \<Rightarrow> bool" where
  "untouched_buffer b \<longleftrightarrow> chunkIndex b = 0 \<and> pos b = 0 \<and> linePos b = 0"

lemma peek_from_spec: "p \<le> length (concat (take 1 cs)) \<Longrightarrow>
  peek_from cs p n = (if n < length (drop p (concat cs)) then Some (drop p (concat cs) ! n) else None)"
proof (induction cs p n rule: peek_from.induct)
  case (2 chunk cs p n)
  then show ?case by (auto simp: Let_def nth_append less_diff_conv)
qed simp

lemma untouched_rest: "untouched_buffer b \<Longrightarrow> buffer_rest b = concat (chunks b)"
  by (cases "chunks b") (simp_all add: untouched_buffer_def buffer_rest_def)

lemma peek_untouched:
  assumes "sound_buffer b" "untouched_buffer b"
  shows "peekBufferedByte n b = (if n < length (buffer_rest b) then Some (buffer_rest b ! n) else None)"
  using assms untouched_rest [OF assms(2)]
  by (simp add: peekBufferedByte_def peek_from_spec sound_buffer_def untouched_buffer_def)

lemma rest_from_next: "i < length cs \<Longrightarrow> rest_from cs (i, p) = drop p (cs ! i) @ rest_from cs (Suc i, 0)"
  by (cases "Suc i < length cs") (simp_all add: concat_drop)

lemma discard_from_spec:
  assumes "[] \<notin> set cs" "n \<le> length (rest_from cs ip)"
    "if fst ip < length cs then snd ip < length (cs ! fst ip) else fst ip = length cs \<and> snd ip = 0"
    "discard_from cs n ip = (i, p)"
  shows "rest_from cs (i, p) = drop n (rest_from cs ip) \<and>
    (if i < length cs then p < length (cs ! i) else i = length cs \<and> p = 0)"
  using assms
proof (induction cs n ip rule: discard_from.induct)
  case (1 cs n j q)
  let ?r = "length (cs ! j) - q"
  have d: "discard_from cs n (j, q) =
      (if n > 0 \<and> j < length cs
       then (if n < ?r then (j, q + n) else discard_from cs (n - ?r) (Suc j, 0))
       else (j, q))"
    by (simp add: discard_from.simps [of cs n] discard_from.simps [of cs 0])
  show ?case
  proof (cases "n > 0 \<and> j < length cs \<and> \<not> n < ?r")
    case True
    then have j: "rest_from cs (j, q) = drop q (cs ! j) @ rest_from cs (Suc j, 0)" by (simp only: rest_from_next)
    have "rest_from cs (i, p) = drop (n - ?r) (rest_from cs (Suc j, 0)) \<and>
        (if i < length cs then p < length (cs ! i) else i = length cs \<and> p = 0)"
    proof (rule "1.IH"(2) [of ?r, unfolded fst_conv snd_conv Suc_eq_plus1 [symmetric]])
      show "n - ?r \<le> length (rest_from cs (Suc j, 0))"
        using "1.prems"(2) j by (simp del: rest_from.simps)
      show "discard_from cs (n - ?r) (Suc j, 0) = (i, p)" using "1.prems"(4) d True by simp
    qed (use True "1.prems"(1,3) nth_nonempty [of cs "Suc j"] in \<open>auto split: if_splits\<close>)
    moreover have "length (cs ! j) \<le> n + q" using True by arith
    ultimately show ?thesis using j by (simp del: rest_from.simps)
  next
    case False
    then show ?thesis using "1.prems" d by (auto simp: add.commute split: if_splits)
  qed
qed

lemma discard_leading:
  assumes "sound_buffer b" "untouched_buffer b" "n \<le> length (buffer_rest b)"
  shows "sound_buffer (discardLeadingBytes n b) \<and> buffer_line (discardLeadingBytes n b) = [] \<and>
    buffer_rest (discardLeadingBytes n b) = drop n (buffer_rest b)"
proof -
  have u: "[] \<notin> set (chunks b)" "lineChunkIndex b = 0" "chunkIndex b = 0" "pos b = 0" "linePos b = 0"
    using assms(1,2) by (simp_all add: sound_buffer_def untouched_buffer_def)
  obtain i p where ip: "discard_from (chunks b) n (0, 0) = (i, p)" by force
  have r: "rest_from (chunks b) (i, p) = drop n (rest_from (chunks b) (0, 0)) \<and>
      (if i < length (chunks b) then p < length (chunks b ! i) else i = length (chunks b) \<and> p = 0)"
    using assms(3) u nth_nonempty [OF u(1), of 0]
    by (intro discard_from_spec [OF u(1) _ _ ip]) (auto simp: buffer_rest_def simp del: rest_from.simps)
  let ?d = "b\<lparr>lineChunkIndex := i, linePos := p, chunkIndex := i, pos := p\<rparr>"
  have d: "discardLeadingBytes n b = dropConsumedChunks ?d"
    using u ip by (simp add: discardLeadingBytes_def)
  have "sound_buffer (dropConsumedChunks ?d)" "buffer_line (dropConsumedChunks ?d) = []"
    by (rule sound_drop; use u r in simp)+
  moreover have "buffer_rest (dropConsumedChunks ?d) = drop n (buffer_rest b)"
    using r u by (subst rest_drop_chunks) (simp_all add: buffer_rest_def del: rest_from.simps)
  ultimately show ?thesis by (simp add: d)
qed

section \<open>The stream, byte by byte\<close>

text \<open>
  What a stream is without its buffer: whether a line feed is to be skipped, whether it is at the end of a
  line, the bytes of the line so far, and the core.
\<close>

type_synonym byte_state = "bool \<times> bool \<times> byte list \<times> es_state"

fun take_byte :: "es_config \<Rightarrow> byte_state \<Rightarrow> byte \<Rightarrow> byte_state" where
  "take_byte cf (crlf, eol, line, st) b =
     (if es_failed st then (crlf, eol, line, st)
      else if eol
      then (if crlf \<and> b = LF then (False, True, [], st)
            else if b = LF \<or> b = CR
            then (b = CR, True, [], clearEvent (if hasPendingEvent st then processEvent st else st))
            else (False, False, [b], st))
      else if b = LF \<or> b = CR
      then (case parseLine cf line st of
              None \<Rightarrow> (crlf, eol, line, st\<lparr>es_failed := True\<rparr>) | Some st' \<Rightarrow> (b = CR, True, [], st'))
      else (False, False, line @ [b], st))"

lemma failed_stays: "es_failed st \<Longrightarrow> foldl (take_byte cf) (c, e, l, st) bs = (c, e, l, st)"
  by (induction bs) simp_all

definition stream_view :: "event_stream \<Rightarrow> byte_state" where
  "stream_view s = (es_crlfCheck s, es_eventEndCheck s, buffer_line (es_buffer s), es_core s)"

text \<open>At the end of a line no byte of the next one is read, and only there a line feed may be skipped.\<close>

definition sound_stream :: "event_stream \<Rightarrow> bool" where
  "sound_stream s \<longleftrightarrow> sound_buffer (es_buffer s) \<and>
     (if es_eventEndCheck s then buffer_line (es_buffer s) = [] else \<not> es_crlfCheck s)"

lemma parseLine_keeps_failed: "parseLine cf l st = Some st' \<Longrightarrow> es_failed st' = es_failed st"
  by (auto simp: parseLine_def Let_def split: if_splits)

lemma processEvent_keeps_failed [simp]: "es_failed (processEvent st) = es_failed st" "es_failed (clearEvent st) = es_failed st"
  by (simp_all add: processEvent_def clearEvent_def Let_def split: option.split)

text \<open>Two turns at the end of a line that a byte of the next follows, one turn otherwise: together one byte.\<close>

lemma loop_is_fold:
  assumes "sound_stream s" "\<not> es_failed (es_core s)"
  shows "let s' = transform_loop cf s; a = foldl (take_byte cf) (stream_view s) (buffer_rest (es_buffer s)) in
    if es_failed (snd (snd (snd a))) then es_core s' = snd (snd (snd a))
    else sound_stream s' \<and> stream_view s' = a \<and> buffer_rest (es_buffer s') = [] \<and> es_checkBOM s' = es_checkBOM s"
  using assms
proof (induction s rule: measure_induct_rule [of stream_weight])
  case (less s)
  let ?b = "es_buffer s"
  have sb: "sound_buffer ?b" using less.prems by (simp add: sound_stream_def)
  show ?case
  proof (cases "hasCurrentByte ?b")
    case False
    then show ?thesis using less.prems has_byte [OF sb]
      by (simp add: transform_loop.simps [of cf s] stream_view_def Let_def)
  next
    case True
    note rest = rest_advance [OF True] rest_consume [OF True]
    note sound = sound_advance [OF sb True] sound_consume [OF sb True] readLine_line [OF sb True]
    show ?thesis
    proof (cases "transform_turn cf s")
      case None
      then have "\<not> es_eventEndCheck s" "currentByte ?b = LF \<or> currentByte ?b = CR" "parseLine cf (buffer_line ?b) (es_core s) = None"
        using sound by (auto simp: transform_turn_def Let_def split: if_splits option.splits)
      then have "foldl (take_byte cf) (stream_view s) (buffer_rest ?b) =
          (es_crlfCheck s, es_eventEndCheck s, buffer_line ?b, (es_core s)\<lparr>es_failed := True\<rparr>)"
        using less.prems(2) by (subst rest(1)) (simp add: stream_view_def failed_stays)
      then show ?thesis using True None by (simp add: transform_loop.simps [of cf s] fail_stream_def)
    next
      case (Some t)
      have t: "sound_stream t \<and> \<not> es_failed (es_core t) \<and> es_checkBOM t = es_checkBOM s \<and>
          foldl (take_byte cf) (stream_view t) (buffer_rest (es_buffer t)) =
          foldl (take_byte cf) (stream_view s) (buffer_rest ?b)"
      proof (cases "es_eventEndCheck s")
        case True
        then have "buffer_line ?b = []" using less.prems by (simp add: sound_stream_def)
        then show ?thesis using True Some less.prems sound rest
          by (cases "currentByte ?b = LF"; cases "currentByte ?b = CR"; cases "es_crlfCheck s")
            (auto simp: transform_turn_def event_end_turn_def Let_def sound_stream_def stream_view_def)
      next
        case False
        show ?thesis
        proof (cases "currentByte ?b = LF \<or> currentByte ?b = CR")
          case True
          then obtain st where st: "parseLine cf (buffer_line ?b) (es_core s) = Some st"
            "t = s\<lparr>es_crlfCheck := es_crlfCheck s \<or> currentByte ?b = CR, es_core := st,
               es_buffer := consumeCurrentByte ?b, es_eventEndCheck := True\<rparr>"
            using Some False sound by (auto simp: transform_turn_def Let_def split: option.splits)
          with True False less.prems sound show ?thesis
            by (subst rest(2)) (auto simp: sound_stream_def stream_view_def parseLine_keeps_failed)
        next
          case brk: False
          then have "t = s\<lparr>es_buffer := advanceCursor ?b\<rparr>" using Some False by (simp add: transform_turn_def)
          with brk False less.prems sound show ?thesis
            by (subst rest(1)) (auto simp: sound_stream_def stream_view_def)
        qed
      qed
      show ?thesis
        using less.IH [OF turn_weight [OF True Some]] t True Some
        by (simp add: transform_loop.simps [of cf s] Let_def)
    qed
  qed
qed

section \<open>The byte-order mark\<close>

definition strip_bom :: "byte list \<Rightarrow> byte list" where
  "strip_bom bs = (if take 3 bs = BOM then drop 3 bs else bs)"

text \<open>Bytes that are no proper part of the mark.\<close>

definition decided :: "byte list \<Rightarrow> bool" where
  "decided bs \<longleftrightarrow> bs \<noteq> [] \<and> bs \<noteq> [239] \<and> bs \<noteq> [239, 187]"

lemma strip_bom_decided: "decided bs \<Longrightarrow> strip_bom (bs @ c) = strip_bom bs @ c"
  by (cases bs; cases "tl bs"; cases "tl (tl bs)"; cases c) (auto simp: decided_def strip_bom_def BOM_def)

lemma undecided_cases: "\<not> decided bs \<Longrightarrow> bs = [] \<or> bs = [239] \<or> bs = [239, 187]"
  by (auto simp: decided_def)

definition start_state :: "es_state \<Rightarrow> byte_state" where
  "start_state st = (False, False, [], st)"

definition stream_result :: "es_config \<Rightarrow> es_state \<Rightarrow> byte list \<Rightarrow> byte_state" where
  "stream_result cf st bs = foldl (take_byte cf) (start_state st) (strip_bom bs)"

definition core_of :: "byte_state \<Rightarrow> es_state" where
  "core_of a = snd (snd (snd a))"

text \<open>A stream \<open>s\<close> that was given \<open>bs\<close>: it failed, it is past the mark, or it waits for the rest of it.\<close>

definition given :: "es_config \<Rightarrow> es_state \<Rightarrow> byte list \<Rightarrow> event_stream \<Rightarrow> bool" where
  "given cf st bs s \<longleftrightarrow>
     decided bs \<and> es_failed (es_core s) \<and> es_core s = core_of (stream_result cf st bs) \<or>
     decided bs \<and> \<not> es_checkBOM s \<and> sound_stream s \<and> \<not> es_failed (es_core s) \<and>
       foldl (take_byte cf) (stream_view s) (buffer_rest (es_buffer s)) = stream_result cf st bs \<and>
       (buffer_rest (es_buffer s) = [] \<or> stream_view s = start_state st \<and> length (buffer_rest (es_buffer s)) = 1) \<or>
     \<not> decided bs \<and> es_checkBOM s \<and> sound_stream s \<and> untouched_buffer (es_buffer s) \<and>
       stream_view s = start_state st \<and> buffer_rest (es_buffer s) = bs"

lemma given_core:
  assumes "given cf st bs s" "\<not> es_failed st"
  shows "es_core s = core_of (stream_result cf st bs)"
proof -
  have [simp]: "parseLine cf [] st = Some st" by (simp add: parseLine_def)
  have core: "es_core s = core_of (stream_view s)" by (simp add: stream_view_def core_of_def)
  have one: "core_of (take_byte cf (start_state st) b) = st" for b
    using assms(2) by (simp add: start_state_def core_of_def)
  show ?thesis
  proof (cases "decided bs")
    case True
    show ?thesis
    proof (cases "es_failed (es_core s) \<or> buffer_rest (es_buffer s) = []")
      case f: True
      then show ?thesis using assms(1) True core by (auto simp: given_def)
    next
      case f: False
      then obtain b where "buffer_rest (es_buffer s) = [b]" "stream_view s = start_state st"
        "foldl (take_byte cf) (stream_view s) (buffer_rest (es_buffer s)) = stream_result cf st bs"
        using assms(1) True by (auto simp: given_def length_Suc_conv)
      then show ?thesis using one [of b] core by (simp add: start_state_def core_of_def)
    qed
  next
    case False
    then show ?thesis using assms core undecided_cases [OF False]
      by (auto simp: given_def stream_result_def start_state_def core_of_def strip_bom_def BOM_def LF_def CR_def)
  qed
qed

lemma given_loop:
  assumes "decided bs" "\<not> es_checkBOM s" "sound_stream s" "\<not> es_failed (es_core s)"
    "foldl (take_byte cf) (stream_view s) (buffer_rest (es_buffer s)) = stream_result cf st bs"
  shows "given cf st bs (transform_loop cf s)"
proof -
  let ?s = "transform_loop cf s"
  have "if es_failed (core_of (stream_result cf st bs)) then es_core ?s = core_of (stream_result cf st bs)
      else sound_stream ?s \<and> stream_view ?s = stream_result cf st bs \<and> buffer_rest (es_buffer ?s) = [] \<and> \<not> es_checkBOM ?s"
    using loop_is_fold [OF assms(3,4), of cf] assms(2,5) by (simp add: Let_def core_of_def)
  moreover have "es_core ?s = core_of (stream_view ?s)" by (simp add: stream_view_def core_of_def)
  ultimately show ?thesis using assms(1) by (auto simp: given_def split: if_splits)
qed

lemma checkBOM_apart [simp]:
  "sound_stream (s\<lparr>es_checkBOM := c\<rparr>) = sound_stream s" "stream_view (s\<lparr>es_checkBOM := c\<rparr>) = stream_view s"
  by (simp_all add: sound_stream_def stream_view_def)

lemma sound_stream_push:
  assumes "sound_stream s" "chunk \<noteq> []"
  shows "sound_stream (s\<lparr>es_buffer := push_bytes chunk (es_buffer s)\<rparr>)"
    "stream_view (s\<lparr>es_buffer := push_bytes chunk (es_buffer s)\<rparr>) = stream_view s"
  using assms sound_push [of "es_buffer s" chunk] by (simp_all add: sound_stream_def stream_view_def)

lemma given_bom:
  assumes "\<not> decided bs" "es_checkBOM s" "sound_stream s" "untouched_buffer (es_buffer s)"
    "stream_view s = start_state st" "buffer_rest (es_buffer s) = bs" "chunk \<noteq> []" "\<not> es_failed st"
  shows "given cf st (bs @ chunk) (es_transform cf s chunk)"
proof -
  let ?s = "s\<lparr>es_buffer := push_bytes chunk (es_buffer s)\<rparr>"
  let ?b = "es_buffer ?s" and ?bs = "bs @ chunk"
  have b: "sound_buffer ?b" "buffer_rest ?b = ?bs" "untouched_buffer ?b"
    using assms sound_push [of "es_buffer s" chunk] by (simp_all add: sound_stream_def untouched_buffer_def push_bytes_def)
  have s: "sound_stream ?s" "stream_view ?s = start_state st" "es_core s = st"
    using sound_stream_push [OF assms(3,7)] assms(5) by (simp_all add: stream_view_def start_state_def)
  note peek = peek_untouched [OF b(1,3), unfolded b(2)]
  have t: "es_transform cf s chunk = (let (wait, s2) = handleBOM ?s in if wait then s2 else transform_loop cf s2)"
    using assms s by (simp add: es_transform_def)
  have plain: "given cf st ?bs (transform_loop cf (?s\<lparr>es_checkBOM := False\<rparr>))" if "decided ?bs" "strip_bom ?bs = ?bs"
    using that s b assms(8)
    by (intro given_loop) (simp_all add: stream_result_def)
  have ne: "?bs \<noteq> []" using assms(7) by simp
  consider (one) x where "?bs = [x]" | (two) x y where "?bs = [x, y]" | (more) x y z r where "?bs = x # y # z # r"
    using ne by (cases ?bs; cases "tl ?bs"; cases "tl (tl ?bs)") auto
  then show ?thesis
  proof cases
    case one
    with peek have "es_transform cf s chunk = (if x = 239 then ?s else ?s\<lparr>es_checkBOM := False\<rparr>)"
      by (simp add: t handleBOM_def BOM_def)
    then show ?thesis using s b assms one
      by (auto simp: given_def decided_def sound_stream_def stream_view_def stream_result_def strip_bom_def BOM_def)
  next
    case two
    with peek have "es_transform cf s chunk =
        (if x = 239 \<and> y = 187 then ?s else transform_loop cf (?s\<lparr>es_checkBOM := False\<rparr>))"
      by (simp add: t handleBOM_def BOM_def Let_def)
    moreover have "given cf st ?bs ?s" if "x = 239 \<and> y = 187"
      using that s b assms two by (auto simp: given_def decided_def)
    moreover have "\<not> (x = 239 \<and> y = 187) \<Longrightarrow> decided ?bs" "strip_bom ?bs = ?bs"
      using two by (auto simp: decided_def strip_bom_def BOM_def)
    ultimately show ?thesis using plain by simp
  next
    case more
    have d: "decided ?bs" using more by (simp add: decided_def)
    show ?thesis
    proof (cases "x = 239 \<and> y = 187 \<and> z = 191")
      case False
      with peek more has_byte [OF b(1)] b(2) have "es_transform cf s chunk = transform_loop cf (?s\<lparr>es_checkBOM := False\<rparr>)"
        by (auto simp: t handleBOM_def BOM_def)
      moreover have "strip_bom ?bs = ?bs" using more False by (simp add: strip_bom_def BOM_def)
      ultimately show ?thesis using plain [OF d] by simp
    next
      case True
      let ?d = "discardLeadingBytes 3 ?b" and ?t = "s\<lparr>es_buffer := discardLeadingBytes 3 ?b, es_checkBOM := False\<rparr>"
      have f: "sound_buffer ?d" "buffer_line ?d = []" "buffer_rest ?d = r" "strip_bom ?bs = r"
        using discard_leading [OF b(1,3), of 3] b(2) more True by (auto simp: strip_bom_def BOM_def)
      have tt: "es_transform cf s chunk = (if r = [] then ?t else transform_loop cf ?t)"
        using peek more True has_byte [OF f(1)] f(3) by (simp add: t handleBOM_def BOM_def)
      have v: "sound_stream ?t" "stream_view ?t = start_state st" "foldl (take_byte cf) (stream_view ?t) (buffer_rest (es_buffer ?t)) = stream_result cf st ?bs"
        using f s assms(5) by (auto simp: sound_stream_def stream_view_def start_state_def stream_result_def)
      have "given cf st ?bs ?t" if "r = []" using that v d f s assms(8) by (auto simp: given_def)
      moreover have "given cf st ?bs (transform_loop cf ?t)" using v d s assms(8) by (intro given_loop) simp_all
      ultimately show ?thesis by (simp add: tt)
    qed
  qed
qed

lemma given_transform:
  assumes "given cf st bs s" "\<not> es_failed st"
  shows "given cf st (bs @ chunk) (es_transform cf s chunk)"
proof (cases "chunk = []")
  case True
  then show ?thesis using assms(1) by (simp add: es_transform_def)
next
  case c: False
  show ?thesis
  proof (cases "decided bs")
    case False
    with assms(1) have "es_checkBOM s" "sound_stream s" "untouched_buffer (es_buffer s)"
      "stream_view s = start_state st" "buffer_rest (es_buffer s) = bs" by (simp_all add: given_def)
    from given_bom [OF False this c assms(2)] show ?thesis .
  next
    case True
    then have d: "decided (bs @ chunk)" using undecided_cases [of "bs @ chunk"] c by (auto simp: decided_def append_eq_Cons_conv)
    have r: "stream_result cf st (bs @ chunk) = foldl (take_byte cf) (stream_result cf st bs) chunk"
      by (simp add: stream_result_def strip_bom_decided [OF True])
    show ?thesis
    proof (cases "es_failed (es_core s)")
      case f: True
      then have core: "es_core s = core_of (stream_result cf st bs)" using assms True by (simp add: given_core)
      then have "core_of (stream_result cf st (bs @ chunk)) = es_core s"
        using f failed_stays by (cases "stream_result cf st bs") (simp add: r core_of_def)
      then show ?thesis using f d by (simp add: given_def es_transform_def)
    next
      case f: False
      then have g: "\<not> es_checkBOM s" "sound_stream s"
        "foldl (take_byte cf) (stream_view s) (buffer_rest (es_buffer s)) = stream_result cf st bs"
        using assms True by (auto simp: given_def)
      let ?s = "s\<lparr>es_buffer := push_bytes chunk (es_buffer s)\<rparr>"
      have "es_transform cf s chunk = transform_loop cf ?s" using f c g by (simp add: es_transform_def)
      moreover have "given cf st (bs @ chunk) (transform_loop cf ?s)"
        using g f d r sound_stream_push [OF g(2) c] sound_push [of "es_buffer s" chunk] c
        by (intro given_loop) (simp_all add: sound_stream_def)
      ultimately show ?thesis by simp
    qed
  qed
qed

lemma given_all: "\<not> es_failed st \<Longrightarrow> given cf st bs s \<Longrightarrow> given cf st (bs @ concat pieces) (foldl (es_transform cf) s pieces)"
proof (induction pieces arbitrary: bs s)
  case (Cons c cs)
  from Cons.IH [OF Cons.prems(1) given_transform [OF Cons.prems(2,1), of c]] show ?case by simp
qed simp

lemma given_new: "given cf (new_state t i origin) [] (new_EventSourceStream t i origin)"
  by (simp add: given_def decided_def new_EventSourceStream_def sound_stream_def untouched_buffer_def
      stream_view_def start_state_def) (simp add: empty_buffer_def)

section \<open>The stream, line by line\<close>

text \<open>
  The lines of a text that are complete: each ends with a line feed, a carriage return or both; \<open>skip\<close>
  tells that the last byte was a carriage return, \<open>line\<close> is the line so far.
\<close>

fun stream_lines :: "bool \<Rightarrow> byte list \<Rightarrow> byte list \<Rightarrow> byte list list" where
  "stream_lines skip line [] = []"
| "stream_lines skip line (b # bs) =
     (if skip \<and> b = LF then stream_lines False line bs
      else if b = LF \<or> b = CR then line # stream_lines (b = CR) [] bs
      else stream_lines False (line @ [b]) bs)"

text \<open>A line is a field, or it is empty and ends the event.\<close>

definition line_step :: "es_config \<Rightarrow> es_state \<Rightarrow> byte list \<Rightarrow> es_state" where
  "line_step cf st line =
     (if es_failed st then st
      else if line = [] then clearEvent (if hasPendingEvent st then processEvent st else st)
      else (case parseLine cf line st of None \<Rightarrow> st\<lparr>es_failed := True\<rparr> | Some st' \<Rightarrow> st'))"

definition no_event :: "es_state \<Rightarrow> bool" where
  "no_event st \<longleftrightarrow> es_event st = no_fields \<and> es_eventDataSize st = 0"

lemma line_step_blank: "no_event st \<Longrightarrow> line_step cf st [] = st"
  by (simp add: line_step_def no_event_def hasPendingEvent_def no_fields_def clearEvent_def)

lemma failed_lines: "es_failed st \<Longrightarrow> foldl (line_step cf) st ls = st"
  by (induction ls) (simp_all add: line_step_def)

lemma parse_blank [simp]: "parseLine cf [] st = Some st"
  by (simp add: parseLine_def)

lemma bytes_are_lines:
  assumes "e \<longrightarrow> line = []" "\<not> e \<longrightarrow> \<not> c" "\<not> e \<and> line = [] \<longrightarrow> no_event st"
  shows "core_of (foldl (take_byte cf) (c, e, line, st) bs) = foldl (line_step cf) st (stream_lines c line bs)"
  using assms
proof (induction bs arbitrary: c e line st)
  case (Cons b bs)
  show ?case
  proof (cases "es_failed st")
    case True
    then show ?thesis by (simp add: failed_lines) (simp add: failed_stays core_of_def)
  next
    case f: False
    show ?thesis
    proof (cases "b = LF \<or> b = CR")
      case nl: True
      show ?thesis
      proof (cases e)
        case True
        then show ?thesis using Cons.prems nl f Cons.IH by (auto simp: line_step_def)
      next
        case False
        show ?thesis
        proof (cases "parseLine cf line st")
          case None
          then have "line \<noteq> []" by auto
          then show ?thesis using None False nl f Cons.prems(2)
            by (simp add: line_step_def [of cf st line] failed_lines) (simp add: failed_stays core_of_def)
        next
          case (Some st')
          then have "line_step cf st line = st'"
            using f False Cons.prems(3) line_step_blank [of st cf] by (cases "line = []") (auto simp: line_step_def)
          then show ?thesis using Some False nl f Cons by auto
        qed
      qed
    qed (use Cons f in auto)
  qed
qed (simp add: core_of_def)

lemma stream_by_lines:
  "es_core (foldl (es_transform cf) (new_EventSourceStream time i origin) pieces) =
     foldl (line_step cf) (new_state time i origin) (stream_lines False [] (strip_bom (concat pieces)))"
proof -
  let ?st = "new_state time i origin"
  have st: "\<not> es_failed ?st" "no_event ?st" by (simp_all add: new_state_def no_event_def)
  have "es_core (foldl (es_transform cf) (new_EventSourceStream time i origin) pieces) =
      core_of (stream_result cf ?st (concat pieces))"
    using given_core [OF given_all [OF st(1) given_new] st(1), of cf pieces] by simp
  then show ?thesis using bytes_are_lines [of False "[]" False ?st cf] st(2)
    by (simp add: stream_result_def start_state_def)
qed

section \<open>Properties\<close>

text \<open>
  C21: however the bytes of an event stream are cut into chunks, the parser with its chunk list and its
  cursors does what the lines of the whole stream say, behind a byte-order mark: each complete line is a
  field or the end of an event, and nothing is done after an event that is too large.
\<close>

theorem event_stream_follows_lines:
  "es_core (foldl (es_transform cf) (new_EventSourceStream time i origin) pieces) =
     foldl (line_step cf) (new_state time i origin) (stream_lines False [] (strip_bom (concat pieces)))"
  by (rule stream_by_lines)

section \<open>What a server sends\<close>

record served_event =
  sv_type :: "byte list option"
  sv_id :: "byte list option"
  sv_data :: "byte list list"

definition field_line :: "byte list \<Rightarrow> byte list \<Rightarrow> byte list" where
  "field_line name v = name @ [COLON, SPACE] @ v"

definition served_lines :: "served_event \<Rightarrow> byte list list" where
  "served_lines e =
     (case sv_type e of None \<Rightarrow> [] | Some t \<Rightarrow> [field_line EVENT t]) @
     (case sv_id e of None \<Rightarrow> [] | Some i \<Rightarrow> [field_line ID i]) @
     map (field_line DATA) (sv_data e) @ [[]]"

definition one_line :: "byte list \<Rightarrow> bool" where
  "one_line bs \<longleftrightarrow> LF \<notin> set bs \<and> CR \<notin> set bs"

definition servable :: "es_config \<Rightarrow> served_event \<Rightarrow> bool" where
  "servable cf e \<longleftrightarrow> sv_data e \<noteq> [] \<and> list_all one_line (sv_data e) \<and>
     (case sv_type e of None \<Rightarrow> True | Some t \<Rightarrow> one_line t \<and> es_utf8 cf t \<noteq> []) \<and>
     (case sv_id e of None \<Rightarrow> True | Some i \<Rightarrow> one_line i \<and> 0 \<notin> set i \<and> CHR 0x00 \<notin> set (es_utf8 cf i))"

definition event_id :: "es_config \<Rightarrow> string option \<Rightarrow> served_event \<Rightarrow> string option" where
  "event_id cf prev e = (case sv_id e of None \<Rightarrow> prev | Some i \<Rightarrow> Some (es_utf8 cf i))"

fun events_of :: "es_config \<Rightarrow> string option \<Rightarrow> string option \<Rightarrow> served_event list \<Rightarrow> pushed_event list" where
  "events_of cf origin prev [] = []"
| "events_of cf origin prev (e # es) =
     \<lparr>pe_type = (case sv_type e of None \<Rightarrow> ''message'' | Some t \<Rightarrow> es_utf8 cf t),
      pe_data = join [CHR 0x0A] (map (es_utf8 cf) (sv_data e)),
      pe_lastEventId = event_id cf prev e, pe_origin = origin\<rparr> # events_of cf origin (event_id cf prev e) es"

lemma isFieldName_take:
  assumes "n \<le> length line"
  shows "isFieldName line n field \<longleftrightarrow> take n line = field"
proof -
  have "list_all (\<lambda>i. line ! i = field ! i) [0..<n] \<longleftrightarrow> (\<forall>i < n. line ! i = field ! i)" (is "?all = _")
    by (auto simp: list_all_iff)
  moreover have "take n line = field \<longleftrightarrow> n = length field \<and> (\<forall>i < n. line ! i = field ! i)"
    using assms by (auto simp: list_eq_iff_nth_eq)
  ultimately show ?thesis unfolding isFieldName_def by (simp only:)
qed

text \<open>A field whose value follows a colon and a space, as servers write it.\<close>

lemma parse_field:
  assumes "name \<noteq> []" "COLON \<notin> set name"
  shows "parseLine cf (field_line name v) st =
    (if name = DATA
     then (let n = es_eventDataSize st + (if sf_data (es_event st) = None then 0 else 1) + length v in
           if es_maxEventSize cf > 0 \<and> n > es_maxEventSize cf then None
           else Some (st\<lparr>es_event := (es_event st)\<lparr>sf_data := Some (case sf_data (es_event st) of
                             None \<Rightarrow> es_utf8 cf v | Some a \<Rightarrow> a @ [CHR 0x0A] @ es_utf8 cf v)\<rparr>, es_eventDataSize := n\<rparr>))
     else if name = RETRY
     then Some (if isASCIINumberBytes v 0 then st\<lparr>es_event := (es_event st)\<lparr>sf_retry := Some (es_utf8 cf v)\<rparr>\<rparr> else st)
     else if name = ID
     then Some (if isValidLastEventIdBytes v 0 then st\<lparr>es_event := (es_event st)\<lparr>sf_id := Some (es_utf8 cf v)\<rparr>\<rparr> else st)
     else if name = EVENT
     then Some (if es_utf8 cf v \<noteq> [] then st\<lparr>es_event := (es_event st)\<lparr>sf_event := Some (es_utf8 cf v)\<rparr>\<rparr> else st)
     else Some st)"
proof -
  let ?l = "field_line name v"
  have "x \<noteq> COLON" if "x \<in> set name" for x using that assms(2) by auto
  then have c: "length (takeWhile (\<lambda>b. b \<noteq> COLON) ?l) = length name"
    by (simp add: field_line_def takeWhile_append2)
  have l: "length ?l = length name + 2 + length v" "?l \<noteq> []" by (simp_all add: field_line_def)
  have f: "isFieldName ?l (length name) field \<longleftrightarrow> name = field" for field
    by (subst isFieldName_take) (simp_all add: field_line_def)
  have s: "?l ! (length name + 1) = SPACE" by (simp add: field_line_def nth_append)
  have d: "drop (length name + 2) ?l = v" by (simp add: field_line_def)
  have b: "isASCIINumberBytes ?l (length name + 2) = isASCIINumberBytes v 0"
    "isValidLastEventIdBytes ?l (length name + 2) = isValidLastEventIdBytes v 0"
    by (simp_all only: isASCIINumberBytes_def isValidLastEventIdBytes_def d) (simp_all add: l)
  have w: "(if length name < length ?l
      then (if length name + 1 < length ?l \<and> ?l ! (length name + 1) = SPACE then length name + 2 else length name + 1)
      else length ?l) = length name + 2"
    using l s by simp
  have n: "length name \<noteq> 0" "length ?l - (length name + 2) = length v" using assms(1) l by simp_all
  show ?thesis
    unfolding parseLine_def Let_def c w f d b n(2) if_not_P [OF l(2)] if_not_P [OF n(1)] by (rule refl)
qed

lemmas field_names = EVENT_def ID_def DATA_def RETRY_def COLON_def

lemma parse_event_field:
  "parseLine cf (field_line EVENT t) st =
     Some (if es_utf8 cf t \<noteq> [] then st\<lparr>es_event := (es_event st)\<lparr>sf_event := Some (es_utf8 cf t)\<rparr>\<rparr> else st)"
  by (subst parse_field) (simp_all add: field_names)

lemma parse_id_field:
  "parseLine cf (field_line ID i) st =
     Some (if 0 \<notin> set i then st\<lparr>es_event := (es_event st)\<lparr>sf_id := Some (es_utf8 cf i)\<rparr>\<rparr> else st)"
  by (subst parse_field) (simp_all add: field_names isValidLastEventIdBytes_def list_all_iff, metis)

lemma parse_data_field:
  assumes "es_maxEventSize cf = 0"
  shows "parseLine cf (field_line DATA d) st =
     Some (st\<lparr>es_event := (es_event st)\<lparr>sf_data := Some (case sf_data (es_event st) of
                 None \<Rightarrow> es_utf8 cf d | Some a \<Rightarrow> a @ [CHR 0x0A] @ es_utf8 cf d)\<rparr>,
              es_eventDataSize := es_eventDataSize st + (if sf_data (es_event st) = None then 0 else 1) + length d\<rparr>)"
  using assms by (subst parse_field) (simp_all add: field_names)

lemmas parse_fields = parse_event_field parse_id_field parse_data_field

lemma lines_with_ends:
  assumes "eol = [LF] \<or> eol = [CR] \<or> eol = [CR, LF]" "list_all one_line ls"
  shows "stream_lines (skip \<and> eol = [CR]) [] (concat (map (\<lambda>l. l @ eol) ls)) = ls"
  using assms(2)
proof (induction ls arbitrary: skip)
  case (Cons l ls)
  have body: "one_line l \<Longrightarrow> stream_lines False line (l @ bs) = stream_lines False (line @ l) bs" for line l bs
    by (induction l arbitrary: line) (auto simp: one_line_def)
  have nl [simp]: "LF \<noteq> CR" "CR \<noteq> LF" by (simp_all add: LF_def CR_def)
  have ends: "stream_lines False l (eol @ bs) = l # stream_lines (eol = [CR]) [] bs" for l bs
    using assms(1) nl by auto
  have "stream_lines (skip \<and> eol = [CR]) [] (l @ eol @ bs) = stream_lines False [] (l @ eol @ bs)" for bs
    using assms(1) Cons.prems nl by (cases l) (auto simp: one_line_def)
  then show ?case using Cons body [of l "[]"] ends [of l] Cons.IH [of True] by simp
qed simp

lemma data_lines:
  assumes "es_maxEventSize cf = 0" "\<not> es_failed st" "sf_data (es_event st) = Some a"
  shows "\<exists>n. foldl (line_step cf) st (map (field_line DATA) ds) =
    st\<lparr>es_event := (es_event st)\<lparr>sf_data := Some (join [CHR 0x0A] (a # map (es_utf8 cf) ds))\<rparr>, es_eventDataSize := n\<rparr>"
  using assms
proof (induction ds arbitrary: st a)
  case Nil
  then show ?case by (intro exI [where x = "es_eventDataSize st"]) simp
next
  case (Cons d ds)
  have j: "join [CHR 0x0A] ((a @ CHR 0x0A # x) # xs) = join [CHR 0x0A] (a # x # xs)" for a x xs
    by (cases xs) simp_all
  let ?st' = "st\<lparr>es_event := (es_event st)\<lparr>sf_data := Some (a @ CHR 0x0A # es_utf8 cf d)\<rparr>,
    es_eventDataSize := es_eventDataSize st + 1 + length d\<rparr>"
  have "field_line DATA d \<noteq> []" by (simp add: field_line_def)
  then have "line_step cf st (field_line DATA d) = ?st'"
    using Cons.prems by (simp add: line_step_def parse_fields)
  with Cons.IH [OF Cons.prems(1), of ?st' "a @ CHR 0x0A # es_utf8 cf d"] Cons.prems(2) show ?case by (auto simp: j)
qed

lemma served_event_read:
  assumes "es_maxEventSize cf = 0" "servable cf e" "no_event st" "\<not> es_failed st"
  shows "foldl (line_step cf) st (served_lines e) =
    st\<lparr>es_lastEventId := event_id cf (es_lastEventId st) e,
       es_pushed := es_pushed st @ events_of cf (es_origin st) (es_lastEventId st) [e]\<rparr>"
proof -
  obtain d ds where ds: "sv_data e = d # ds" using assms(2) by (cases "sv_data e") (simp_all add: servable_def)
  have ne [simp]: "field_line n v \<noteq> []" for n v by (simp add: field_line_def)
  let ?id = "map_option (es_utf8 cf) (sv_id e)" and ?ty = "map_option (es_utf8 cf) (sv_type e)"
  let ?s1 = "st\<lparr>es_event := \<lparr>sf_data = None, sf_event = ?ty, sf_id = ?id, sf_retry = None\<rparr>\<rparr>"
  have ev: "es_event st = no_fields" "es_eventDataSize st = 0" using assms(3) by (simp_all add: no_event_def)
  have "foldl (line_step cf) st ((case sv_type e of None \<Rightarrow> [] | Some t \<Rightarrow> [field_line EVENT t]) @
      (case sv_id e of None \<Rightarrow> [] | Some i \<Rightarrow> [field_line ID i])) = ?s1"
    using assms(2,4) ev
    by (cases "sv_type e"; cases "sv_id e") (simp_all add: line_step_def parse_fields servable_def no_fields_def)
  moreover have "line_step cf ?s1 (field_line DATA d) =
      ?s1\<lparr>es_event := (es_event ?s1)\<lparr>sf_data := Some (es_utf8 cf d)\<rparr>, es_eventDataSize := length d\<rparr>" (is "_ = ?s2")
    using assms(1,4) ev by (simp add: line_step_def parse_fields)
  moreover obtain n where "foldl (line_step cf) ?s2 (map (field_line DATA) ds) =
      ?s2\<lparr>es_event := (es_event ?s2)\<lparr>sf_data := Some (join [CHR 0x0A] (es_utf8 cf d # map (es_utf8 cf) ds))\<rparr>, es_eventDataSize := n\<rparr>"
    (is "_ = ?s3 n")
    using data_lines [OF assms(1), of ?s2 "es_utf8 cf d" ds] assms(4) by auto
  moreover have "line_step cf (?s3 n) [] = st\<lparr>es_lastEventId := event_id cf (es_lastEventId st) e,
       es_pushed := es_pushed st @ events_of cf (es_origin st) (es_lastEventId st) [e]\<rparr>" for n
    using assms(2,4) ev ds
    by (cases "sv_type e"; cases "sv_id e")
      (simp_all add: line_step_def hasPendingEvent_def processEvent_def clearEvent_def no_fields_def servable_def
        isValidLastEventId_def event_id_def Let_def)
  ultimately show ?thesis by (simp add: served_lines_def ds)
qed

lemma served_events_read:
  assumes "es_maxEventSize cf = 0" "list_all (servable cf) es" "no_event st" "\<not> es_failed st"
  shows "es_pushed (foldl (line_step cf) st (concat (map served_lines es))) =
    es_pushed st @ events_of cf (es_origin st) (es_lastEventId st) es"
  using assms(2-)
proof (induction es arbitrary: st)
  case (Cons e es)
  then have e: "foldl (line_step cf) st (served_lines e) =
      st\<lparr>es_lastEventId := event_id cf (es_lastEventId st) e,
         es_pushed := es_pushed st @ events_of cf (es_origin st) (es_lastEventId st) [e]\<rparr>" (is "_ = ?st")
    using served_event_read [OF assms(1)] by simp
  have "no_event ?st" "\<not> es_failed ?st" using Cons.prems by (simp_all add: no_event_def)
  with Cons.IH [of ?st] Cons.prems e show ?case by simp
qed simp

lemma served_lines_plain:
  assumes "servable cf e"
  shows "list_all one_line (served_lines e)"
proof -
  have "one_line v \<Longrightarrow> one_line (field_line n v)" if "n = EVENT \<or> n = ID \<or> n = DATA" for n v
    using that by (auto simp: one_line_def field_line_def field_names SPACE_def LF_def CR_def)
  then show ?thesis using assms
    by (auto simp: served_lines_def servable_def list_all_iff one_line_def split: option.splits)
qed

lemma served_text_no_bom:
  assumes "list_all (servable cf) es"
  shows "take 3 (concat (map (\<lambda>l. l @ eol) (concat (map served_lines es)))) \<noteq> BOM"
proof (cases es)
  case (Cons e rest)
  then have "hd (concat (map (\<lambda>l. l @ eol) (concat (map served_lines es)))) \<noteq> 239"
    using assms
    by (cases "sv_type e"; cases "sv_id e"; cases "sv_data e") (auto simp: served_lines_def field_line_def field_names servable_def)
  moreover have "hd xs \<noteq> 239 \<Longrightarrow> take 3 xs \<noteq> BOM" for xs :: "byte list" by (cases xs) (auto simp: BOM_def)
  ultimately show ?thesis by blast
qed (simp add: BOM_def)


definition demo_es_config :: es_config where
  "demo_es_config = \<lparr>es_utf8 = \<lambda>bs. map (\<lambda>b. char_of (unat b)) bs, es_maxEventSize = 0\<rparr>"


end
