(* ===== verification/Integrity.thy ===== *)
theory Integrity
  imports Prelude
begin

text \<open>
  \<open>undici/lib/web/subresource-integrity/subresource-integrity.js\<close>: whether bytes match integrity metadata.
  The parameters are what \<open>node:crypto\<close> offers: the names of its hashes, when the module is there, and
  \<open>crypto.hash\<close> with its result in base64.
\<close>

record 'b sri_config =
  sri_crypto :: "string list option"
  sri_hash :: "string \<Rightarrow> 'b list \<Rightarrow> string"

record sri_metadata =
  sri_alg :: string
  sri_val :: string

definition sri_algorithms :: "(string \<times> nat) list" where
  "sri_algorithms = [(''sha256'', 0), (''sha384'', 1), (''sha512'', 2)]"

definition validSRIHashAlgorithmTokenSet :: "'b sri_config \<Rightarrow> (string \<times> nat) list" where
  "validSRIHashAlgorithmTokenSet cf =
     (case sri_crypto cf of
        None \<Rightarrow> []
      | Some cryptoHashes \<Rightarrow>
          (if cryptoHashes = [] then [] else filter (\<lambda>(a, i). a \<in> set cryptoHashes) sri_algorithms))"

definition getSRIHashAlgorithmIndex :: "'b sri_config \<Rightarrow> string \<Rightarrow> nat option" where
  "getSRIHashAlgorithmIndex cf a = map_of (validSRIHashAlgorithmTokenSet cf) a"

definition isValidSRIHashAlgorithm :: "'b sri_config \<Rightarrow> string \<Rightarrow> bool" where
  "isValidSRIHashAlgorithm cf a \<longleftrightarrow> getSRIHashAlgorithmIndex cf a \<noteq> None"

text \<open>
  The loop of \<open>getStrongestMetadata\<close>, with \<open>result\<close> and \<open>strongest\<close>; \<open>None\<close> is the assertion that
  an algorithm is valid.
\<close>

definition stronger_than :: "'b sri_config \<Rightarrow> string \<Rightarrow> string \<Rightarrow> bool" where
  "stronger_than cf a b \<longleftrightarrow> the (getSRIHashAlgorithmIndex cf a) > the (getSRIHashAlgorithmIndex cf b)"

fun strongest_loop :: "'b sri_config \<Rightarrow> sri_metadata list \<Rightarrow> sri_metadata list \<Rightarrow> sri_metadata option \<Rightarrow> sri_metadata list option" where
  "strongest_loop cf [] result strongest = Some result"
| "strongest_loop cf (item # items) result strongest =
     (if \<not> isValidSRIHashAlgorithm cf (sri_alg item) then None
      else (case strongest of
              None \<Rightarrow> strongest_loop cf items (result @ [item]) (Some item)
            | Some s \<Rightarrow>
                if stronger_than cf (sri_alg s) (sri_alg item) then strongest_loop cf items result strongest
                else if stronger_than cf (sri_alg item) (sri_alg s) then strongest_loop cf items [item] (Some item)
                else strongest_loop cf items (result @ [item]) strongest))"

definition getStrongestMetadata :: "'b sri_config \<Rightarrow> sri_metadata list \<Rightarrow> sri_metadata list option" where
  "getStrongestMetadata cf metadataList = strongest_loop cf metadataList [] None"

definition metadata_item :: "string \<Rightarrow> sri_metadata" where
  "metadata_item item =
     (let algorithmExpression = hd (split_char CHR ''?'' item) in
      \<lparr>sri_alg = take 6 algorithmExpression, sri_val = drop 7 algorithmExpression\<rparr>)"

definition parseMetadata :: "'b sri_config \<Rightarrow> string \<Rightarrow> sri_metadata list" where
  "parseMetadata cf metadata =
     filter (\<lambda>m. isValidSRIHashAlgorithm cf (sri_alg m)) (map metadata_item (split_char CHR '' '' metadata))"

text \<open>Up to two equality signs at the end do not count.\<close>

definition drop_padding :: "string \<Rightarrow> string" where
  "drop_padding s = (if s \<noteq> [] \<and> last s = CHR ''='' then butlast s else s)"

definition same_digit :: "char \<Rightarrow> char \<Rightarrow> bool" where
  "same_digit a e \<longleftrightarrow> a = e \<or> a = CHR ''+'' \<and> e = CHR ''-'' \<or> a = CHR ''/'' \<and> e = CHR ''_''"

definition caseSensitiveMatch :: "string \<Rightarrow> string \<Rightarrow> bool" where
  "caseSensitiveMatch actualValue expectedValue \<longleftrightarrow>
     list_all2 same_digit (drop_padding (drop_padding actualValue)) (drop_padding (drop_padding expectedValue))"

definition applyAlgorithmToBytes :: "'b sri_config \<Rightarrow> string \<Rightarrow> 'b list \<Rightarrow> string" where
  "applyAlgorithmToBytes cf algorithm bytes = sri_hash cf algorithm bytes"

definition item_matches :: "'b sri_config \<Rightarrow> 'b list \<Rightarrow> sri_metadata \<Rightarrow> bool" where
  "item_matches cf bytes item \<longleftrightarrow> caseSensitiveMatch (applyAlgorithmToBytes cf (sri_alg item) bytes) (sri_val item)"

text \<open>\<open>None\<close> is the failed assertion.\<close>

definition bytesMatch :: "'b sri_config \<Rightarrow> 'b list \<Rightarrow> string \<Rightarrow> bool option" where
  "bytesMatch cf bytes metadataList =
     (if sri_crypto cf = None \<or> validSRIHashAlgorithmTokenSet cf = [] then Some True
      else (let parsedMetadata = parseMetadata cf metadataList in
            if parsedMetadata = [] then Some True
            else map_option (list_ex (item_matches cf bytes)) (getStrongestMetadata cf parsedMetadata)))"

section \<open>The strongest algorithm decides\<close>

definition strength :: "'b sri_config \<Rightarrow> sri_metadata \<Rightarrow> nat" where
  "strength cf m = the (getSRIHashAlgorithmIndex cf (sri_alg m))"

definition strongest_of :: "'b sri_config \<Rightarrow> sri_metadata list \<Rightarrow> sri_metadata list" where
  "strongest_of cf ms = filter (\<lambda>m. list_all (\<lambda>n. strength cf n \<le> strength cf m) ms) ms"

lemma strongest_loop_eq:
  assumes "list_all (\<lambda>m. isValidSRIHashAlgorithm cf (sri_alg m)) ms" "seen \<noteq> []"
    "s \<in> set seen" "list_all (\<lambda>n. strength cf n \<le> strength cf s) seen"
  shows "strongest_loop cf ms (filter (\<lambda>m. strength cf m = strength cf s) seen) (Some s) = Some (strongest_of cf (seen @ ms))"
  using assms
proof (induction ms arbitrary: seen s)
  case Nil
  then have "strength cf m = strength cf s \<longleftrightarrow> list_all (\<lambda>n. strength cf n \<le> strength cf m) seen" if "m \<in> set seen" for m
    using that by (auto simp: list_all_iff intro: le_antisym)
  then show ?case by (simp add: strongest_of_def cong: filter_cong)
next
  case (Cons m ms)
  have v: "list_all (\<lambda>m. isValidSRIHashAlgorithm cf (sri_alg m)) ms" "isValidSRIHashAlgorithm cf (sri_alg m)"
    using Cons.prems(1) by simp_all
  have st: "stronger_than cf (sri_alg a) (sri_alg b) \<longleftrightarrow> strength cf b < strength cf a" for a b
    by (simp add: stronger_than_def strength_def)
  consider "strength cf m < strength cf s" | "strength cf s < strength cf m" | "strength cf m = strength cf s" by linarith
  then show ?case
  proof cases
    case 1
    then show ?thesis using Cons.IH [OF v(1), of "seen @ [m]" s] Cons.prems(2-) v(2) by (simp add: st)
  next
    case 2
    then have "filter (\<lambda>n. strength cf n = strength cf m) seen = []"
      using Cons.prems(4) by (auto simp: filter_empty_conv list_all_iff)
    moreover have "list_all (\<lambda>n. strength cf n \<le> strength cf m) seen"
      using Cons.prems(4) 2 by (auto simp: list_all_iff intro: order_trans [OF _ less_imp_le])
    ultimately show ?thesis using Cons.IH [OF v(1), of "seen @ [m]" m] 2 v(2) by (simp add: st)
  next
    case 3
    then show ?thesis using Cons.IH [OF v(1), of "seen @ [m]" s] Cons.prems(2-) v(2) by (simp add: st)
  qed
qed

lemma strongest_metadata:
  assumes "list_all (\<lambda>m. isValidSRIHashAlgorithm cf (sri_alg m)) ms"
  shows "getStrongestMetadata cf ms = Some (strongest_of cf ms)"
proof (cases ms)
  case (Cons m rest)
  then show ?thesis using assms strongest_loop_eq [of cf rest "[m]" m] by (simp add: getStrongestMetadata_def)
qed (simp add: getStrongestMetadata_def strongest_of_def)

text \<open>The digits of base64 as those of base64url; a digest in base64 has none of the latter.\<close>

definition url_digit :: "char \<Rightarrow> char" where
  "url_digit c = (if c = CHR ''+'' then CHR ''-'' else if c = CHR ''/'' then CHR ''_'' else c)"

definition digest_text :: "string \<Rightarrow> string" where
  "digest_text s = map url_digit (drop_padding (drop_padding s))"

definition plain_base64 :: "string \<Rightarrow> bool" where
  "plain_base64 s \<longleftrightarrow> CHR ''-'' \<notin> set s \<and> CHR ''_'' \<notin> set s"

lemma set_drop_padding: "set (drop_padding s) \<subseteq> set s"
  by (auto simp: drop_padding_def dest: in_set_butlastD)

lemma match_is_equality:
  assumes "plain_base64 actual"
  shows "caseSensitiveMatch actual expected \<longleftrightarrow> digest_text actual = digest_text expected"
proof -
  have "list_all2 same_digit a e \<longleftrightarrow> map url_digit a = map url_digit e" if "plain_base64 a" for a e
    using that
  proof (induction a arbitrary: e)
    case (Cons c a)
    then have "\<And>d. same_digit c d \<longleftrightarrow> url_digit c = url_digit d" "plain_base64 a"
      by (auto simp: same_digit_def url_digit_def plain_base64_def)
    with Cons.IH show ?case by (cases e) auto
  qed (auto simp: list_all2_Nil)
  moreover have "plain_base64 (drop_padding (drop_padding actual))"
    using assms set_drop_padding [of actual] set_drop_padding [of "drop_padding actual"] by (auto simp: plain_base64_def)
  ultimately show ?thesis by (simp add: caseSensitiveMatch_def digest_text_def)
qed

section \<open>Properties\<close>

text \<open>
  C26: bytes match integrity metadata exactly if none of its items has an algorithm that is available, or
  an item whose algorithm no other item exceeds in strength has their digest, in base64 or base64url,
  padded or not. So a weaker digest never counts beside a stronger one.
\<close>

theorem integrity_by_strongest:
  assumes "\<And>a. plain_base64 (sri_hash cf a bytes)"
  shows "bytesMatch cf bytes metadata = Some (parseMetadata cf metadata = [] \<or>
    list_ex (\<lambda>m. list_all (\<lambda>n. strength cf n \<le> strength cf m) (parseMetadata cf metadata) \<and>
      digest_text (sri_hash cf (sri_alg m) bytes) = digest_text (sri_val m)) (parseMetadata cf metadata))"
proof -
  have v: "list_all (\<lambda>m. isValidSRIHashAlgorithm cf (sri_alg m)) (parseMetadata cf metadata)"
    by (simp add: parseMetadata_def list_all_iff)
  have n: "parseMetadata cf metadata = []" if "sri_crypto cf = None \<or> validSRIHashAlgorithmTokenSet cf = []"
    using that by (auto simp: parseMetadata_def isValidSRIHashAlgorithm_def getSRIHashAlgorithmIndex_def
        validSRIHashAlgorithmTokenSet_def filter_empty_conv)
  have "item_matches cf bytes m \<longleftrightarrow> digest_text (sri_hash cf (sri_alg m) bytes) = digest_text (sri_val m)" for m
    by (simp add: item_matches_def applyAlgorithmToBytes_def match_is_equality [OF assms])
  then show ?thesis using n
    by (auto simp: bytesMatch_def Let_def strongest_metadata [OF v] strongest_of_def list_ex_iff)
qed

definition demo_sri :: "nat sri_config" where
  "demo_sri = \<lparr>sri_crypto = Some [''sha256'', ''sha512''],
     sri_hash = \<lambda>a bs. if a = ''sha256'' then ''a+b='' else ''c/d==''\<rparr>"

theorem integrity_by_strongest_witness:
  "bytesMatch demo_sri [1] ''sha256-a+b= sha512-bad'' = Some False \<and>
   bytesMatch demo_sri [1] ''sha384-x sha256-bad sha512-c_d?opt'' = Some True"
proof -
  have p: "plain_base64 (sri_hash demo_sri a [1])" for a
    by (simp add: demo_sri_def plain_base64_def)
  show ?thesis
    unfolding integrity_by_strongest [OF p] by code_simp
qed

end
