(* ===== verification/HeaderTree.thy ===== *)
theory HeaderTree
  imports MimeType
begin

unbundle bit_operations_syntax

text \<open>
  \<open>undici/lib/core/constants.js\<close>, \<open>tree.js\<close> and \<open>headerNameToString\<close> of \<open>util.js\<close>: the ternary search
  tree that turns the bytes of a header name into the lowercase name without making a string first.

  The tree has no sharing, so the nodes the code mutates are a datatype; \<open>TstNull\<close> is \<open>null\<close>. The locale
  \<open>lowercase_map\<close> is what the tree promises: a map whose lookups ignore the case of ASCII letters. It is
  interpreted on the tree, and the table of known names is built through it.
\<close>

section \<open>Well-known header names\<close>

definition wellknownHeaderNames :: "string list" where
  "wellknownHeaderNames = [
    ''Accept'', ''Accept-Encoding'', ''Accept-Language'', ''Accept-Ranges'',
    ''Access-Control-Allow-Credentials'', ''Access-Control-Allow-Headers'', ''Access-Control-Allow-Methods'',
    ''Access-Control-Allow-Origin'', ''Access-Control-Expose-Headers'', ''Access-Control-Max-Age'',
    ''Access-Control-Request-Headers'', ''Access-Control-Request-Method'', ''Age'', ''Allow'', ''Alt-Svc'',
    ''Alt-Used'', ''Authorization'', ''Cache-Control'', ''Clear-Site-Data'', ''Connection'',
    ''Content-Disposition'', ''Content-Encoding'', ''Content-Language'', ''Content-Length'',
    ''Content-Location'', ''Content-Range'', ''Content-Security-Policy'',
    ''Content-Security-Policy-Report-Only'', ''Content-Type'', ''Cookie'', ''Cross-Origin-Embedder-Policy'',
    ''Cross-Origin-Opener-Policy'', ''Cross-Origin-Resource-Policy'', ''Date'', ''Device-Memory'',
    ''Downlink'', ''ECT'', ''ETag'', ''Expect'', ''Expect-CT'', ''Expires'', ''Forwarded'', ''From'',
    ''Host'', ''If-Match'', ''If-Modified-Since'', ''If-None-Match'', ''If-Range'', ''If-Unmodified-Since'',
    ''Keep-Alive'', ''Last-Modified'', ''Link'', ''Location'', ''Max-Forwards'', ''Origin'',
    ''Permissions-Policy'', ''Pragma'', ''Proxy-Authenticate'', ''Proxy-Authorization'', ''RTT'', ''Range'',
    ''Referer'', ''Referrer-Policy'', ''Refresh'', ''Retry-After'', ''Sec-WebSocket-Accept'',
    ''Sec-WebSocket-Extensions'', ''Sec-WebSocket-Key'', ''Sec-WebSocket-Protocol'',
    ''Sec-WebSocket-Version'', ''Server'', ''Server-Timing'', ''Service-Worker-Allowed'',
    ''Service-Worker-Navigation-Preload'', ''Set-Cookie'', ''SourceMap'', ''Strict-Transport-Security'',
    ''Supports-Loading-Mode'', ''TE'', ''Timing-Allow-Origin'', ''Trailer'', ''Transfer-Encoding'',
    ''Upgrade'', ''Upgrade-Insecure-Requests'', ''User-Agent'', ''Vary'', ''Via'', ''WWW-Authenticate'',
    ''X-Content-Type-Options'', ''X-DNS-Prefetch-Control'', ''X-Frame-Options'',
    ''X-Permitted-Cross-Domain-Policies'', ''X-Powered-By'', ''X-Requested-With'', ''X-XSS-Protection'']"

text \<open>\<open>toLowerCase\<close> on 8-bit characters: the letters of ASCII and of Latin-1.\<close>

definition latin1_lower_char :: "char \<Rightarrow> char" where
  "latin1_lower_char c =
     (let n = of_char c :: nat in
      if 65 \<le> n \<and> n \<le> 90 \<or> 192 \<le> n \<and> n \<le> 222 \<and> n \<noteq> 215 then char_of (n + 32) else c)"

definition latin1_lower :: "string \<Rightarrow> string" where
  "latin1_lower s = map latin1_lower_char s"

text \<open>The record has no prototype: a name that was not stored reads as \<open>undefined\<close>.\<close>

definition store_name :: "(string \<rightharpoonup> string) \<Rightarrow> string \<Rightarrow> (string \<rightharpoonup> string)" where
  "store_name r key = (let lowerCasedKey = latin1_lower key in r(lowerCasedKey \<mapsto> lowerCasedKey, key \<mapsto> lowerCasedKey))"

definition headerNameLowerCasedRecord :: "string \<rightharpoonup> string" where
  "headerNameLowerCasedRecord = foldl store_name Map.empty wellknownHeaderNames"

section \<open>The tree\<close>

datatype tst_error = Unreachable | NotASCII

datatype 'v tst =
  TstNull
| TstNode (tst_value: "'v option") (tst_left: "'v tst") (tst_middle: "'v tst") (tst_right: "'v tst") (tst_code: nat)

text \<open>The constructor of a node, for the part of the key from \<open>index\<close> on.\<close>

fun new_TstNode :: "string \<Rightarrow> 'v \<Rightarrow> tst_error + 'v tst" where
  "new_TstNode [] v = Inl Unreachable"
| "new_TstNode (c # key) v =
     (let code = of_char c in
      if code > 127 then Inl NotASCII
      else if key \<noteq> []
      then (case new_TstNode key v of Inl e \<Rightarrow> Inl e | Inr m \<Rightarrow> Inr (TstNode None TstNull m TstNull code))
      else Inr (TstNode (Some v) TstNull TstNull TstNull code))"

text \<open>
  \<open>add\<close>, from the node and the index the loop has reached. A node is only changed after the new nodes
  below it were made, so an error leaves the tree as it was.
\<close>

fun tst_add :: "'v tst \<Rightarrow> string \<Rightarrow> 'v \<Rightarrow> tst_error + 'v tst" where
  "tst_add TstNull key v = Inl Unreachable"
| "tst_add node [] v = Inl Unreachable"
| "tst_add (TstNode x l m r n) (c # key) v =
     (let code = of_char c in
      if code > 127 then Inl NotASCII
      else if n = code
      then (if key = [] then Inr (TstNode (Some v) l m r n)
            else (case (if m \<noteq> TstNull then tst_add m key v else new_TstNode key v) of
                    Inl e \<Rightarrow> Inl e | Inr m' \<Rightarrow> Inr (TstNode x l m' r n)))
      else if n < code
      then (case (if l \<noteq> TstNull then tst_add l (c # key) v else new_TstNode (c # key) v) of
              Inl e \<Rightarrow> Inl e | Inr l' \<Rightarrow> Inr (TstNode x l' m r n))
      else (case (if r \<noteq> TstNull then tst_add r (c # key) v else new_TstNode (c # key) v) of
              Inl e \<Rightarrow> Inl e | Inr r' \<Rightarrow> Inr (TstNode x l m r' n)))"

text \<open>The loop of \<open>search\<close>: the byte is made lowercase, the inner loop walks the nodes beside each other.\<close>

definition lower_byte :: "byte \<Rightarrow> byte" where
  "lower_byte b = (if b \<le> 90 \<and> 65 \<le> b then b OR 32 else b)"

fun tst_search :: "'v tst \<Rightarrow> byte list \<Rightarrow> 'v tst" where
  "tst_search TstNull key = TstNull"
| "tst_search node [] = TstNull"
| "tst_search (TstNode x l m r n) (b # key) =
     (let code = unat (lower_byte b) in
      if code = n then (if key = [] then TstNode x l m r n else tst_search m key)
      else if n < code then tst_search l (b # key)
      else tst_search r (b # key))"

definition tree_insert :: "'v tst \<Rightarrow> string \<Rightarrow> 'v \<Rightarrow> tst_error + 'v tst" where
  "tree_insert t key v = (if t = TstNull then new_TstNode key v else tst_add t key v)"

definition tree_lookup :: "'v tst \<Rightarrow> byte list \<Rightarrow> 'v option" where
  "tree_lookup t key = (case tst_search t key of TstNull \<Rightarrow> None | TstNode x l m r n \<Rightarrow> x)"

text \<open>The tree of the module: every known name in lowercase, under itself.\<close>

definition insert_name :: "tst_error + string tst \<Rightarrow> string \<Rightarrow> tst_error + string tst" where
  "insert_name t name =
     (case t of Inl e \<Rightarrow> Inl e
      | Inr t \<Rightarrow> (case headerNameLowerCasedRecord name of
                   None \<Rightarrow> Inl Unreachable | Some key \<Rightarrow> tree_insert t key key))"

definition header_tree :: "tst_error + string tst" where
  "header_tree = foldl insert_name (Inr TstNull) wellknownHeaderNames"

definition latin1_text :: "byte list \<Rightarrow> string" where
  "latin1_text bs = map (\<lambda>b. char_of (unat b)) bs"

definition bufferToLowerCasedHeaderName :: "byte list \<Rightarrow> string" where
  "bufferToLowerCasedHeaderName bs =
     (case (case header_tree of Inl e \<Rightarrow> None | Inr t \<Rightarrow> tree_lookup t bs) of
        Some name \<Rightarrow> name | None \<Rightarrow> latin1_lower (latin1_text bs))"

text \<open>A header name is a string or a buffer.\<close>

definition headerNameToString :: "string + byte list \<Rightarrow> string" where
  "headerNameToString v =
     (case v of
        Inl s \<Rightarrow> (case headerNameLowerCasedRecord s of Some name \<Rightarrow> name | None \<Rightarrow> latin1_lower s)
      | Inr bs \<Rightarrow> bufferToLowerCasedHeaderName bs)"

section \<open>The tree is a map that ignores case\<close>

text \<open>A key that a node takes, and the text that a search for some bytes looks for.\<close>

definition ascii_key :: "string \<Rightarrow> bool" where
  "ascii_key key \<longleftrightarrow> key \<noteq> [] \<and> list_all (\<lambda>c. (of_char c :: nat) \<le> 127) key"

definition folded :: "byte list \<Rightarrow> string" where
  "folded bs = map (\<lambda>b. char_of (unat (lower_byte b))) bs"

locale lowercase_map =
  fixes empty :: "'t"
    and insert :: "'t \<Rightarrow> string \<Rightarrow> 'v \<Rightarrow> 'e + 't"
    and lookup :: "'t \<Rightarrow> byte list \<Rightarrow> 'v option"
  assumes lookup_empty: "lookup empty q = None"
    and lookup_insert: "insert t key v = Inr t' \<Longrightarrow> lookup t' q = (if folded q = key then Some v else lookup t q)"
    and insert_ok: "(\<exists>t'. insert t key v = Inr t') \<longleftrightarrow> ascii_key key"
begin

text \<open>An insertion that fails leaves the map as it is.\<close>

fun inserted :: "'t \<Rightarrow> (string \<times> 'v) list \<Rightarrow> 't" where
  "inserted t [] = t"
| "inserted t ((key, v) # kvs) =
     (case insert t key v of Inl e \<Rightarrow> inserted t kvs | Inr t' \<Rightarrow> inserted t' kvs)"

lemma lookup_inserted:
  "lookup (inserted t kvs) q =
     (case map_of (rev (filter (\<lambda>kv. ascii_key (fst kv)) kvs)) (folded q) of Some v \<Rightarrow> Some v | None \<Rightarrow> lookup t q)"
proof (induction kvs arbitrary: t)
  case (Cons kv kvs)
  obtain key v where kv: "kv = (key, v)" by (cases kv)
  show ?case
  proof (cases "insert t key v")
    case (Inl e)
    then have "\<not> ascii_key key" using insert_ok [of t key v] by simp
    with Inl Cons.IH [of t] kv show ?thesis by simp
  next
    case (Inr t')
    then have "ascii_key key" using insert_ok [of t key v] by blast
    with Inr Cons.IH [of t'] lookup_insert [OF Inr, of q] kv show ?thesis
      by (simp add: map_add_def split: option.split)
  qed
qed simp

lemma lookup_from_empty:
  "lookup (inserted empty kvs) q = map_of (rev (filter (\<lambda>kv. ascii_key (fst kv)) kvs)) (folded q)"
  by (simp add: lookup_inserted lookup_empty split: option.split)

end

lemma tree_lookup_simps [simp]:
  "tree_lookup TstNull q = None"
  "tree_lookup t [] = None"
  "tree_lookup (TstNode x l m r n) (b # q) =
     (if unat (lower_byte b) = n then (if q = [] then x else tree_lookup m q)
      else if n < unat (lower_byte b) then tree_lookup l (b # q) else tree_lookup r (b # q))"
  by (cases t; simp add: tree_lookup_def)+

lemma folded_simps [simp]: "folded [] = []" "folded (b # q) = char_of (unat (lower_byte b)) # folded q"
  by (simp_all add: folded_def)

lemma folded_Nil [simp]: "folded q = [] \<longleftrightarrow> q = []"
  by (simp add: folded_def)

lemma ascii_key_Cons: "ascii_key (c # key) \<longleftrightarrow> (of_char c :: nat) \<le> 127 \<and> (key = [] \<or> ascii_key key)"
  by (auto simp: ascii_key_def)

lemma char_of_byte: "char_of (unat (b :: byte)) = c \<longleftrightarrow> unat b = of_char c"
  using unsigned_less [of b, where ?'a = nat] by (auto simp: char_of_eq_iff take_bit_nat_eq_self)

lemma lookup_new_node:
  "new_TstNode key v = Inr t \<Longrightarrow> tree_lookup t q = (if folded q = key then Some v else None)"
proof (induction key v arbitrary: t q rule: new_TstNode.induct)
  case (2 c key v)
  show ?case
  proof (cases q)
    case (Cons b q')
    with 2 show ?thesis
      by (auto simp: Let_def char_of_byte split: if_splits sum.splits)
  qed (use 2 in simp)
qed simp

lemma new_node_ok: "(\<exists>t. new_TstNode key v = Inr t) \<longleftrightarrow> ascii_key key"
proof (induction key v rule: new_TstNode.induct)
  case (2 c key v)
  then show ?case by (cases "new_TstNode key v") (auto simp: ascii_key_Cons Let_def)
qed (simp add: ascii_key_def)

lemma new_node_null [simp]: "new_TstNode key v \<noteq> Inr TstNull"
  by (cases key) (auto simp: Let_def split: sum.split)

lemma lookup_add:
  "tst_add t key v = Inr t' \<Longrightarrow> tree_lookup t' q = (if folded q = key then Some v else tree_lookup t q)"
proof (induction t key v arbitrary: t' q rule: tst_add.induct)
  case (3 x l m r n c key v)
  show ?case
  proof (cases q)
    case (Cons b q')
    with 3 show ?thesis
      by (auto simp: Let_def char_of_byte lookup_new_node split: if_splits sum.splits)
  qed (use "3.prems" in simp)
qed simp_all

lemma add_ok: "t \<noteq> TstNull \<Longrightarrow> (\<exists>t'. tst_add t key v = Inr t') \<longleftrightarrow> ascii_key key"
proof (induction t key v rule: tst_add.induct)
  case (3 x l m r n c key v)
  show ?case
  proof (cases "(of_char c :: nat) > 127 \<or> n = of_char c \<and> key = []")
    case False
    define sub where "sub = (if n = of_char c then (if m \<noteq> TstNull then tst_add m key v else new_TstNode key v)
      else if n < of_char c then (if l \<noteq> TstNull then tst_add l (c # key) v else new_TstNode (c # key) v)
      else (if r \<noteq> TstNull then tst_add r (c # key) v else new_TstNode (c # key) v))"
    have "(\<exists>t'. sub = Inr t') \<longleftrightarrow> ascii_key (if n = of_char c then key else c # key)"
      using False 3 by (simp add: sub_def new_node_ok del: new_TstNode.simps)
    moreover have "(\<exists>t'. tst_add (TstNode x l m r n) (c # key) v = Inr t') \<longleftrightarrow> (\<exists>t'. sub = Inr t')"
      using False by (cases sub) (simp_all add: sub_def Let_def del: new_TstNode.simps split: if_splits)
    ultimately show ?thesis using False by (auto simp: ascii_key_Cons)
  qed (auto simp: ascii_key_Cons Let_def)
qed (simp_all add: ascii_key_def)

interpretation tst: lowercase_map TstNull tree_insert tree_lookup
proof
  fix t t' :: "'v tst" and key and v :: 'v and q
  show "tree_lookup TstNull q = (None :: 'v option)" by simp
  show "tree_insert t key v = Inr t' \<Longrightarrow> tree_lookup t' q = (if folded q = key then Some v else tree_lookup t q)"
    by (auto simp: tree_insert_def lookup_add lookup_new_node split: if_splits)
  show "(\<exists>t'. tree_insert t key v = Inr t') \<longleftrightarrow> ascii_key key"
    by (simp add: tree_insert_def add_ok new_node_ok)
qed


section \<open>Known names\<close>

lemma of_latin1_lower:
  "(of_char (latin1_lower_char c) :: nat) =
     (let n = of_char c in if 65 \<le> n \<and> n \<le> 90 \<or> 192 \<le> n \<and> n \<le> 222 \<and> n \<noteq> 215 then n + 32 else n)"
  by (auto simp: latin1_lower_char_def Let_def of_char_of)

lemma latin1_lower_idem [simp]: "latin1_lower (latin1_lower s) = latin1_lower s"
proof -
  have "(of_char (latin1_lower_char (latin1_lower_char c)) :: nat) = of_char (latin1_lower_char c)" for c
    by (simp add: of_latin1_lower Let_def)
  then show ?thesis by (simp add: latin1_lower_def)
qed

lemma record_is_lowercasing: "headerNameLowerCasedRecord s = Some name \<Longrightarrow> name = latin1_lower s"
proof -
  have "(\<And>s n. r s = Some n \<Longrightarrow> n = latin1_lower s) \<Longrightarrow>
      foldl store_name r names s = Some n \<Longrightarrow>
      n = latin1_lower s" for r names s n
  proof (induction names arbitrary: r)
    case (Cons key names)
    show ?case
      by (rule Cons.IH [OF _ Cons.prems(2) [unfolded foldl_Cons]]) (auto simp: store_name_def Let_def Cons.prems(1) split: if_splits)
  qed simp
  from this [of Map.empty] show "headerNameLowerCasedRecord s = Some name \<Longrightarrow> name = latin1_lower s"
    by (simp add: headerNameLowerCasedRecord_def)
qed

lemma record_of_known: "name \<in> set wellknownHeaderNames \<Longrightarrow> headerNameLowerCasedRecord name = Some (latin1_lower name)"
proof -
  have "name \<in> set names \<or> name \<in> dom r \<Longrightarrow>
      name \<in> dom (foldl store_name r names)" for r names
  proof (induction names arbitrary: r)
    case (Cons n names)
    show ?case
      unfolding foldl_Cons by (rule Cons.IH) (use Cons.prems in \<open>auto simp: store_name_def Let_def\<close>)
  qed simp
  from this [of wellknownHeaderNames Map.empty]
  show "name \<in> set wellknownHeaderNames \<Longrightarrow> headerNameLowerCasedRecord name = Some (latin1_lower name)"
    using record_is_lowercasing by (auto simp: headerNameLowerCasedRecord_def)
qed

lemma known_names_plain: "list_all (\<lambda>n. n \<noteq> [] \<and> list_all (\<lambda>c. \<not> digit7 c) n) wellknownHeaderNames"
  unfolding wellknownHeaderNames_def by simp

lemma ascii_digit7: "(of_char c :: nat) \<le> 127 \<longleftrightarrow> \<not> digit7 c"
  by (cases c) (simp add: of_char_def)

lemma known_names_ascii: "list_all (\<lambda>n. ascii_key (latin1_lower n)) wellknownHeaderNames"
proof -
  have "(of_char (latin1_lower_char c) :: nat) \<le> 127" if "\<not> digit7 c" for c
    using that by (simp add: ascii_digit7 [symmetric] of_latin1_lower Let_def)
  then show ?thesis
    using known_names_plain by (auto simp: list_all_iff ascii_key_def latin1_lower_def)
qed

lemma header_tree_inserted:
  "header_tree = Inr (tst.inserted TstNull (map (\<lambda>n. (latin1_lower n, latin1_lower n)) wellknownHeaderNames))"
proof -
  have "list_all (\<lambda>n. ascii_key (latin1_lower n) \<and> headerNameLowerCasedRecord n = Some (latin1_lower n)) names \<Longrightarrow>
      foldl insert_name (Inr t) names = Inr (tst.inserted t (map (\<lambda>n. (latin1_lower n, latin1_lower n)) names))" for t names
  proof (induction names arbitrary: t)
    case (Cons n names)
    then obtain t' where "tree_insert t (latin1_lower n) (latin1_lower n) = Inr t'"
      using tst.insert_ok [of t "latin1_lower n" "latin1_lower n"] by auto
    with Cons show ?case by (simp add: insert_name_def)
  qed simp
  then show ?thesis
    using known_names_ascii record_of_known by (simp add: header_tree_def list_all_iff)
qed

lemma unat_lower_byte: "unat (lower_byte b) = (if 65 \<le> unat b \<and> unat b \<le> 90 then unat b + 32 else unat b)"
proof -
  have "list_all (\<lambda>n. unat ((of_nat (65 + n) :: byte) OR 32) = 65 + n + 32) [0..<26]"
    by (simp add: upt_conv_Cons)
  from all_upt [OF this, of "unat b - 65"] have "65 \<le> unat b \<Longrightarrow> unat b \<le> 90 \<Longrightarrow> unat (b OR 32) = unat b + 32"
    by simp
  then show ?thesis by (auto simp: lower_byte_def word_le_nat_alt)
qed

lemma latin1_lower_folded:
  assumes "list_all (\<lambda>c. (of_char c :: nat) \<le> 127) (folded q)"
  shows "latin1_lower (latin1_text q) = folded q"
proof -
  have "latin1_lower_char (char_of (unat b)) = char_of (unat (lower_byte b))" if "unat (lower_byte b) \<le> 127" for b
  proof -
    have "unat b < 256" using unsigned_less [of b, where ?'a = nat] by simp
    with that have "(of_char (latin1_lower_char (char_of (unat b))) :: nat) = unat (lower_byte b)"
      by (auto simp: of_latin1_lower Let_def of_char_of unat_lower_byte take_bit_nat_eq_self split: if_splits)
    then show ?thesis by (metis char_of_char)
  qed
  then show ?thesis using assms unsigned_less [where ?'b = 8 and ?'a = nat]
    by (auto simp: folded_def latin1_lower_def latin1_text_def list_all_iff of_char_of take_bit_nat_eq_self)
qed

lemma header_tree_lookup:
  assumes "header_tree = Inr t" "tree_lookup t q = Some name"
  shows "name = latin1_lower (latin1_text q)"
proof -
  let ?kvs = "filter (\<lambda>kv. ascii_key (fst kv)) (map (\<lambda>n. (latin1_lower n, latin1_lower n)) wellknownHeaderNames)"
  have t: "t = tst.inserted TstNull (map (\<lambda>n. (latin1_lower n, latin1_lower n)) wellknownHeaderNames)"
    by (rule Inr_inject) (rule trans [OF assms(1) [symmetric] header_tree_inserted])
  have "map_of (rev ?kvs) (folded q) = Some name"
    using assms(2) by (simp only: t tst.lookup_from_empty)
  then have "(folded q, name) \<in> set ?kvs" using map_of_SomeD by fastforce
  then show ?thesis using latin1_lower_folded [of q] by (auto simp: ascii_key_def)
qed

section \<open>Properties\<close>

text \<open>
  After any sequence of insertions, a lookup in the ternary search tree finds what a map finds that
  took the insertions whose key is a non-empty ASCII text, at the bytes with their ASCII letters in
  lowercase; the other insertions throw and change nothing.
\<close>

theorem search_tree_refines_map:
  "tree_lookup (foldl (\<lambda>t (key, v). case tree_insert t key v of Inl e \<Rightarrow> t | Inr t' \<Rightarrow> t') TstNull kvs) q =
     map_of (rev (filter (\<lambda>kv. ascii_key (fst kv)) kvs)) (folded q)"
proof -
  have "foldl (\<lambda>t (key, v). case tree_insert t key v of Inl e \<Rightarrow> t | Inr t' \<Rightarrow> t') t kvs = tst.inserted t kvs" for t
    by (induction kvs arbitrary: t) (auto split: sum.split)
  then show ?thesis by (simp add: tst.lookup_from_empty)
qed

text \<open>
  C27: the search tree and the record of known names are an optimisation only: for every string and every
  buffer, \<open>headerNameToString\<close> is the name in lowercase.
\<close>

theorem header_name_is_lowercased:
  "headerNameToString v = latin1_lower (case v of Inl s \<Rightarrow> s | Inr bs \<Rightarrow> latin1_text bs)"
proof (cases v)
  case (Inl s)
  then show ?thesis by (auto simp: headerNameToString_def dest: record_is_lowercasing split: option.split)
next
  case (Inr bs)
  obtain t where t: "header_tree = Inr t" using header_tree_inserted by blast
  from Inr show ?thesis
    by (auto simp: headerNameToString_def bufferToLowerCasedHeaderName_def t dest: header_tree_lookup [OF t] split: option.split)
qed

end
