(* ===== verification/HttpDate.thy ===== *)
theory HttpDate
  imports Prelude
begin

text \<open>
  \<open>undici/lib/util/date.js\<close>: the three date formats of HTTP. Characters are compared by position as the
  code does; \<open>is_char\<close> is false behind the end of the text, where the code reads \<open>undefined\<close>. The
  code spells the same tests out for each format, which here take the position as an argument.

  The \<open>Date\<close> of the language is a time value in milliseconds, with the calendar functions of the
  language's standard.
\<close>

section \<open>The calendar of the language\<close>

definition day_from_year :: "int \<Rightarrow> int" where
  "day_from_year y = 365 * (y - 1970) + (y - 1969) div 4 - (y - 1901) div 100 + (y - 1601) div 400"

definition leap_year :: "int \<Rightarrow> bool" where
  "leap_year y \<longleftrightarrow> y mod 4 = 0 \<and> y mod 100 \<noteq> 0 \<or> y mod 400 = 0"

text \<open>The day of the year on which a month starts; month 12 is the next year.\<close>

definition month_start :: "int \<Rightarrow> nat \<Rightarrow> int" where
  "month_start y m = [0, 31, 59, 90, 120, 151, 181, 212, 243, 273, 304, 334, 365] ! m +
     (if 2 \<le> m \<and> leap_year y then 1 else 0)"

definition make_day :: "int \<Rightarrow> nat \<Rightarrow> int \<Rightarrow> int" where
  "make_day y m d = day_from_year y + month_start y m + d - 1"

definition nearest_year :: "int \<Rightarrow> int \<Rightarrow> int" where
  "nearest_year n y = (if day_from_year (y + 1) \<le> n then y + 1 else if n < day_from_year y then y - 1 else y)"

definition year_of_day :: "int \<Rightarrow> int" where
  "year_of_day n = nearest_year n (1970 + (400 * n) div 146097)"

definition month_of_day :: "int \<Rightarrow> nat" where
  "month_of_day n =
     (let y = year_of_day n in length (filter (\<lambda>m. month_start y m \<le> n - day_from_year y) [1..<12]))"

definition date_of_day :: "int \<Rightarrow> int" where
  "date_of_day n = n - day_from_year (year_of_day n) - month_start (year_of_day n) (month_of_day n) + 1"

definition make_time :: "int \<Rightarrow> int \<Rightarrow> int \<Rightarrow> int \<Rightarrow> int" where
  "make_time n h mi s = n * 86400000 + h * 3600000 + mi * 60000 + s * 1000"

definition day_of :: "int \<Rightarrow> int" where "day_of t = t div 86400000"
definition hour_of :: "int \<Rightarrow> int" where "hour_of t = t div 3600000 mod 24"
definition minute_of :: "int \<Rightarrow> int" where "minute_of t = t div 60000 mod 60"
definition second_of :: "int \<Rightarrow> int" where "second_of t = t div 1000 mod 60"
definition weekday_of :: "int \<Rightarrow> int" where "weekday_of t = (day_of t + 4) mod 7"

text \<open>\<open>Date.UTC\<close>, which takes the years 0 to 99 as 1900 to 1999, and \<open>setUTCFullYear\<close>.\<close>

definition date_utc :: "int \<Rightarrow> nat \<Rightarrow> int \<Rightarrow> int \<Rightarrow> int \<Rightarrow> int \<Rightarrow> int" where
  "date_utc y m d h mi s = make_time (make_day (if 0 \<le> y \<and> y \<le> 99 then 1900 + y else y) m d) h mi s"

definition set_full_year :: "int \<Rightarrow> int \<Rightarrow> int" where
  "set_full_year t y =
     make_day y (month_of_day (day_of t)) (date_of_day (day_of t)) * 86400000 + t mod 86400000"

definition makeDate :: "int \<Rightarrow> nat \<Rightarrow> int \<Rightarrow> int \<Rightarrow> int \<Rightarrow> int \<Rightarrow> int \<Rightarrow> int option" where
  "makeDate year monthIdx day hour minute second weekday =
     (let t = date_utc year monthIdx day hour minute second;
          result = (if year \<ge> 0 \<and> year \<le> 99 then set_full_year t year else t) in
      if year_of_day (day_of result) = year \<and> month_of_day (day_of result) = monthIdx \<and>
         date_of_day (day_of result) = day \<and> hour_of result = hour \<and> minute_of result = minute \<and>
         second_of result = second \<and> weekday_of result = weekday
      then Some result else None)"

section \<open>The parsers\<close>

definition is_char :: "string \<Rightarrow> nat \<Rightarrow> char \<Rightarrow> bool" where
  "is_char s i c \<longleftrightarrow> i < length s \<and> s ! i = c"

text \<open>A text at a position, character by character.\<close>

definition is_text :: "string \<Rightarrow> nat \<Rightarrow> string \<Rightarrow> bool" where
  "is_text s i t \<longleftrightarrow> list_all (\<lambda>k. is_char s (i + k) (t ! k)) [0..<length t]"

definition code_at :: "string \<Rightarrow> nat \<Rightarrow> nat" where
  "code_at s i = of_char (s ! i)"

fun name_at :: "string \<Rightarrow> nat \<Rightarrow> string list \<Rightarrow> nat \<Rightarrow> nat option" where
  "name_at s i [] k = None"
| "name_at s i (n # ns) k = (if is_text s i n then Some k else name_at s i ns (k + 1))"

definition short_weekdays :: "string list" where
  "short_weekdays = [''Sun'', ''Mon'', ''Tue'', ''Wed'', ''Thu'', ''Fri'', ''Sat'']"

definition month_names :: "string list" where
  "month_names = [''Jan'', ''Feb'', ''Mar'', ''Apr'', ''May'', ''Jun'', ''Jul'', ''Aug'', ''Sep'', ''Oct'', ''Nov'', ''Dec'']"

definition long_weekdays :: "string list" where
  "long_weekdays = [''Sunday'', ''Monday'', ''Tuesday'', ''Wednesday'', ''Thursday'', ''Friday'', ''Saturday'']"

definition weekday_at :: "string \<Rightarrow> nat option" where
  "weekday_at s = name_at s 0 short_weekdays 0"

definition month_at :: "string \<Rightarrow> nat \<Rightarrow> nat option" where
  "month_at s i = name_at s i month_names 0"

text \<open>Two digits, the first one \<open>pad\<close> or between \<open>lo\<close> and \<open>hi\<close>; \<open>low\<close> is the least second digit behind \<open>pad\<close>.\<close>

definition number_at :: "char \<Rightarrow> nat \<Rightarrow> nat \<Rightarrow> nat \<Rightarrow> string \<Rightarrow> nat \<Rightarrow> nat option" where
  "number_at pad low lo hi s i =
     (if is_char s i pad
      then (let code = code_at s (i + 1) in if code < low \<or> code > 57 then None else Some (code - 48))
      else (let code1 = code_at s i; code2 = code_at s (i + 1) in
            if code1 < lo \<or> code1 > hi then None
            else if code2 < 48 \<or> code2 > 57 then None
            else Some ((code1 - 48) * 10 + (code2 - 48))))"

definition day_at :: "char \<Rightarrow> string \<Rightarrow> nat \<Rightarrow> nat option" where
  "day_at pad s i = number_at pad 49 49 51 s i"

definition hour_at :: "string \<Rightarrow> nat \<Rightarrow> nat option" where
  "hour_at s i =
     (case number_at CHR ''0'' 48 48 50 s i of
        None \<Rightarrow> None
      | Some h \<Rightarrow> if code_at s i = 50 \<and> code_at s (i + 1) > 51 then None else Some h)"

definition sixtieth_at :: "string \<Rightarrow> nat \<Rightarrow> nat option" where
  "sixtieth_at s i = number_at CHR ''0'' 48 48 53 s i"

definition digit_at :: "string \<Rightarrow> nat \<Rightarrow> nat option" where
  "digit_at s i = (let c = code_at s i in if c < 48 \<or> c > 57 then None else Some (c - 48))"

definition year_at :: "string \<Rightarrow> nat \<Rightarrow> nat option" where
  "year_at s i =
     (case (digit_at s i, digit_at s (i + 1), digit_at s (i + 2), digit_at s (i + 3)) of
        (Some a, Some b, Some c, Some d) \<Rightarrow> Some (a * 1000 + b * 100 + c * 10 + d)
      | _ \<Rightarrow> None)"

definition short_year_at :: "string \<Rightarrow> nat \<Rightarrow> nat option" where
  "short_year_at s i =
     (case (digit_at s i, digit_at s (i + 1)) of
        (Some a, Some b) \<Rightarrow> (let year = a * 10 + b in Some (year + (if year < 70 then 2000 else 1900)))
      | _ \<Rightarrow> None)"

text \<open>The parts of a date; the tests of the code end in \<open>undefined\<close> whichever of them fails first.\<close>

definition make_date_of ::
  "nat option \<Rightarrow> nat option \<Rightarrow> nat option \<Rightarrow> nat option \<Rightarrow> nat option \<Rightarrow> nat option \<Rightarrow> nat option \<Rightarrow> int option" where
  "make_date_of year monthIdx day hour minute second weekday =
     (case (year, monthIdx, day, hour, minute, second, weekday) of
        (Some y, Some m, Some d, Some h, Some mi, Some s, Some w) \<Rightarrow>
          makeDate (int y) m (int d) (int h) (int mi) (int s) (int w)
      | _ \<Rightarrow> None)"

definition parseImfDate :: "string \<Rightarrow> int option" where
  "parseImfDate s =
     (if length s \<noteq> 29 \<or> \<not> is_char s 4 CHR '' '' \<or> \<not> is_char s 7 CHR '' '' \<or> \<not> is_char s 11 CHR '' '' \<or>
         \<not> is_char s 16 CHR '' '' \<or> \<not> is_char s 19 CHR '':'' \<or> \<not> is_char s 22 CHR '':'' \<or> \<not> is_char s 25 CHR '' '' \<or>
         \<not> is_char s 26 CHR ''G'' \<or> \<not> is_char s 27 CHR ''M'' \<or> \<not> is_char s 28 CHR ''T''
      then None
      else make_date_of (year_at s 12) (month_at s 8) (day_at CHR ''0'' s 5)
             (hour_at s 17) (sixtieth_at s 20) (sixtieth_at s 23) (weekday_at s))"

definition parseAscTimeDate :: "string \<Rightarrow> int option" where
  "parseAscTimeDate s =
     (if length s \<noteq> 24 \<or> \<not> is_char s 7 CHR '' '' \<or> \<not> is_char s 10 CHR '' '' \<or> \<not> is_char s 19 CHR '' ''
      then None
      else make_date_of (year_at s 20) (month_at s 4) (day_at CHR '' '' s 8)
             (hour_at s 11) (sixtieth_at s 14) (sixtieth_at s 17) (weekday_at s))"

definition parseRfc850Date :: "string \<Rightarrow> int option" where
  "parseRfc850Date s =
     (case name_at s 0 long_weekdays 0 of
        None \<Rightarrow> None
      | Some weekday \<Rightarrow>
          (let c = length (long_weekdays ! weekday) in
           if \<not> is_char s c CHR '','' \<or> int (length s) - int c - 1 \<noteq> 23 \<or> \<not> is_char s (c + 1) CHR '' '' \<or>
              \<not> is_char s (c + 4) CHR ''-'' \<or> \<not> is_char s (c + 8) CHR ''-'' \<or> \<not> is_char s (c + 11) CHR '' '' \<or>
              \<not> is_char s (c + 14) CHR '':'' \<or> \<not> is_char s (c + 17) CHR '':'' \<or> \<not> is_char s (c + 20) CHR '' '' \<or>
              \<not> is_char s (c + 21) CHR ''G'' \<or> \<not> is_char s (c + 22) CHR ''M'' \<or> \<not> is_char s (c + 23) CHR ''T''
           then None
           else make_date_of (short_year_at s (c + 9)) (month_at s (c + 5)) (day_at CHR ''0'' s (c + 2))
                  (hour_at s (c + 12)) (sixtieth_at s (c + 15)) (sixtieth_at s (c + 18)) (Some weekday)))"

definition parseHttpDate :: "string \<Rightarrow> int option" where
  "parseHttpDate s =
     (if is_char s 3 CHR '','' then parseImfDate s
      else if is_char s 3 CHR '' '' then parseAscTimeDate s
      else parseRfc850Date s)"

section \<open>The calendar is consistent\<close>

lemma div_step:
  assumes "0 < (k :: int)"
  shows "(x + 1) div k = x div k + (if (x + 1) mod k = 0 then 1 else 0)"
proof (cases "x mod k = k - 1")
  case True
  then have "x + 1 = k * (x div k) + k" using mult_div_mod_eq [of k x] by linarith
  then have "x + 1 = k * (x div k + 1)" by (simp add: distrib_left)
  then show ?thesis using assms by (metis add_diff_cancel_left' mod_mult_self1_is_0 nonzero_mult_div_cancel_left less_irrefl)
next
  case False
  have r: "0 \<le> x mod k + 1" "x mod k + 1 < k" using False pos_mod_bound [OF assms, of x] pos_mod_sign [OF assms, of x] by linarith+
  have "x + 1 = k * (x div k) + (x mod k + 1)" by simp
  then have "(x + 1) div k = x div k" "(x + 1) mod k = x mod k + 1"
    using r int_div_pos_eq int_mod_pos_eq by blast+
  moreover have "x mod k + 1 \<noteq> 0" using pos_mod_sign [OF assms, of x] by linarith
  ultimately show ?thesis by simp
qed

lemma leap_year_dvd: "leap_year y \<longleftrightarrow> 4 dvd y \<and> \<not> 100 dvd y \<or> 400 dvd y"
  by (simp add: leap_year_def dvd_eq_mod_eq_0)

lemma day_from_next_year: "day_from_year (y + 1) = day_from_year y + (if leap_year y then 366 else 365)"
proof -
  have m: "(y - 1968) mod 4 = 0 \<longleftrightarrow> 4 dvd y" "(y - 1900) mod 100 = 0 \<longleftrightarrow> 100 dvd y" "(y - 1600) mod 400 = 0 \<longleftrightarrow> 400 dvd y"
    using dvd_diff_right_iff by (auto simp: dvd_eq_mod_eq_0 [symmetric] dvd_diff_left_iff)
  have "4 dvd y" if "100 dvd y" using that dvd_trans [of 4 100 y] by simp
  moreover have "100 dvd y" if "400 dvd y" using that dvd_trans [of 100 400 y] by simp
  ultimately show ?thesis
    using div_step [of 4 "y - 1969"] div_step [of 100 "y - 1901"] div_step [of 400 "y - 1601"] m
    by (auto simp: day_from_year_def leap_year_dvd)
qed

lemma year_estimate:
  fixes a b c y n :: int
  assumes "4 * a \<le> y - 1969" "y - 1969 \<le> 4 * a + 3" "100 * b \<le> y - 1901" "y - 1901 \<le> 100 * b + 99"
    "400 * c \<le> y - 1601" "y - 1601 \<le> 400 * c + 399"
    "365 * (y - 1970) + a - b + c \<le> n" "n \<le> 365 * (y - 1970) + a - b + c + 365"
  shows "146097 * (y - 1971) \<le> 400 * n" "400 * n < 146097 * (y - 1968)"
proof -
  have "100 * (y - 1969) \<le> 400 * a + 300" "400 * b \<le> 4 * (y - 1901)"
    "400 * a \<le> 100 * (y - 1969)" "4 * (y - 1901) \<le> 400 * b + 396" using assms by simp_all
  moreover have "146000 * (y - 1970) + 400 * a - 400 * b + 400 * c \<le> 400 * n"
    "400 * n \<le> 146000 * (y - 1970) + 400 * a - 400 * b + 400 * c + 146000"
    using assms(7,8) by (simp_all add: algebra_simps)
  ultimately show "146097 * (y - 1971) \<le> 400 * n" "400 * n < 146097 * (y - 1968)"
    using assms(5,6) by (simp_all add: algebra_simps)
qed

lemma year_of_day_eq:
  assumes "day_from_year y \<le> n" "n < day_from_year (y + 1)"
  shows "year_of_day n = y"
proof -
  have b: "k * (x div k) \<le> x" "x \<le> k * (x div k) + m" if "0 < k" "m = k - 1" for x k m :: int
    using mult_div_mod_eq [of k x] pos_mod_bound [OF that(1), of x] pos_mod_sign [OF that(1), of x] that(2) by linarith+
  have l: "n \<le> day_from_year y + 365" using assms(2) by (simp add: day_from_next_year split: if_splits)
  have b4: "4 * ((y - 1969) div 4) \<le> y - 1969" "y - 1969 \<le> 4 * ((y - 1969) div 4) + 3" by (rule b; simp)+
  have b100: "100 * ((y - 1901) div 100) \<le> y - 1901" "y - 1901 \<le> 100 * ((y - 1901) div 100) + 99"
    by (rule b [where m = 99]; simp)+
  have b400: "400 * ((y - 1601) div 400) \<le> y - 1601" "y - 1601 \<le> 400 * ((y - 1601) div 400) + 399"
    by (rule b [where m = 399]; simp)+
  let ?q = "(400 * n) div 146097"
  have bq: "146097 * ?q \<le> 400 * n" "400 * n \<le> 146097 * ?q + 146096" by (rule b [where m = 146096]; simp)+
  note e = year_estimate [OF b4 b100 b400 assms(1) [unfolded day_from_year_def] l [unfolded day_from_year_def]]
  have "y - 1971 \<le> ?q"
  proof (rule ccontr)
    assume "\<not> y - 1971 \<le> ?q"
    then have "146097 * (?q + 1) \<le> 146097 * (y - 1971)" by (intro mult_left_mono) simp_all
    with e(1) bq(2) show False by (simp only: distrib_left)
  qed
  moreover have "?q < y - 1968"
  proof (rule ccontr)
    assume "\<not> ?q < y - 1968"
    then have "146097 * (y - 1968) \<le> 146097 * ?q" by (intro mult_left_mono) simp_all
    with e(2) bq(1) show False by linarith
  qed
  ultimately consider "1970 + ?q = y - 1" | "1970 + ?q = y" | "1970 + ?q = y + 1" by linarith
  moreover have "nearest_year n (y - 1) = y" "nearest_year n y = y" "nearest_year n (y + 1) = y"
    using assms day_from_next_year [of "y + 1"] by (simp_all add: nearest_year_def split: if_splits)
  ultimately show ?thesis by cases (simp_all only: year_of_day_def)
qed

definition days_in_month :: "int \<Rightarrow> nat \<Rightarrow> int" where
  "days_in_month y m = month_start y (m + 1) - month_start y m"

lemma month_starts:
  "month_start y 0 = 0" "month_start y (Suc 0) = 31" "month_start y 2 = 59 + of_bool (leap_year y)"
  "month_start y (Suc (Suc 0)) = 59 + of_bool (leap_year y)"
  "month_start y 3 = 90 + of_bool (leap_year y)" "month_start y 4 = 120 + of_bool (leap_year y)"
  "month_start y 5 = 151 + of_bool (leap_year y)" "month_start y 6 = 181 + of_bool (leap_year y)"
  "month_start y 7 = 212 + of_bool (leap_year y)" "month_start y 8 = 243 + of_bool (leap_year y)"
  "month_start y 9 = 273 + of_bool (leap_year y)" "month_start y 10 = 304 + of_bool (leap_year y)"
  "month_start y 11 = 334 + of_bool (leap_year y)" "month_start y 12 = 365 + of_bool (leap_year y)"
  by (simp_all add: month_start_def)

lemma twelve_cases: "m < (12 :: nat) \<Longrightarrow> m = 0 \<or> m = 1 \<or> m = 2 \<or> m = 3 \<or> m = 4 \<or> m = 5 \<or> m = 6 \<or> m = 7 \<or> m = 8 \<or> m = 9 \<or> m = 10 \<or> m = 11"
  by arith

lemma days_in_months:
  "m < 12 \<Longrightarrow> days_in_month y m =
     (if m = 1 then 28 + of_bool (leap_year y) else if m = 3 \<or> m = 5 \<or> m = 8 \<or> m = 10 then 30 else 31)"
  by (drule twelve_cases) (elim disjE; simp add: days_in_month_def month_starts)

lemma month_start_range: "m < 12 \<Longrightarrow> 0 \<le> month_start y m \<and> month_start y (m + 1) \<le> 365 + of_bool (leap_year y)"
  by (drule twelve_cases) (elim disjE; simp add: month_starts)

lemma eleven_months: "[1..<12] = [1, 2, 3, 4, 5, 6, 7, 8, 9, 10, 11 :: nat]"
  by (simp add: upt_conv_Cons)

lemma month_start_mono: "i \<le> j \<Longrightarrow> j \<le> 12 \<Longrightarrow> month_start y i \<le> month_start y j"
proof (induction j rule: nat_induct)
  case (Suc j)
  have "month_start y j \<le> month_start y (Suc j)"
    using days_in_months [of j y] Suc.prems(2) by (simp add: days_in_month_def of_bool_def split: if_splits)
  then show ?case using Suc by (cases "i = Suc j") auto
qed simp

lemma month_of_day_eq:
  assumes "m < 12" "month_start y m \<le> n - day_from_year y" "n - day_from_year y < month_start y (m + 1)" "year_of_day n = y"
  shows "month_of_day n = m"
proof -
  have "month_start y k \<le> n - day_from_year y \<longleftrightarrow> k \<le> m" if "k < 12" for k
    using assms(1-3) that month_start_mono [of k m y] month_start_mono [of "m + 1" k y] by (cases "k \<le> m") simp_all
  then have "filter (\<lambda>k. month_start y k \<le> n - day_from_year y) [1..<12] = filter (\<lambda>k. k \<le> m) [1..<12]"
    by (intro filter_cong) simp_all
  then have "month_of_day n = length (filter (\<lambda>k. k \<le> m) [1..<12])" by (simp add: month_of_day_def assms(4))
  also have "\<dots> = m" unfolding eleven_months using twelve_cases [OF assms(1)] by (elim disjE) simp_all
  finally show ?thesis .
qed

lemma day_parts:
  assumes "m < 12" "1 \<le> d" "d \<le> days_in_month y m"
  shows "year_of_day (make_day y m d) = y" "month_of_day (make_day y m d) = m" "date_of_day (make_day y m d) = d"
proof -
  have r: "month_start y m \<le> make_day y m d - day_from_year y" "make_day y m d - day_from_year y < month_start y (m + 1)"
    using assms by (simp_all add: make_day_def days_in_month_def)
  show y: "year_of_day (make_day y m d) = y"
    using r month_start_range [OF assms(1), of y]
    by (intro year_of_day_eq) (simp_all add: day_from_next_year of_bool_def split: if_splits)
  show m: "month_of_day (make_day y m d) = m" by (rule month_of_day_eq [OF assms(1) r y])
  show "date_of_day (make_day y m d) = d" by (simp add: date_of_day_def y m) (simp add: make_day_def)
qed

text \<open>A day behind the end of its month is a day of the next one.\<close>

lemma day_overflow:
  assumes "m < 12" "days_in_month y m < d" "d \<le> 39"
  shows "month_of_day (make_day y m d) = (m + 1) mod 12" "1 \<le> date_of_day (make_day y m d)" "date_of_day (make_day y m d) \<le> 11"
proof -
  let ?k = "days_in_month y m" and ?y = "if m = 11 then y + 1 else y" and ?m = "(m + 1) mod 12"
  have k: "28 \<le> ?k" using days_in_months [OF assms(1), of y] by simp
  have e: "make_day y m d = make_day ?y ?m (d - ?k)"
  proof (cases "m = 11")
    case True
    then show ?thesis
      by (simp add: make_day_def day_from_next_year days_in_month_def month_starts of_bool_def)
  next
    case False
    then show ?thesis using assms(1) by (simp add: make_day_def days_in_month_def)
  qed
  have m: "?m < 12" by simp
  have v: "1 \<le> d - ?k" "d - ?k \<le> days_in_month ?y ?m"
    using assms k days_in_months [OF m, of ?y] by (simp_all split: if_splits)
  show "month_of_day (make_day y m d) = (m + 1) mod 12" "1 \<le> date_of_day (make_day y m d)" "date_of_day (make_day y m d) \<le> 11"
    unfolding e using day_parts [OF m v] v k assms(3) by simp_all
qed

lemma time_parts:
  assumes "0 \<le> h" "h < 24" "0 \<le> mi" "mi < 60" "0 \<le> s" "s < 60"
  shows "day_of (make_time n h mi s) = n" "hour_of (make_time n h mi s) = h" "minute_of (make_time n h mi s) = mi"
    "second_of (make_time n h mi s) = s" "make_time n h mi s mod 86400000 = make_time 0 h mi s"
proof -
  have e: "make_time n h mi s = 86400000 * n + (h * 3600000 + mi * 60000 + s * 1000)"
    "make_time n h mi s = 3600000 * (24 * n + h) + (mi * 60000 + s * 1000)"
    "make_time n h mi s = 60000 * (60 * (24 * n + h) + mi) + s * 1000"
    "make_time n h mi s = 1000 * (60 * (60 * (24 * n + h) + mi) + s) + 0"
    by (simp_all add: make_time_def)
  have d: "make_time n h mi s div 86400000 = n" "make_time n h mi s mod 86400000 = h * 3600000 + mi * 60000 + s * 1000"
    by (rule int_div_pos_eq [OF e(1)] int_mod_pos_eq [OF e(1)]; use assms in linarith)+
  have d2: "make_time n h mi s div 3600000 = 24 * n + h" by (rule int_div_pos_eq [OF e(2)]; use assms in linarith)
  have d3: "make_time n h mi s div 60000 = 60 * (24 * n + h) + mi" by (rule int_div_pos_eq [OF e(3)]; use assms in linarith)
  have d4: "make_time n h mi s div 1000 = 60 * (60 * (24 * n + h) + mi) + s" by (rule int_div_pos_eq [OF e(4)]) simp_all
  have m: "(k * q + r) mod k = r" if "0 \<le> r" "r < k" for k q r :: int using that by simp
  show "day_of (make_time n h mi s) = n" "make_time n h mi s mod 86400000 = make_time 0 h mi s"
    unfolding day_of_def d by (simp_all add: make_time_def)
  show "hour_of (make_time n h mi s) = h" "minute_of (make_time n h mi s) = mi" "second_of (make_time n h mi s) = s"
    unfolding hour_of_def minute_of_def second_of_def d2 d3 d4 by (rule m; use assms in simp)+
qed

text \<open>The dates that \<open>makeDate\<close> makes: a day of its month, on the day of the week, and not 29 February of year 0.\<close>

definition valid_day :: "int \<Rightarrow> nat \<Rightarrow> int \<Rightarrow> bool" where
  "valid_day y m d \<longleftrightarrow> 1 \<le> d \<and> d \<le> days_in_month y m \<and> \<not> (y = 0 \<and> m = 1 \<and> d = 29)"

lemma early_year_months:
  assumes "0 \<le> y" "y \<le> 99" "m < 12" "1 \<le> d"
  shows "d \<le> days_in_month (1900 + y) m \<longleftrightarrow> valid_day y m d"
proof -
  have "leap_year (1900 + y) \<longleftrightarrow> leap_year y \<and> y \<noteq> 0"
  proof -
    have "y mod 100 = y" "y mod 400 = y" "(1900 + y) mod 100 = y" using assms by (simp_all add: mod_add_left_eq [of 1900 100 y, symmetric])
    moreover have "(1900 + y) mod 400 = 300 + y" using assms by (simp add: mod_add_left_eq [of 1900 400 y, symmetric])
    moreover have "(1900 + y) mod 4 = y mod 4" by (simp add: mod_add_left_eq [of 1900 4 y, symmetric])
    ultimately show ?thesis using assms by (auto simp: leap_year_def)
  qed
  then show ?thesis using assms(3,4) leap_year_def [of 0]
    by (auto simp: days_in_months valid_day_def)
qed

lemma makeDate_eq:
  assumes "0 \<le> y" "m < 12" "1 \<le> d" "d \<le> 39" "0 \<le> h" "h < 24" "0 \<le> mi" "mi < 60" "0 \<le> s" "s < 60"
  shows "makeDate y m d h mi s w =
    (if valid_day y m d \<and> w = (make_day y m d + 4) mod 7 then Some (make_time (make_day y m d) h mi s) else None)"
proof -
  note tp = time_parts [OF assms(5-10)]
  let ?u = "if 0 \<le> y \<and> y \<le> 99 then 1900 + y else y"
  let ?n = "make_day ?u m d"
  have valid: "d \<le> days_in_month ?u m \<longleftrightarrow> valid_day y m d"
    using early_year_months [OF assms(1) _ assms(2,3)] assms(1,3) by (auto simp: valid_day_def)
  have res: "(if y \<ge> 0 \<and> y \<le> 99 then set_full_year (make_time ?n h mi s) y else make_time ?n h mi s) =
      make_time (if y \<le> 99 then make_day y (month_of_day ?n) (date_of_day ?n) else ?n) h mi s"
    using assms(1) by (simp add: set_full_year_def tp) (simp add: make_time_def)
  show ?thesis
  proof (cases "valid_day y m d")
    case True
    have u: "month_of_day ?n = m" "date_of_day ?n = d" using day_parts [OF assms(2,3), of ?u] valid True by simp_all
    have r: "(if y \<le> 99 then make_day y (month_of_day ?n) (date_of_day ?n) else ?n) = make_day y m d"
      using u by (cases "y \<le> 99") simp_all
    have "year_of_day (make_day y m d) = y" "month_of_day (make_day y m d) = m" "date_of_day (make_day y m d) = d"
      using day_parts [OF assms(2,3), of y] True by (simp_all add: valid_day_def)
    then show ?thesis
      unfolding makeDate_def date_utc_def Let_def res r using True by (simp add: tp weekday_of_def)
  next
    case False
    then have over: "days_in_month ?u m < d" using valid by simp
    note o = day_overflow [OF assms(2) over assms(4)]
    have "month_of_day (if y \<le> 99 then make_day y (month_of_day ?n) (date_of_day ?n) else ?n) = (m + 1) mod 12"
    proof (cases "y \<le> 99")
      case True
      have "days_in_month y ((m + 1) mod 12) \<ge> 28" by (subst days_in_months) simp_all
      then have "month_of_day (make_day y ((m + 1) mod 12) (date_of_day ?n)) = (m + 1) mod 12"
        using o(2,3) by (intro day_parts(2)) simp_all
      then show ?thesis using True o(1) by simp
    next
      case False
      then show ?thesis using o(1) by simp
    qed
    moreover have "(m + 1) mod 12 \<noteq> m" using assms(2) by (cases "m = 11") simp_all
    ultimately show ?thesis
      unfolding makeDate_def date_utc_def Let_def res using False by (simp add: tp)
  qed
qed

section \<open>Texts of dates\<close>

text \<open>A date, and how the three formats write it.\<close>

record http_date =
  hd_year :: nat
  hd_month :: nat
  hd_day :: nat
  hd_hour :: nat
  hd_minute :: nat
  hd_second :: nat

definition day_number :: "http_date \<Rightarrow> int" where
  "day_number t = make_day (int (hd_year t)) (hd_month t) (int (hd_day t))"

definition time_value :: "http_date \<Rightarrow> int" where
  "time_value t = make_time (day_number t) (int (hd_hour t)) (int (hd_minute t)) (int (hd_second t))"

definition weekday :: "http_date \<Rightarrow> nat" where
  "weekday t = nat ((day_number t + 4) mod 7)"

definition valid_date :: "http_date \<Rightarrow> bool" where
  "valid_date t \<longleftrightarrow> hd_year t < 10000 \<and> hd_month t < 12 \<and> valid_day (int (hd_year t)) (hd_month t) (int (hd_day t)) \<and>
     hd_hour t < 24 \<and> hd_minute t < 60 \<and> hd_second t < 60"

definition digit_char :: "nat \<Rightarrow> char" where
  "digit_char n = char_of (48 + n)"

definition two_digits :: "nat \<Rightarrow> string" where
  "two_digits n = [digit_char (n div 10), digit_char (n mod 10)]"

definition four_digits :: "nat \<Rightarrow> string" where
  "four_digits n = two_digits (n div 100) @ two_digits (n mod 100)"

definition time_text :: "http_date \<Rightarrow> string" where
  "time_text t = two_digits (hd_hour t) @ '':'' @ two_digits (hd_minute t) @ '':'' @ two_digits (hd_second t)"

definition imf_text :: "http_date \<Rightarrow> string" where
  "imf_text t = short_weekdays ! weekday t @ '', '' @ two_digits (hd_day t) @ '' '' @ month_names ! hd_month t @ '' '' @
     four_digits (hd_year t) @ '' '' @ time_text t @ '' GMT''"

definition padded_day :: "nat \<Rightarrow> string" where
  "padded_day d = (if d < 10 then [CHR '' '', digit_char d] else two_digits d)"

definition asctime_text :: "http_date \<Rightarrow> string" where
  "asctime_text t = short_weekdays ! weekday t @ '' '' @ month_names ! hd_month t @ '' '' @
     padded_day (hd_day t) @ '' '' @ time_text t @ '' '' @ four_digits (hd_year t)"

definition rfc850_text :: "http_date \<Rightarrow> string" where
  "rfc850_text t = long_weekdays ! weekday t @ '', '' @ two_digits (hd_day t) @ ''-'' @ month_names ! hd_month t @ ''-'' @
     two_digits (hd_year t mod 100) @ '' '' @ time_text t @ '' GMT''"

lemma of_digit_char [simp]: "n < 10 \<Longrightarrow> (of_char (digit_char n) :: nat) = 48 + n"
  by (simp add: digit_char_def of_char_of)

text \<open>A test of a text at a position comes apart like the text.\<close>

lemma is_text_Nil [simp]: "is_text s i []"
  by (simp add: is_text_def)

lemma is_text_Cons: "is_text s i (c # t) \<longleftrightarrow> is_char s i c \<and> is_text s (i + 1) t"
proof -
  have "is_text s i t \<longleftrightarrow> (\<forall>k < length t. is_char s (i + k) (t ! k))" for s i t
    by (auto simp: is_text_def list_all_iff)
  then show ?thesis by (simp add: All_less_Suc2)
qed

lemma is_text_append: "is_text s i (a @ b) \<longleftrightarrow> is_text s i a \<and> is_text s (i + length a) b"
  by (induction a arbitrary: i) (simp_all add: is_text_Cons)

lemma is_text_drop: "is_text s i t \<longleftrightarrow> take (length t) (drop i s) = t"
proof (induction t arbitrary: i)
  case (Cons c t)
  have "take (Suc (length t)) (drop i s) = c # t \<longleftrightarrow> is_char s i c \<and> take (length t) (drop (Suc i) s) = t"
    by (cases "i < length s") (auto simp: is_char_def Cons_nth_drop_Suc [symmetric])
  then show ?case using Cons by (simp add: is_text_Cons)
qed simp

lemma is_text_whole: "length s = length t \<Longrightarrow> is_text s 0 t \<longleftrightarrow> s = t"
  by (simp add: is_text_drop)

lemma is_text_range: "is_text s i t \<Longrightarrow> t \<noteq> [] \<Longrightarrow> i + length t \<le> length s"
proof -
  assume a: "is_text s i t" "t \<noteq> []"
  then have "length (take (length t) (drop i s)) = length t" by (simp add: is_text_drop)
  with a(2) show ?thesis by (cases t) (auto simp: min_def split: if_splits)
qed

text \<open>A name is found where it stands: names differ in their first three letters.\<close>

lemma name_at_found:
  assumes "is_text s i (ns ! j)" "j < length ns" "distinct (map (take 3) ns)" "list_all (\<lambda>n. 3 \<le> length n) ns"
  shows "name_at s i ns k = Some (k + j)"
  using assms
proof (induction ns arbitrary: j k)
  case (Cons n ns)
  show ?case
  proof (cases j)
    case (Suc l)
    have "\<not> is_text s i n"
    proof
      assume n: "is_text s i n"
      let ?n' = "ns ! l"
      have l: "l < length ns" "3 \<le> length n" "3 \<le> length ?n'" using Cons.prems Suc by (auto simp: list_all_length)
      have "take 3 n = take 3 (drop i s)" "take 3 ?n' = take 3 (drop i s)"
        using n Cons.prems(1) Suc l(2,3) by (metis (no_types) is_text_drop nth_Cons_Suc take_take min.absorb1)+
      moreover have "take 3 ?n' \<in> set (map (take 3) ns)" using l(1) by simp
      ultimately show False using Cons.prems(3) by simp
    qed
    with Cons.IH [of l "Suc k"] Cons.prems Suc show ?thesis by simp
  qed (use Cons.prems in simp)
qed simp

lemma name_at_Some: "name_at s i ns k = Some j \<Longrightarrow> \<exists>l < length ns. j = k + l \<and> is_text s i (ns ! l)"
proof (induction ns arbitrary: k)
  case (Cons n ns)
  show ?case
  proof (cases "is_text s i n")
    case True
    with Cons.prems show ?thesis by (intro exI [where x = 0]) simp
  next
    case False
    with Cons.prems Cons.IH [of "k + 1"] obtain l where "l < length ns" "j = k + 1 + l" "is_text s i (ns ! l)" by auto
    then show ?thesis by (intro exI [where x = "Suc l"]) simp
  qed
qed simp

lemma name_at_iff:
  assumes "distinct (map (take 3) ns)" "list_all (\<lambda>n. 3 \<le> length n) ns"
  shows "name_at s i ns 0 = Some j \<longleftrightarrow> j < length ns \<and> is_text s i (ns ! j)"
  using name_at_found [OF _ _ assms, of s i j 0] name_at_Some [of s i ns 0 j] by auto

lemma length_names [simp]: "length short_weekdays = 7" "length month_names = 12" "length long_weekdays = 7"
  by (simp_all add: short_weekdays_def month_names_def long_weekdays_def eval_nat_numeral)

lemma names_apart:
  "distinct (map (take 3) short_weekdays) \<and> list_all (\<lambda>n. 3 \<le> length n) short_weekdays"
  "distinct (map (take 3) month_names) \<and> list_all (\<lambda>n. 3 \<le> length n) month_names"
  "distinct (map (take 3) long_weekdays) \<and> list_all (\<lambda>n. 3 \<le> length n) long_weekdays"
  by (simp_all add: short_weekdays_def month_names_def long_weekdays_def)

lemma weekday_at_iff: "weekday_at s = Some w \<longleftrightarrow> w < 7 \<and> is_text s 0 (short_weekdays ! w)"
  using name_at_iff [of short_weekdays] names_apart(1) by (simp add: weekday_at_def)

lemma month_at_iff: "month_at s i = Some m \<longleftrightarrow> m < 12 \<and> is_text s i (month_names ! m)"
  using name_at_iff [of month_names] names_apart(2) by (simp add: month_at_def)

lemma long_weekday_iff: "name_at s 0 long_weekdays 0 = Some w \<longleftrightarrow> w < 7 \<and> is_text s 0 (long_weekdays ! w)"
  using name_at_iff [of long_weekdays] names_apart(3) by simp

text \<open>Numbers.\<close>

lemma digit_char_eq: "n < 10 \<Longrightarrow> c = digit_char n \<longleftrightarrow> (of_char c :: nat) = 48 + n"
  by (metis char_of_char digit_char_def of_digit_char)

lemma char_0: "c = CHR ''0'' \<longleftrightarrow> (of_char c :: nat) = 48"
  using digit_char_eq [of 0 c] by (simp add: digit_char_def char_of_def bit_0)

lemma is_text_two:
  "n < 100 \<Longrightarrow> is_text s i (two_digits n) \<longleftrightarrow>
     i + 1 < length s \<and> code_at s i = 48 + n div 10 \<and> code_at s (i + 1) = 48 + n mod 10"
  by (auto simp: two_digits_def is_text_Cons is_char_def code_at_def digit_char_eq)

lemma number_codes:
  "number_at pad low lo hi s i = Some n \<longleftrightarrow>
    (if is_char s i pad then low \<le> code_at s (i + 1) \<and> code_at s (i + 1) \<le> 57 \<and> n + 48 = code_at s (i + 1)
     else lo \<le> code_at s i \<and> code_at s i \<le> hi \<and> 48 \<le> code_at s (i + 1) \<and> code_at s (i + 1) \<le> 57 \<and>
       n = (code_at s i - 48) * 10 + (code_at s (i + 1) - 48))" if "48 \<le> low"
  using that by (auto simp: number_at_def Let_def)

lemma number_at_iff:
  assumes i: "i + 1 < length s" and b: "48 \<le> low" "48 \<le> lo" "lo \<le> 49" "hi \<le> 57"
  shows "number_at CHR ''0'' low lo hi s i = Some n \<longleftrightarrow> is_text s i (two_digits n) \<and> n < 100 \<and>
    (if n < 10 then low \<le> n + 48 else n div 10 + 48 \<le> hi)"
proof -
  define x y where x_y_def: "x = code_at s i" "y = code_at s (Suc i)"
  have p: "is_char s i CHR ''0'' \<longleftrightarrow> x = 48" using i by (simp add: is_char_def code_at_def char_0 x_y_def)
  have "number_at CHR ''0'' low lo hi s i = Some n \<longleftrightarrow> n < 100 \<and> x = 48 + n div 10 \<and> y = 48 + n mod 10 \<and>
      (if n < 10 then low \<le> n + 48 else n div 10 + 48 \<le> hi)" (is "?l \<longleftrightarrow> ?r")
  proof
    assume l: ?l
    show ?r
    proof (cases "x = 48")
      case True
      then have "y = n + 48" "n < 10" "low \<le> y" using l by (auto simp: number_codes [OF b(1)] p x_y_def)
      then show ?thesis using True by simp
    next
      case False
      then obtain u v where "x = 48 + u" "y = 48 + v" "0 < u" "u < 10" "v < 10" "x \<le> hi" "n = u * 10 + v"
        using l b by (auto simp: number_codes [OF b(1)] p x_y_def dest!: le_Suc_ex)
      then show ?thesis by simp
    qed
  next
    assume r: ?r
    show ?l
    proof (cases "n < 10")
      case True
      then show ?thesis using r by (simp add: number_codes [OF b(1)] p flip: x_y_def)
    next
      case False
      then have "1 \<le> n div 10" by (simp add: div_greater_zero_iff Suc_le_eq)
      then show ?thesis using r b False by (simp add: number_codes [OF b(1)] p flip: x_y_def)
    qed
  qed
  then show ?thesis using i by (auto simp: is_text_two x_y_def)
qed

lemma div_10: "n div 10 < k \<longleftrightarrow> n < 10 * (k :: nat)"
  using div_less_iff_less_mult [of 10 n k] by (simp add: mult.commute)

lemma day_at_iff:
  assumes "i + 1 < length s"
  shows "day_at CHR ''0'' s i = Some n \<longleftrightarrow> is_text s i (two_digits n) \<and> 1 \<le> n \<and> n < 40"
  using number_at_iff [OF assms, of 49 49 51 n] div_10 [of n 4] by (auto simp: day_at_def)

lemma sixtieth_at_iff:
  assumes "i + 1 < length s"
  shows "sixtieth_at s i = Some n \<longleftrightarrow> is_text s i (two_digits n) \<and> n < 60"
  using number_at_iff [OF assms, of 48 48 53 n] div_10 [of n 6] by (auto simp: sixtieth_at_def)

lemma hour_at_iff:
  assumes "i + 1 < length s"
  shows "hour_at s i = Some n \<longleftrightarrow> is_text s i (two_digits n) \<and> n < 24"
proof -
  have h: "number_at CHR ''0'' 48 48 50 s i = Some n \<longleftrightarrow> is_text s i (two_digits n) \<and> n < 30"
    using number_at_iff [OF assms, of 48 48 50 n] div_10 [of n 3] by auto
  have "code_at s i = 50 \<and> code_at s (i + 1) > 51 \<longleftrightarrow> n div 10 = 2 \<and> n mod 10 > 3"
    if "is_text s i (two_digits n)" "n < 30" using that assms by (auto simp: is_text_two)
  moreover have "n < 30 \<Longrightarrow> n div 10 = 2 \<and> n mod 10 > 3 \<longleftrightarrow> 24 \<le> n" by presburger
  ultimately show ?thesis using h by (auto simp: hour_at_def split: option.splits if_splits)
qed

lemma digit_at_iff: "i < length s \<Longrightarrow> digit_at s i = Some n \<longleftrightarrow> n < 10 \<and> is_text s i [digit_char n]"
  by (auto simp: digit_at_def Let_def is_text_Cons is_char_def code_at_def digit_char_eq)

lemma year_at_iff:
  assumes "i + 3 < length s"
  shows "year_at s i = Some n \<longleftrightarrow> n < 10000 \<and> is_text s i (four_digits n)"
proof
  assume "year_at s i = Some n"
  then obtain a b c d where e: "digit_at s i = Some a" "digit_at s (i + 1) = Some b" "digit_at s (i + 2) = Some c"
    "digit_at s (i + 3) = Some d" "n = a * 1000 + b * 100 + c * 10 + d"
    by (auto simp: year_at_def split: option.splits)
  then have d: "a < 10" "b < 10" "c < 10" "d < 10" "is_text s i [digit_char a]" "is_text s (i + 1) [digit_char b]"
    "is_text s (i + 2) [digit_char c]" "is_text s (i + 3) [digit_char d]"
    using assms by (simp_all add: digit_at_iff)
  have n: "n = (a * 10 + b) * 100 + (c * 10 + d)" "c * 10 + d < 100" using e(5) d by simp_all
  have "(u * 100 + v) div 100 = u" "(u * 100 + v) mod 100 = v" if "v < 100" for u v :: nat using that by simp_all
  from this [OF n(2), of "a * 10 + b"] have "n div 100 = a * 10 + b" "n mod 100 = c * 10 + d"
    unfolding n(1) by (simp_all only:)
  then show "n < 10000 \<and> is_text s i (four_digits n)"
    using d n by (simp add: four_digits_def two_digits_def is_text_Cons numeral_3_eq_3)
next
  assume r: "n < 10000 \<and> is_text s i (four_digits n)"
  have "n div 100 < 100" using r by (simp add: div_less_iff_less_mult)
  then have "digit_at s i = Some (n div 100 div 10)" "digit_at s (i + 1) = Some (n div 100 mod 10)"
    "digit_at s (i + 2) = Some (n mod 100 div 10)" "digit_at s (i + 3) = Some (n mod 100 mod 10)"
    using r assms
    by (simp_all add: digit_at_iff four_digits_def two_digits_def is_text_Cons numeral_3_eq_3 div_less_iff_less_mult)
  moreover have "n div 100 div 10 * 1000 + n div 100 mod 10 * 100 + n mod 100 div 10 * 10 + n mod 100 mod 10 = n"
  proof -
    have "n div 100 = n div 100 div 10 * 10 + n div 100 mod 10" "n mod 100 = n mod 100 div 10 * 10 + n mod 100 mod 10"
      "n = n div 100 * 100 + n mod 100" by simp_all
    then show ?thesis by linarith
  qed
  ultimately show "year_at s i = Some n" by (simp add: year_at_def)
qed

lemma short_year_at_two:
  assumes "i + 1 < length s" "n < 100" "is_text s i (two_digits n)"
  shows "short_year_at s i = Some (n + (if n < 70 then 2000 else 1900))"
proof -
  have "digit_at s i = Some (n div 10)" "digit_at s (i + 1) = Some (n mod 10)"
    using assms by (simp_all add: digit_at_iff two_digits_def is_text_Cons div_less_iff_less_mult)
  then show ?thesis by (simp add: short_year_at_def Let_def)
qed

lemma weekday_range: "weekday t < 7" "int (weekday t) = (day_number t + 4) mod 7"
  by (simp_all add: weekday_def nat_less_iff)

lemma make_valid:
  assumes "valid_date t"
  shows "makeDate (int (hd_year t)) (hd_month t) (int (hd_day t)) (int (hd_hour t)) (int (hd_minute t)) (int (hd_second t)) (int (weekday t)) =
    Some (time_value t)" "1 \<le> hd_day t" "hd_day t < 40"
proof -
  have d: "1 \<le> int (hd_day t)" "int (hd_day t) \<le> 31"
    using assms days_in_months [of "hd_month t" "int (hd_year t)"]
    by (auto simp: valid_date_def valid_day_def of_bool_def split: if_splits)
  then show "1 \<le> hd_day t" "hd_day t < 40" by simp_all
  show "makeDate (int (hd_year t)) (hd_month t) (int (hd_day t)) (int (hd_hour t)) (int (hd_minute t)) (int (hd_second t)) (int (weekday t)) =
      Some (time_value t)"
    using assms d by (subst makeDate_eq) (simp_all add: valid_date_def weekday_range day_number_def time_value_def)
qed

lemma name_lengths:
  "w < 7 \<Longrightarrow> length (short_weekdays ! w) = 3" "m < 12 \<Longrightarrow> length (month_names ! m) = 3"
  using nth_mem [of w short_weekdays] nth_mem [of m month_names]
  by (auto simp: short_weekdays_def month_names_def simp del: nth_mem)

lemma digits_lengths [simp]: "length (two_digits n) = 2" "length (four_digits n) = 4" "length (time_text t) = 8" "length (padded_day n) = 2"
  by (simp_all add: two_digits_def four_digits_def time_text_def padded_day_def)

lemma is_text_single: "is_text s i [c] \<longleftrightarrow> is_char s i c"
  by (simp add: is_text_Cons)

text \<open>The text of a date at the places where the parser looks.\<close>

lemma imf_text_parts:
  assumes "valid_date t"
  shows "s = imf_text t \<longleftrightarrow> length s = 29 \<and> is_text s 0 (short_weekdays ! weekday t) \<and> is_char s 3 CHR '','' \<and> is_char s 4 CHR '' '' \<and>
    is_text s 5 (two_digits (hd_day t)) \<and> is_char s 7 CHR '' '' \<and> is_text s 8 (month_names ! hd_month t) \<and> is_char s 11 CHR '' '' \<and>
    is_text s 12 (four_digits (hd_year t)) \<and> is_char s 16 CHR '' '' \<and> is_text s 17 (two_digits (hd_hour t)) \<and> is_char s 19 CHR '':'' \<and>
    is_text s 20 (two_digits (hd_minute t)) \<and> is_char s 22 CHR '':'' \<and> is_text s 23 (two_digits (hd_second t)) \<and> is_char s 25 CHR '' '' \<and>
    is_char s 26 CHR ''G'' \<and> is_char s 27 CHR ''M'' \<and> is_char s 28 CHR ''T''"
proof -
  have n: "length (short_weekdays ! weekday t) = 3" "length (month_names ! hd_month t) = 3"
    using name_lengths weekday_range(1) assms by (simp_all add: valid_date_def)
  then have l: "length (imf_text t) = 29" by (simp add: imf_text_def)
  have "s = imf_text t \<longleftrightarrow> length s = 29 \<and> is_text s 0 (imf_text t)" using is_text_whole [of s "imf_text t"] l by auto
  also have "is_text s 0 (imf_text t) \<longleftrightarrow> is_text s 0 (short_weekdays ! weekday t) \<and> is_char s 3 CHR '','' \<and> is_char s 4 CHR '' '' \<and>
    is_text s 5 (two_digits (hd_day t)) \<and> is_char s 7 CHR '' '' \<and> is_text s 8 (month_names ! hd_month t) \<and> is_char s 11 CHR '' '' \<and>
    is_text s 12 (four_digits (hd_year t)) \<and> is_char s 16 CHR '' '' \<and> is_text s 17 (two_digits (hd_hour t)) \<and> is_char s 19 CHR '':'' \<and>
    is_text s 20 (two_digits (hd_minute t)) \<and> is_char s 22 CHR '':'' \<and> is_text s 23 (two_digits (hd_second t)) \<and> is_char s 25 CHR '' '' \<and>
    is_char s 26 CHR ''G'' \<and> is_char s 27 CHR ''M'' \<and> is_char s 28 CHR ''T''"
    using n by (simp add: imf_text_def time_text_def is_text_append is_text_Cons)
  finally show ?thesis .
qed

lemma makeDate_valid:
  assumes "makeDate (int y) m (int d) (int h) (int mi) (int s) (int w) = Some v"
    "y < 10000" "m < 12" "1 \<le> d" "d < 40" "h < 24" "mi < 60" "s < 60" "w < 7"
  shows "\<exists>t. valid_date t \<and> hd_year t = y \<and> hd_month t = m \<and> hd_day t = d \<and> hd_hour t = h \<and> hd_minute t = mi \<and>
    hd_second t = s \<and> weekday t = w \<and> time_value t = v"
proof -
  let ?t = "\<lparr>hd_year = y, hd_month = m, hd_day = d, hd_hour = h, hd_minute = mi, hd_second = s\<rparr>"
  have e: "valid_day (int y) m (int d) \<and> int w = (make_day (int y) m (int d) + 4) mod 7"
    "v = make_time (make_day (int y) m (int d)) (int h) (int mi) (int s)"
    using assms by (simp_all add: makeDate_eq split: if_splits)
  then have "weekday ?t = w" by (simp add: weekday_def day_number_def) (metis nat_int)
  then show ?thesis using e assms(2-)
    by (intro exI [where x = ?t]) (simp add: valid_date_def time_value_def day_number_def)
qed

lemma make_date_of_Some:
  "make_date_of y m d h mi s w = Some v \<longleftrightarrow>
    (\<exists>y' m' d' h' mi' s' w'. y = Some y' \<and> m = Some m' \<and> d = Some d' \<and> h = Some h' \<and> mi = Some mi' \<and> s = Some s' \<and> w = Some w' \<and>
      makeDate (int y') m' (int d') (int h') (int mi') (int s') (int w') = Some v)"
  by (cases y; cases m; cases d; cases h; cases mi; cases s; cases w) (simp_all add: make_date_of_def)

lemma imf_dates_iff:
  "is_char s 3 CHR '','' \<and> parseHttpDate s = Some v \<longleftrightarrow>
     (\<exists>t. valid_date t \<and> s = imf_text t \<and> v = time_value t)"
proof
  assume a: "is_char s 3 CHR '','' \<and> parseHttpDate s = Some v"
  then have p: "parseImfDate s = Some v" by (auto simp: parseHttpDate_def)
  then have l: "length s = 29" by (simp add: parseImfDate_def split: if_splits)
  from p obtain y m d h mi sec w where
    f: "year_at s 12 = Some y" "month_at s 8 = Some m" "day_at CHR ''0'' s 5 = Some d" "hour_at s 17 = Some h"
      "sixtieth_at s 20 = Some mi" "sixtieth_at s 23 = Some sec" "weekday_at s = Some w"
    and mk: "makeDate (int y) m (int d) (int h) (int mi) (int sec) (int w) = Some v"
    by (auto simp: parseImfDate_def make_date_of_Some split: if_splits)
  note g = f [simplified l year_at_iff month_at_iff day_at_iff hour_at_iff sixtieth_at_iff weekday_at_iff, simplified]
  obtain t where t: "valid_date t" "hd_year t = y" "hd_month t = m" "hd_day t = d" "hd_hour t = h" "hd_minute t = mi"
    "hd_second t = sec" "weekday t = w" "time_value t = v"
    using makeDate_valid [OF mk] g by auto
  moreover have "s = imf_text t"
    unfolding imf_text_parts [OF t(1)] using a p g l t by (simp add: parseImfDate_def split: if_splits)
  ultimately show "\<exists>t. valid_date t \<and> s = imf_text t \<and> v = time_value t" by blast
next
  assume "\<exists>t. valid_date t \<and> s = imf_text t \<and> v = time_value t"
  then obtain t where t: "valid_date t" "s = imf_text t" "v = time_value t" by blast
  note parts = t(2) [unfolded imf_text_parts [OF t(1)]]
  have r: "hd_year t < 10000" "hd_month t < 12" "hd_hour t < 24" "hd_minute t < 60" "hd_second t < 60"
    using t(1) by (simp_all add: valid_date_def)
  have "year_at s 12 = Some (hd_year t)" "month_at s 8 = Some (hd_month t)" "day_at CHR ''0'' s 5 = Some (hd_day t)"
    "hour_at s 17 = Some (hd_hour t)" "sixtieth_at s 20 = Some (hd_minute t)" "sixtieth_at s 23 = Some (hd_second t)"
    "weekday_at s = Some (weekday t)"
    using parts r make_valid(2,3) [OF t(1)] weekday_range(1)
    by (simp_all add: year_at_iff month_at_iff day_at_iff hour_at_iff sixtieth_at_iff weekday_at_iff)
  then show "is_char s 3 CHR '','' \<and> parseHttpDate s = Some v"
    using parts t(3) make_valid(1) [OF t(1)] by (simp add: parseHttpDate_def parseImfDate_def make_date_of_def)
qed

section \<open>Properties\<close>

text \<open>
  C23: the texts in the preferred format of HTTP that are accepted are exactly those of the valid dates of
  the years 0 to 9999, with the right day of the week, and each is read as its time in milliseconds; 29
  February of the year 0 is the one exception.
\<close>

theorem imf_dates_exactly:
  "is_char s 3 CHR '','' \<and> parseHttpDate s = Some v \<longleftrightarrow>
     (\<exists>t. valid_date t \<and> s = imf_text t \<and> v = time_value t)"
  by (rule imf_dates_iff)

lemma day_at_space:
  assumes "i + 1 < length s" "1 \<le> d" "d < 40" "is_text s i (padded_day d)"
  shows "day_at CHR '' '' s i = Some d"
proof (cases "d < 10")
  case True
  with assms have "is_char s i CHR '' ''" "code_at s (i + 1) = 48 + d"
    by (simp_all add: padded_day_def is_text_Cons is_char_def code_at_def)
  then show ?thesis using assms(2) True by (simp add: day_at_def number_at_def)
next
  case False
  then have c: "code_at s i = 48 + d div 10" "code_at s (Suc i) = 48 + d mod 10" using assms by (simp_all add: padded_day_def is_text_two)
  have "1 \<le> d div 10" "d div 10 \<le> 3" using False div_10 [of d 4] assms(3) by (simp_all add: div_greater_zero_iff Suc_le_eq)
  moreover have "\<not> is_char s i CHR '' ''" using c(1) by (auto simp: is_char_def code_at_def)
  ultimately show ?thesis by (simp add: day_at_def number_at_def c)
qed

lemma long_name_length: "w < 7 \<Longrightarrow> 6 \<le> length (long_weekdays ! w) \<and> long_weekdays ! w ! 3 \<noteq> CHR '','' \<and> long_weekdays ! w ! 3 \<noteq> CHR '' ''"
  using nth_mem [of w long_weekdays] by (auto simp: long_weekdays_def simp del: nth_mem)

lemma asctime_read:
  assumes "valid_date t"
  shows "parseHttpDate (asctime_text t) = Some (time_value t)"
proof -
  let ?s = "asctime_text t"
  have n: "length (short_weekdays ! weekday t) = 3" "length (month_names ! hd_month t) = 3"
    using name_lengths weekday_range(1) assms by (simp_all add: valid_date_def)
  then have l: "length ?s = 24" by (simp add: asctime_text_def)
  have "is_text s 0 (asctime_text t) \<Longrightarrow> is_text s 0 (short_weekdays ! weekday t) \<and> is_char s 3 CHR '' '' \<and>
      is_text s 4 (month_names ! hd_month t) \<and> is_char s 7 CHR '' '' \<and> is_text s 8 (padded_day (hd_day t)) \<and>
      is_char s 10 CHR '' '' \<and> is_text s 11 (two_digits (hd_hour t)) \<and> is_text s 14 (two_digits (hd_minute t)) \<and>
      is_text s 17 (two_digits (hd_second t)) \<and> is_char s 19 CHR '' '' \<and> is_text s 20 (four_digits (hd_year t))" for s
    using n unfolding asctime_text_def time_text_def is_text_append by (simp add: is_text_Cons)
  from this [of ?s] have parts: "is_text ?s 0 (short_weekdays ! weekday t)" "is_char ?s 3 CHR '' ''" "is_text ?s 4 (month_names ! hd_month t)"
    "is_char ?s 7 CHR '' ''" "is_text ?s 8 (padded_day (hd_day t))"
    "is_char ?s 10 CHR '' ''" "is_text ?s 11 (two_digits (hd_hour t))" "is_text ?s 14 (two_digits (hd_minute t))"
    "is_text ?s 17 (two_digits (hd_second t))" "is_char ?s 19 CHR '' ''" "is_text ?s 20 (four_digits (hd_year t))"
    by (simp_all add: is_text_drop)
  have r: "hd_year t < 10000" "hd_month t < 12" "hd_hour t < 24" "hd_minute t < 60" "hd_second t < 60"
    using assms by (simp_all add: valid_date_def)
  have "year_at ?s 20 = Some (hd_year t)" "month_at ?s 4 = Some (hd_month t)" "day_at CHR '' '' ?s 8 = Some (hd_day t)"
    "hour_at ?s 11 = Some (hd_hour t)" "sixtieth_at ?s 14 = Some (hd_minute t)" "sixtieth_at ?s 17 = Some (hd_second t)"
    "weekday_at ?s = Some (weekday t)"
    using parts r l make_valid(2,3) [OF assms] weekday_range(1)
    by (simp_all add: year_at_iff month_at_iff day_at_space hour_at_iff sixtieth_at_iff weekday_at_iff)
  moreover have "\<not> is_char ?s 3 CHR '',''" using parts(2) by (auto simp: is_char_def)
  ultimately show ?thesis
    using parts l make_valid(1) [OF assms] by (simp add: parseHttpDate_def parseAscTimeDate_def make_date_of_def)
qed

lemma rfc850_read:
  assumes "valid_date t" "1970 \<le> hd_year t" "hd_year t < 2070"
  shows "parseHttpDate (rfc850_text t) = Some (time_value t)"
proof -
  let ?s = "rfc850_text t" and ?c = "length (long_weekdays ! weekday t)"
  have n: "length (month_names ! hd_month t) = 3" "6 \<le> ?c"
    using name_lengths long_name_length weekday_range(1) assms by (simp_all add: valid_date_def)
  then have l: "length ?s = ?c + 24" by (simp add: rfc850_text_def)
  have c: "4 + ?c = Suc (Suc (Suc (Suc ?c)))" "5 + ?c = Suc (Suc (Suc (Suc (Suc ?c))))" by simp_all
  have "is_text s 0 (rfc850_text t) \<Longrightarrow> is_text s 0 (long_weekdays ! weekday t) \<and> is_char s ?c CHR '','' \<and>
      is_char s (?c + 1) CHR '' '' \<and> is_text s (?c + 2) (two_digits (hd_day t)) \<and> is_char s (?c + 4) CHR ''-'' \<and>
      is_text s (?c + 5) (month_names ! hd_month t) \<and> is_char s (?c + 8) CHR ''-'' \<and>
      is_text s (?c + 9) (two_digits (hd_year t mod 100)) \<and> is_char s (?c + 11) CHR '' '' \<and>
      is_text s (?c + 12) (two_digits (hd_hour t)) \<and> is_char s (?c + 14) CHR '':'' \<and>
      is_text s (?c + 15) (two_digits (hd_minute t)) \<and> is_char s (?c + 17) CHR '':'' \<and>
      is_text s (?c + 18) (two_digits (hd_second t)) \<and> is_char s (?c + 20) CHR '' '' \<and>
      is_char s (?c + 21) CHR ''G'' \<and> is_char s (?c + 22) CHR ''M'' \<and> is_char s (?c + 23) CHR ''T''" for s
    using n unfolding rfc850_text_def time_text_def is_text_append by (simp add: is_text_Cons add.commute) (simp add: c)
  from this [of ?s] have parts: "is_text ?s 0 (long_weekdays ! weekday t)" "is_char ?s ?c CHR '',''" "is_char ?s (?c + 1) CHR '' ''"
    "is_text ?s (?c + 2) (two_digits (hd_day t))" "is_char ?s (?c + 4) CHR ''-''" "is_text ?s (?c + 5) (month_names ! hd_month t)"
    "is_char ?s (?c + 8) CHR ''-''" "is_text ?s (?c + 9) (two_digits (hd_year t mod 100))" "is_char ?s (?c + 11) CHR '' ''"
    "is_text ?s (?c + 12) (two_digits (hd_hour t))" "is_char ?s (?c + 14) CHR '':''" "is_text ?s (?c + 15) (two_digits (hd_minute t))"
    "is_char ?s (?c + 17) CHR '':''" "is_text ?s (?c + 18) (two_digits (hd_second t))" "is_char ?s (?c + 20) CHR '' ''"
    "is_char ?s (?c + 21) CHR ''G''" "is_char ?s (?c + 22) CHR ''M''" "is_char ?s (?c + 23) CHR ''T''"
    by (simp_all add: is_text_drop)
  have r: "hd_month t < 12" "hd_hour t < 24" "hd_minute t < 60" "hd_second t < 60"
    using assms(1) by (simp_all add: valid_date_def)
  have y: "hd_year t mod 100 + (if hd_year t mod 100 < 70 then 2000 else 1900) = hd_year t"
  proof (cases "hd_year t < 2000")
    case True
    then obtain k where "hd_year t = 1900 + k" "70 \<le> k" "k < 100" using assms(2) by (auto dest!: le_Suc_ex)
    then show ?thesis using mod_mult_self3 [of 19 100 k] by simp
  next
    case False
    then obtain k where "hd_year t = 2000 + k" "k < 70" using assms(3) by (auto simp: not_less dest!: le_Suc_ex)
    then show ?thesis using mod_mult_self3 [of 20 100 k] by simp
  qed
  have "short_year_at ?s (?c + 9) = Some (hd_year t)"
    by (subst short_year_at_two [OF _ _ parts(8)]) (use l y in simp_all)
  moreover have "month_at ?s (?c + 5) = Some (hd_month t)" "day_at CHR ''0'' ?s (?c + 2) = Some (hd_day t)"
    "hour_at ?s (?c + 12) = Some (hd_hour t)" "sixtieth_at ?s (?c + 15) = Some (hd_minute t)"
    "sixtieth_at ?s (?c + 18) = Some (hd_second t)" "name_at ?s 0 long_weekdays 0 = Some (weekday t)"
    using parts r l make_valid(2,3) [OF assms(1)] weekday_range(1)
    by (simp_all add: month_at_iff day_at_iff hour_at_iff sixtieth_at_iff long_weekday_iff)
  moreover have "?s ! 3 = long_weekdays ! weekday t ! 3" using n(2) by (simp add: rfc850_text_def nth_append)
  then have "\<not> is_char ?s 3 CHR '',''" "\<not> is_char ?s 3 CHR '' ''"
    using long_name_length [OF weekday_range(1)] by (simp_all add: is_char_def)
  ultimately show ?thesis
    using parts l make_valid(1) [OF assms(1)]
    by (simp add: parseHttpDate_def parseRfc850Date_def make_date_of_def Let_def)
qed


definition demo_date :: http_date where
  "demo_date = \<lparr>hd_year = 1994, hd_month = 10, hd_day = 6, hd_hour = 8, hd_minute = 49, hd_second = 37\<rparr>"

lemma demo_date_day: "day_number demo_date = 9075"
  by (simp add: demo_date_def day_number_def make_day_def day_from_year_def month_starts leap_year_def)

lemma demo_date_parts: "valid_date demo_date" "time_value demo_date = 784111777000" "weekday demo_date = 0"
  by (simp_all add: valid_date_def valid_day_def days_in_months time_value_def make_time_def weekday_def demo_date_day)
    (simp_all add: demo_date_def days_in_months)


end
