(* ===== verification/Cookies.thy ===== *)
theory Cookies
  imports HeaderTree HttpDate Doubles
begin

text \<open>
  \<open>undici/lib/web/cookies\<close>: \<open>util.js\<close>, which writes a cookie, and \<open>parse.js\<close>, which reads one. A cookie
  comes from the dictionary converter of \<open>index.js\<close>: strings, booleans, an integer for \<open>maxAge\<close> (which
  prints exactly below 2 ^ 53), and for \<open>expires\<close> a number or a \<open>Date\<close>, possibly an invalid one.

  \<open>new Date(text)\<close> of the language accepts texts that depend on the implementation: the parameter
  \<open>date_parse\<close>. \<open>js_trim\<close> and \<open>latin1_lower\<close> are the string methods on 8-bit characters.
\<close>

section \<open>Validation\<close>

datatype cookie_error = InvalidName | InvalidValue | InvalidPath | InvalidDomain | InvalidMaxAge | InvalidUnparsed

definition char_code :: "char \<Rightarrow> nat" where
  "char_code c = of_char c"

definition isCTLExcludingHtab :: "string \<Rightarrow> bool" where
  "isCTLExcludingHtab v \<longleftrightarrow>
     list_ex (\<lambda>c. let code = char_code c in code \<le> 8 \<or> 10 \<le> code \<and> code \<le> 31 \<or> code = 127) v"

definition cookie_name_char :: "char \<Rightarrow> bool" where
  "cookie_name_char c \<longleftrightarrow>
     (let code = char_code c in \<not> (code < 33 \<or> code > 126 \<or>
        code \<in> set [34, 40, 41, 60, 62, 64, 44, 59, 58, 92, 47, 91, 93, 63, 61, 123, 125]))"

definition validateCookieName :: "string \<Rightarrow> bool" where
  "validateCookieName name \<longleftrightarrow> list_all cookie_name_char name"

definition cookie_value_char :: "char \<Rightarrow> bool" where
  "cookie_value_char c \<longleftrightarrow>
     (let code = char_code c in \<not> (code < 33 \<or> code > 126 \<or> code = 34 \<or> code = 44 \<or> code = 59 \<or> code = 92))"

text \<open>Between quotes, when the first character is one.\<close>

definition validateCookieValue :: "string \<Rightarrow> bool" where
  "validateCookieValue v \<longleftrightarrow>
     (if v \<noteq> [] \<and> hd v = CHR 0x22
      then length v \<noteq> 1 \<and> last v = CHR 0x22 \<and> list_all cookie_value_char (butlast (tl v))
      else list_all cookie_value_char v)"

definition validateCookiePath :: "string \<Rightarrow> bool" where
  "validateCookiePath path \<longleftrightarrow>
     list_all (\<lambda>c. let code = char_code c in \<not> (code < 32 \<or> code > 126 \<or> code = 59)) path"

definition isLetterOrDigit :: "nat \<Rightarrow> bool" where
  "isLetterOrDigit code \<longleftrightarrow> 48 \<le> code \<and> code \<le> 57 \<or> 65 \<le> code \<and> code \<le> 90 \<or> 97 \<le> code \<and> code \<le> 122"

text \<open>The loop over a domain, with the length of the label and the character before; the end is the last test.\<close>

fun domain_labels :: "nat \<Rightarrow> nat \<Rightarrow> string \<Rightarrow> bool" where
  "domain_labels labelLength before [] \<longleftrightarrow> \<not> (labelLength = 0 \<or> before = 45)"
| "domain_labels labelLength before (c # s) \<longleftrightarrow>
     (let code = char_code c in
      if code = 46 then labelLength \<noteq> 0 \<and> before \<noteq> 45 \<and> domain_labels 0 code s
      else if labelLength = 0 \<and> \<not> isLetterOrDigit code then False
      else if \<not> isLetterOrDigit code \<and> code \<noteq> 45 then False
      else labelLength + 1 \<le> 63 \<and> domain_labels (labelLength + 1) code s)"

definition validateCookieDomain :: "string \<Rightarrow> bool" where
  "validateCookieDomain domain \<longleftrightarrow> domain = '' '' \<or> length domain \<le> 255 \<and> domain_labels 0 0 domain"

definition validateCookieMaxAge :: "int \<Rightarrow> bool" where
  "validateCookieMaxAge maxAge \<longleftrightarrow> \<not> maxAge < 0"

section \<open>Writing\<close>

definition padded_number :: "int \<Rightarrow> string" where
  "padded_number n = (let s = show_int n in replicate (2 - length s) CHR ''0'' @ s)"

text \<open>A time value outside the range of \<open>Date\<close> is \<open>NaN\<close>, which indexes nothing.\<close>

definition toIMFDate :: "int \<Rightarrow> string" where
  "toIMFDate t =
     (if \<bar>t\<bar> > 8640000000000000
      then ''undefined, undefined undefined NaN undefined:undefined:undefined GMT''
      else short_weekdays ! nat (weekday_of t) @ '', '' @ padded_number (date_of_day (day_of t)) @ '' '' @
        month_names ! month_of_day (day_of t) @ '' '' @ show_int (year_of_day (day_of t)) @ '' '' @
        padded_number (hour_of t) @ '':'' @ padded_number (minute_of t) @ '':'' @ padded_number (second_of t) @ '' GMT'')"

datatype cookie_expiry = NoExpiry | ExpiryNumber int | ExpiryDate int | InvalidDate

record cookie =
  ck_name :: string
  ck_value :: string
  ck_expires :: cookie_expiry
  ck_maxAge :: "int option"
  ck_domain :: "string option"
  ck_path :: "string option"
  ck_secure :: bool
  ck_httpOnly :: bool
  ck_sameSite :: "string option"
  ck_unparsed :: "string list"

text \<open>The prefixes of the name set attributes.\<close>

definition prefixed :: "cookie \<Rightarrow> cookie" where
  "prefixed c =
     (let c1 = (if starts_with (ck_name c) ''__Secure-'' then c\<lparr>ck_secure := True\<rparr> else c) in
      if starts_with (ck_name c1) ''__Host-'' then c1\<lparr>ck_secure := True, ck_domain := None, ck_path := Some ''/''\<rparr> else c1)"

text \<open>The number 0 is false, so it is no expiry; a \<open>Date\<close> is true.\<close>

definition expires_text :: "cookie_expiry \<Rightarrow> string list" where
  "expires_text e =
     (case e of
        NoExpiry \<Rightarrow> [] | InvalidDate \<Rightarrow> []
      | ExpiryNumber n \<Rightarrow> if n = 0 then [] else [''Expires='' @ toIMFDate n]
      | ExpiryDate t \<Rightarrow> [''Expires='' @ toIMFDate t])"

definition unparsed_pair :: "string \<Rightarrow> string \<times> string" where
  "unparsed_pair part =
     (let pieces = split_char CHR ''='' part in (js_trim (hd pieces), join ''='' (tl pieces)))"

fun unparsed_text :: "string list \<Rightarrow> cookie_error + string list" where
  "unparsed_text [] = Inr []"
| "unparsed_text (part # parts) =
     (if \<not> str_includes part ''='' then Inl InvalidUnparsed
      else (let (trimmedKey, joinedValue) = unparsed_pair part in
            if \<not> validateCookieName trimmedKey then Inl InvalidName
            else if \<not> validateCookieValue joinedValue then Inl InvalidValue
            else (case unparsed_text parts of
                    Inl e \<Rightarrow> Inl e | Inr out \<Rightarrow> Inr ((trimmedKey @ ''='' @ joinedValue) # out))))"

text \<open>What is written after the name and the value, without the unparsed attributes.\<close>

definition attribute_texts :: "cookie \<Rightarrow> string list" where
  "attribute_texts c =
     (if ck_secure c then [''Secure''] else []) @
     (if ck_httpOnly c then [''HttpOnly''] else []) @
     (case ck_maxAge c of Some n \<Rightarrow> [''Max-Age='' @ show_int n] | None \<Rightarrow> []) @
     (case ck_domain c of Some d \<Rightarrow> if d \<noteq> [] then [''Domain='' @ d] else [] | None \<Rightarrow> []) @
     (case ck_path c of Some p \<Rightarrow> if p \<noteq> [] then [''Path='' @ p] else [] | None \<Rightarrow> []) @
     expires_text (ck_expires c) @
     (case ck_sameSite c of Some s \<Rightarrow> if s \<noteq> [] then [''SameSite='' @ s] else [] | None \<Rightarrow> [])"

text \<open>\<open>None\<close> is \<open>null\<close>; the tests are in the order of the code.\<close>

definition cookie_stringify :: "cookie \<Rightarrow> cookie_error + string option" where
  "cookie_stringify cookie =
     (if ck_name cookie = [] then Inr None
      else if \<not> validateCookieName (ck_name cookie) then Inl InvalidName
      else if \<not> validateCookieValue (ck_value cookie) then Inl InvalidValue
      else (let c = prefixed cookie;
                domain = (case ck_domain c of Some d \<Rightarrow> d | None \<Rightarrow> []);
                path = (case ck_path c of Some p \<Rightarrow> p | None \<Rightarrow> []) in
            if ck_maxAge c \<noteq> None \<and> \<not> validateCookieMaxAge (the (ck_maxAge c)) then Inl InvalidMaxAge
            else if domain \<noteq> [] \<and> \<not> validateCookieDomain domain then Inl InvalidDomain
            else if path \<noteq> [] \<and> \<not> validateCookiePath path then Inl InvalidPath
            else (case unparsed_text (ck_unparsed c) of
                    Inl e \<Rightarrow> Inl e
                  | Inr rest \<Rightarrow> Inr (Some (join ''; '' ((ck_name c @ ''='' @ ck_value c) # attribute_texts c @ rest))))))"

section \<open>Reading\<close>

definition maxAttributeValueSize :: nat where "maxAttributeValueSize = 1024"
definition maxNameValuePairSize :: nat where "maxNameValuePairSize = 4096"

datatype js_age = Seconds int | Infinite bool

record cookie_attributes =
  at_expires :: "int option"
  at_maxAge :: "js_age option"
  at_domain :: "string option"
  at_path :: "string option"
  at_secure :: bool
  at_httpOnly :: bool
  at_sameSite :: "string option"
  at_unparsed :: "string list option"

definition no_attributes :: cookie_attributes where
  "no_attributes = \<lparr>at_expires = None, at_maxAge = None, at_domain = None, at_path = None, at_secure = False,
     at_httpOnly = False, at_sameSite = None, at_unparsed = None\<rparr>"

text \<open>\<open>Number\<close> of digits behind an optional sign, rounded; the sign of zero is not kept.\<close>

definition digits_number :: "string \<Rightarrow> js_age" where
  "digits_number v =
     (let neg = (hd v = CHR ''-''); n = fl53 (nat_of_digits (if neg then tl v else v)) in
      if n < 2 ^ 1024 then Seconds (if neg then - int n else int n) else Infinite neg)"

definition age_of :: "string \<Rightarrow> js_age option" where
  "age_of v =
     (let startsWithDigit = (v \<noteq> [] \<and> is_digit (hd v));
          startsWithSignedDigit = (v \<noteq> [] \<and> hd v = CHR ''-'' \<and> length v > 1) in
      if \<not> startsWithDigit \<and> \<not> startsWithSignedDigit then None
      else if list_ex (\<lambda>c. \<not> is_digit c) (drop 1 v) then None
      else Some (digits_number v))"

definition same_site_of :: "string \<Rightarrow> string option" where
  "same_site_of v =
     (let l = latin1_lower v in
      if l = ''none'' then Some ''None'' else if l = ''strict'' then Some ''Strict''
      else if l = ''lax'' then Some ''Lax'' else None)"

definition put_attribute :: "(string \<Rightarrow> int option) \<Rightarrow> string \<Rightarrow> string \<Rightarrow> cookie_attributes \<Rightarrow> cookie_attributes" where
  "put_attribute date_parse name v a =
     (let l = latin1_lower name in
      if l = ''expires'' then (case date_parse v of None \<Rightarrow> a | Some t \<Rightarrow> a\<lparr>at_expires := Some t\<rparr>)
      else if l = ''max-age'' then (case age_of v of None \<Rightarrow> a | Some n \<Rightarrow> a\<lparr>at_maxAge := Some n\<rparr>)
      else if l = ''domain''
      then a\<lparr>at_domain := Some (latin1_lower (if v \<noteq> [] \<and> hd v = CHR ''.'' then tl v else v))\<rparr>
      else if l = ''path'' then a\<lparr>at_path := Some (if v = [] \<or> hd v \<noteq> CHR ''/'' then ''/'' else v)\<rparr>
      else if l = ''secure'' then a\<lparr>at_secure := True\<rparr>
      else if l = ''httponly'' then a\<lparr>at_httpOnly := True\<rparr>
      else if l = ''samesite'' then (case same_site_of v of None \<Rightarrow> a | Some s \<Rightarrow> a\<lparr>at_sameSite := Some s\<rparr>)
      else a\<lparr>at_unparsed := Some ((case at_unparsed a of None \<Rightarrow> [] | Some us \<Rightarrow> us) @ [name @ ''='' @ v])\<rparr>)"

text \<open>One turn of the loop, on the text between two semicolons.\<close>

definition cut_pair :: "string \<Rightarrow> string \<times> string" where
  "cut_pair s =
     (let (name, rest) = collectASequenceOfCodePointsFast CHR ''='' s in
      if str_includes s ''='' then (name, drop 1 rest) else (s, []))"

definition read_attribute :: "(string \<Rightarrow> int option) \<Rightarrow> string \<Rightarrow> cookie_attributes \<Rightarrow> cookie_attributes" where
  "read_attribute date_parse cookieAv a =
     (let (n, v) = cut_pair cookieAv; attributeName = js_trim n; attributeValue = js_trim v in
      if length attributeValue > maxAttributeValueSize then a
      else put_attribute date_parse attributeName attributeValue a)"

text \<open>\<open>None\<close> is the assertion that a semicolon comes first.\<close>

fun parseUnparsedAttributes :: "(string \<Rightarrow> int option) \<Rightarrow> string \<Rightarrow> cookie_attributes \<Rightarrow> cookie_attributes option" where
  "parseUnparsedAttributes date_parse [] a = Some a"
| "parseUnparsedAttributes date_parse (c # s) a =
     (if c \<noteq> CHR '';'' then None
      else parseUnparsedAttributes date_parse (dropWhile (\<lambda>x. x \<noteq> CHR '';'') s)
             (read_attribute date_parse (takeWhile (\<lambda>x. x \<noteq> CHR '';'') s) a))"

record parsed_cookie =
  pc_name :: string
  pc_value :: string
  pc_attributes :: cookie_attributes

text \<open>The inner \<open>None\<close> is \<open>null\<close>, the outer one a failed assertion.\<close>

definition parseSetCookie :: "(string \<Rightarrow> int option) \<Rightarrow> string \<Rightarrow> parsed_cookie option option" where
  "parseSetCookie date_parse header =
     (if isCTLExcludingHtab header then Some None
      else (let (nameValuePair, unparsedAttributes) = collectASequenceOfCodePointsFast CHR '';'' header;
                (name, v) = (if str_includes nameValuePair ''='' then cut_pair nameValuePair else ([], nameValuePair));
                name = js_trim name; v = js_trim v in
            if length name + length v > maxNameValuePairSize then Some None
            else (case parseUnparsedAttributes date_parse unparsedAttributes no_attributes of
                    None \<Rightarrow> None
                  | Some a \<Rightarrow> Some (Some \<lparr>pc_name = name, pc_value = v, pc_attributes = a\<rparr>))))"

section \<open>Characters\<close>

text \<open>The characters of a written cookie between its semicolons.\<close>

definition attr_char :: "char \<Rightarrow> bool" where
  "attr_char c \<longleftrightarrow> (let code = char_code c in 32 \<le> code \<and> code \<le> 126 \<and> code \<noteq> 59)"

abbreviation attr_text :: "string \<Rightarrow> bool" where
  "attr_text \<equiv> list_all attr_char"

lemma char_code_eq: "c = d \<longleftrightarrow> char_code c = char_code d"
  by (simp add: char_code_def)

lemma space_code: "is_ws c \<longleftrightarrow> char_code c \<in> {9, 10, 11, 12, 13, 32, 160}"
  by (simp add: is_ws_def char_code_eq [of c]) (simp add: char_code_def)

lemma digit_code: "is_digit c \<longleftrightarrow> 48 \<le> char_code c \<and> char_code c \<le> 57"
  by (simp add: is_digit_def char_code_def Let_def)

lemma visible_chars:
  "cookie_name_char c \<Longrightarrow> attr_char c \<and> c \<noteq> CHR ''='' \<and> \<not> is_ws c"
  "cookie_value_char c \<Longrightarrow> attr_char c \<and> \<not> is_ws c"
  "isLetterOrDigit (char_code c) \<Longrightarrow> attr_char c \<and> \<not> is_ws c"
  "is_digit c \<Longrightarrow> attr_char c \<and> \<not> is_ws c"
  by (auto simp: cookie_name_char_def cookie_value_char_def isLetterOrDigit_def digit_code attr_char_def space_code Let_def)
    (simp add: char_code_def)

lemma attr_char_plain: "attr_char c \<Longrightarrow> c \<noteq> CHR '';''"
  by (auto simp: attr_char_def char_code_def)

lemma no_controls: "list_all (\<lambda>c. attr_char c \<or> c = CHR '';'') s \<Longrightarrow> \<not> isCTLExcludingHtab s"
  by (auto simp: isCTLExcludingHtab_def list_ex_iff list_all_iff attr_char_def Let_def char_code_def)

lemma trim_solid: "list_all (\<lambda>c. \<not> is_ws c) s \<Longrightarrow> js_trim s = s"
proof (cases "s = []")
  case False
  assume "list_all (\<lambda>c. \<not> is_ws c) s"
  then have "\<not> is_ws (hd s)" "\<not> is_ws (last s)" using False by (simp_all add: list_all_iff)
  then show ?thesis using False by (rule trim_plain [rotated])
qed (simp add: js_trim_def js_trim_start_def js_trim_end_def)

lemma trim_space: "js_trim ('' '' @ s) = js_trim s"
  by (simp add: js_trim_def js_trim_start_def is_ws_def)

lemma trim_Nil [simp]: "js_trim [] = []"
  by (simp add: trim_solid)

abbreviation solid_text :: "string \<Rightarrow> bool" where
  "solid_text s \<equiv> list_all (\<lambda>c. attr_char c \<and> \<not> is_ws c) s"

lemma solid_attr: "solid_text s \<Longrightarrow> attr_text s" "solid_text s \<Longrightarrow> js_trim s = s"
  by (auto simp: list_all_iff intro: trim_solid)

lemma name_text: "validateCookieName n \<Longrightarrow> solid_text n \<and> CHR ''='' \<notin> set n"
  by (auto simp: validateCookieName_def list_all_iff dest: visible_chars(1))

lemma value_text:
  assumes "validateCookieValue v"
  shows "solid_text v"
proof -
  have q: "attr_char CHR 0x22 \<and> \<not> is_ws CHR 0x22" by (simp add: attr_char_def is_ws_def char_code_def)
  have solid: "list_all cookie_value_char s \<Longrightarrow> solid_text s" for s
    by (auto simp: list_all_iff dest: visible_chars(2))
  show ?thesis
  proof (cases v rule: rev_cases)
    case (snoc u c)
    show ?thesis
    proof (cases u)
      case Nil
      then show ?thesis using assms snoc solid [of v] by (simp add: validateCookieValue_def split: if_splits)
    next
      case (Cons d w)
      then show ?thesis using assms snoc solid [of v] solid [of w] q
        by (simp add: validateCookieValue_def split: if_splits)
    qed
  qed simp
qed

lemma label_chars:
  assumes "char_code c = 46 \<or> isLetterOrDigit (char_code c) \<or> char_code c = 45"
  shows "attr_char c \<and> \<not> is_ws c"
  using assms visible_chars(3) by (auto simp: attr_char_def space_code Let_def)

lemma domain_labels_text: "domain_labels l b d \<Longrightarrow> solid_text d"
proof (induction l b d rule: domain_labels.induct)
  case (2 l b c s)
  then have "char_code c = 46 \<or> isLetterOrDigit (char_code c) \<or> char_code c = 45"
    by (auto simp: Let_def split: if_splits)
  moreover have "solid_text s" using 2 by (auto simp: Let_def split: if_splits)
  ultimately show ?case using label_chars by simp
qed simp

lemma domain_text: "validateCookieDomain d \<Longrightarrow> d \<noteq> '' '' \<Longrightarrow> solid_text d"
  unfolding validateCookieDomain_def using domain_labels_text by blast

lemma path_text: "validateCookiePath p \<longleftrightarrow> attr_text p"
  by (auto simp: validateCookiePath_def attr_char_def Let_def list_all_iff)

lemma number_text: "0 \<le> n \<Longrightarrow> solid_text (show_int n)"
  using visible_chars(4) by (auto simp: show_int_def list_all_iff dest: show_nat_digits)

section \<open>Pieces\<close>

lemma join_pieces: "join d (p # ps) = p @ concat (map (\<lambda>q. d @ q) ps)"
  by (induction ps arbitrary: p) simp_all

lemma until_semicolon:
  assumes "attr_text s" "t = [] \<or> hd t = CHR '';''"
  shows "takeWhile (\<lambda>x. x \<noteq> CHR '';'') (s @ t) = s" "dropWhile (\<lambda>x. x \<noteq> CHR '';'') (s @ t) = t"
proof -
  have s: "\<forall>c \<in> set s. c \<noteq> CHR '';''" using assms(1) attr_char_plain by (auto simp: list_all_iff)
  then show "takeWhile (\<lambda>x. x \<noteq> CHR '';'') (s @ t) = s" "dropWhile (\<lambda>x. x \<noteq> CHR '';'') (s @ t) = t"
    using assms(2) by (cases t; simp)+
qed

lemma attr_space: "attr_char CHR '' ''"
  by (simp add: attr_char_def char_code_def)

lemma pieces_plain:
  assumes "attr_text p" "list_all attr_text ps"
  shows "\<not> isCTLExcludingHtab (p @ concat (map (\<lambda>q. ''; '' @ q) ps))"
proof -
  have "attr_text s \<Longrightarrow> list_all (\<lambda>c. attr_char c \<or> c = CHR '';'') s" for s by (auto simp: list_all_iff)
  then have "list_all (\<lambda>c. attr_char c \<or> c = CHR '';'') (concat (map (\<lambda>q. ''; '' @ q) ps))"
    using assms(2) attr_space by (induction ps) simp_all
  then show ?thesis using assms(1) by (intro no_controls) (auto simp: list_all_iff)
qed

lemma parse_pieces:
  "list_all attr_text ps \<Longrightarrow>
   parseUnparsedAttributes dp (concat (map (\<lambda>q. ''; '' @ q) ps)) a = Some (fold (\<lambda>p. read_attribute dp ('' '' @ p)) ps a)"
proof (induction ps arbitrary: a)
  case (Cons p ps)
  let ?t = "concat (map (\<lambda>q. ''; '' @ q) ps)"
  have t: "?t = [] \<or> hd ?t = CHR '';''" by (cases ps) simp_all
  have "attr_text (CHR '' '' # p)" using Cons.prems attr_space by simp
  note u = until_semicolon [OF this t]
  show ?case using Cons u by simp
qed simp

lemma cut_at_equals:
  assumes "CHR ''='' \<notin> set n"
  shows "cut_pair (n @ ''='' @ v) = (n, v)"
proof -
  have "str_includes (n @ ''='' @ v) ''=''" using includes_append by blast
  moreover have "takeWhile (\<lambda>x. x \<noteq> CHR ''='') (n @ CHR ''='' # v) = n" "dropWhile (\<lambda>x. x \<noteq> CHR ''='') (n @ CHR ''='' # v) = CHR ''='' # v"
    using assms by (subst takeWhile_append2 dropWhile_append2; auto)+
  ultimately show ?thesis by (simp add: cut_pair_def collect_fast)
qed

lemma read_pair:
  assumes "CHR ''='' \<notin> set n" "js_trim n = n"
  shows "read_attribute dp ('' '' @ n @ ''='' @ v) a =
    (if length (js_trim v) > maxAttributeValueSize then a else put_attribute dp n (js_trim v) a)"
  using cut_at_equals [of "CHR '' '' # n" v] assms trim_space [of n] by (simp add: read_attribute_def)

lemma read_flag:
  assumes "CHR ''='' \<notin> set n" "js_trim n = n"
  shows "read_attribute dp ('' '' @ n) a = put_attribute dp n [] a"
proof -
  have "\<not> str_includes (CHR '' '' # n) ''=''" using assms(1) by (auto simp: includes_append Cons_eq_append_conv)
  then show ?thesis using assms(2) trim_space [of n]
    by (simp add: read_attribute_def cut_pair_def collect_fast)
qed

section \<open>Dates\<close>

lemma length_show_nat: "n < 10 ^ k \<Longrightarrow> 0 < k \<Longrightarrow> length (show_nat n) \<le> k"
proof (induction n arbitrary: k rule: show_nat.induct)
  case (1 n)
  show ?case
  proof (cases "n < 10")
    case True
    then show ?thesis using "1.prems" by (subst show_nat.simps) simp
  next
    case False
    have "k \<noteq> 1" using False "1.prems" by auto
    then obtain j where k: "k = Suc j" "0 < j" using "1.prems"(2) by (cases k) auto
    then have "n div 10 < 10 ^ j" using "1.prems" div_less_iff_less_mult [of 10 n "10 ^ j"] by (simp add: mult.commute)
    then have "length (show_nat (n div 10)) \<le> j" using "1.IH" False k(2) by blast
    then show ?thesis using False k(1) by (subst show_nat.simps) simp
  qed
qed

lemma length_show_int: "\<bar>i\<bar> < 10 ^ k \<Longrightarrow> 0 < k \<Longrightarrow> length (show_int i) \<le> k + 1"
proof -
  assume a: "\<bar>i\<bar> < 10 ^ k" "0 < k"
  then have "int (nat \<bar>i\<bar>) < int (10 ^ k)" by simp
  then have "nat \<bar>i\<bar> < 10 ^ k" by (simp only: of_nat_less_iff)
  then have "length (show_nat (nat \<bar>i\<bar>)) \<le> k" using a(2) by (rule length_show_nat)
  then show ?thesis by (auto simp: show_int_def split: if_splits)
qed

lemma abs_div_le: "0 < k \<Longrightarrow> \<bar>x div k\<bar> \<le> \<bar>x :: int\<bar>"
proof (cases "0 \<le> x")
  case True
  assume k: "0 < k"
  then have "x div k \<le> x div 1" "0 \<le> x div k" using True zdiv_mono2 [of x 1 k] by (simp_all add: pos_imp_zdiv_nonneg_iff)
  then show ?thesis by simp
next
  case False
  assume k: "0 < k"
  then have "x div 1 \<le> x div k" "x div k < 0" using False zdiv_mono2_neg [of x 1 k] by (simp_all add: pos_imp_zdiv_neg_iff)
  then show ?thesis by simp
qed

lemma month_range: "month_of_day n < 12"
proof -
  have "month_of_day n \<le> length [1..<12 :: nat]" unfolding month_of_day_def Let_def by (rule length_filter_le)
  then show ?thesis by simp
qed

lemma calendar_bounds:
  assumes "\<bar>t\<bar> \<le> 8640000000000000"
  shows "\<bar>year_of_day (day_of t)\<bar> < 10 ^ 19" "\<bar>date_of_day (day_of t)\<bar> < 10 ^ 22"
proof -
  define n y where "n = day_of t" and "y = year_of_day n"
  have n: "\<bar>n\<bar> \<le> 8640000000000000" using abs_div_le [of 86400000 t] assms by (simp add: n_def day_of_def)
  have "\<bar>400 * n div 146097\<bar> \<le> \<bar>400 * n\<bar>" by (rule abs_div_le) simp
  then have y: "\<bar>y\<bar> \<le> 400 * 8640000000000000 + 1971"
    using n unfolding y_def year_of_day_def nearest_year_def by (auto simp: abs_if split: if_splits)
  have m: "0 \<le> month_start y (month_of_day n)" "month_start y (month_of_day n) \<le> 366"
    using month_start_range [OF month_range, of y n] month_start_mono [of "month_of_day n" "month_of_day n + 1" y] month_range [of n]
    by (auto simp: of_bool_def split: if_splits)
  have k: "\<bar>y - k\<bar> \<le> 10 ^ 19" if "0 \<le> k" "k \<le> 1970" for k using y that by simp
  have q: "\<bar>(y - k) div j\<bar> \<le> 10 ^ 19" if "0 \<le> k" "k \<le> 1970" "0 < j" for k j
    using abs_div_le [OF that(3), of "y - k"] k [OF that(1,2)] by (rule order_trans)
  have d: "\<bar>day_from_year y\<bar> \<le> 368 * 10 ^ 19"
    using k [of 1970] q [of 1969 4] q [of 1901 100] q [of 1601 400] unfolding day_from_year_def abs_le_iff by simp
  have "date_of_day (day_of t) = n - day_from_year y - month_start y (month_of_day n) + 1"
    by (simp add: date_of_day_def n_def y_def)
  then show "\<bar>date_of_day (day_of t)\<bar> < 10 ^ 22"
    using m n d unfolding abs_le_iff abs_less_iff by simp
  show "\<bar>year_of_day (day_of t)\<bar> < 10 ^ 19" using y by (simp add: y_def n_def)
qed

lemma show_int_text: "attr_text (show_int n)" "show_int n \<noteq> []"
proof -
  have "attr_char CHR ''-''" by (simp add: attr_char_def char_code_def)
  moreover have "attr_text (show_nat k)" for k using show_nat_digits visible_chars(4) by (auto simp: list_all_iff)
  ultimately show "attr_text (show_int n)" by (simp add: show_int_def)
  show "show_int n \<noteq> []" by (simp add: show_int_def)
qed

lemma padded_text: "attr_text (padded_number n)" "\<bar>n\<bar> < 10 ^ 22 \<Longrightarrow> length (padded_number n) \<le> 25"
proof -
  have "attr_char CHR ''0''" by (simp add: attr_char_def char_code_def)
  then show "attr_text (padded_number n)" using show_int_text by (auto simp: padded_number_def Let_def list_all_iff)
  show "\<bar>n\<bar> < 10 ^ 22 \<Longrightarrow> length (padded_number n) \<le> 25"
    using length_show_int [of n 22] by (simp add: padded_number_def Let_def)
qed

lemma calendar_names: "i < 7 \<Longrightarrow> solid_text (short_weekdays ! i)" "m < 12 \<Longrightarrow> solid_text (month_names ! m)"
proof -
  have "list_all solid_text (short_weekdays @ month_names)"
    by (simp add: short_weekdays_def month_names_def attr_char_def is_ws_def char_code_def)
  then show "i < 7 \<Longrightarrow> solid_text (short_weekdays ! i)" "m < 12 \<Longrightarrow> solid_text (month_names ! m)"
    unfolding list_all_append by (simp_all add: list_all_length)
qed

lemma date_text:
  "attr_text (toIMFDate t)" "js_trim (toIMFDate t) = toIMFDate t" "length (toIMFDate t) \<le> 1024"
proof -
  have l: "attr_text '' GMT''" "attr_text '':''" "attr_text '' ''" "attr_text '', ''"
    by (simp_all add: attr_char_def char_code_def)
  have w: "nat (weekday_of t) < 7" by (simp add: weekday_of_def nat_less_iff)
  note names = calendar_names(1) [OF w] calendar_names(2) [OF month_range, of "day_of t"]
  have "attr_text (toIMFDate t) \<and> js_trim (toIMFDate t) = toIMFDate t \<and> length (toIMFDate t) \<le> 1024"
  proof (cases "\<bar>t\<bar> > 8640000000000000")
    case True
    have u: "toIMFDate t = ''undefined, undefined undefined NaN undefined:undefined:undefined GMT''"
      using True by (simp add: toIMFDate_def)
    have "js_trim (toIMFDate t) = toIMFDate t" by (rule trim_plain) (simp_all add: u is_ws_def)
    then show ?thesis by (simp add: u attr_char_def char_code_def)
  next
    case False
    then have t: "\<bar>t\<bar> \<le> 8640000000000000" by simp
    have h: "\<bar>hour_of t\<bar> < 10 ^ 22" "\<bar>minute_of t\<bar> < 10 ^ 22" "\<bar>second_of t\<bar> < 10 ^ 22"
      using pos_mod_bound [of 24 "t div 3600000"] pos_mod_sign [of 24 "t div 3600000"] pos_mod_bound [of 60 "t div 60000"]
        pos_mod_sign [of 60 "t div 60000"] pos_mod_bound [of 60 "t div 1000"] pos_mod_sign [of 60 "t div 1000"]
      by (simp_all add: hour_of_def minute_of_def second_of_def)
    note b = calendar_bounds [OF t]
    have "js_trim (toIMFDate t) = toIMFDate t"
    proof (rule trim_plain)
      show "\<not> is_ws (hd (toIMFDate t))" using names(1) name_lengths(1) [OF w] False
        by (cases "short_weekdays ! nat (weekday_of t)") (simp_all add: toIMFDate_def)
    qed (use False in \<open>simp_all add: toIMFDate_def is_ws_def\<close>)
    moreover have "attr_text (toIMFDate t)"
      using False l names [THEN solid_attr(1)] show_int_text padded_text(1) by (simp add: toIMFDate_def)
    moreover have "length (toIMFDate t) \<le> 1024"
      using False padded_text(2) [OF b(2)] padded_text(2) [OF h(1)] padded_text(2) [OF h(2)] padded_text(2) [OF h(3)]
        length_show_int [OF b(1)] name_lengths(1) [OF w] name_lengths(2) [OF month_range, of "day_of t"]
      by (simp add: toIMFDate_def)
    ultimately show ?thesis by simp
  qed
  then show "attr_text (toIMFDate t)" "js_trim (toIMFDate t) = toIMFDate t" "length (toIMFDate t) \<le> 1024" by simp_all
qed

section \<open>Reading one attribute\<close>

lemma lower_attributes:
  "latin1_lower ''Secure'' = ''secure''" "latin1_lower ''HttpOnly'' = ''httponly''" "latin1_lower ''Max-Age'' = ''max-age''"
  "latin1_lower ''Domain'' = ''domain''" "latin1_lower ''Path'' = ''path''" "latin1_lower ''Expires'' = ''expires''"
  "latin1_lower ''SameSite'' = ''samesite''" "latin1_lower ''Strict'' = ''strict''" "latin1_lower ''Lax'' = ''lax''"
  "latin1_lower ''None'' = ''none''"
  by (simp_all add: latin1_lower_def latin1_lower_char_def char_of_def bit_iff_odd)

lemma put_known:
  "put_attribute dp ''Secure'' v a = a\<lparr>at_secure := True\<rparr>"
  "put_attribute dp ''HttpOnly'' v a = a\<lparr>at_httpOnly := True\<rparr>"
  "put_attribute dp ''Max-Age'' v a = (case age_of v of None \<Rightarrow> a | Some n \<Rightarrow> a\<lparr>at_maxAge := Some n\<rparr>)"
  "put_attribute dp ''Domain'' v a = a\<lparr>at_domain := Some (latin1_lower (if v \<noteq> [] \<and> hd v = CHR ''.'' then tl v else v))\<rparr>"
  "put_attribute dp ''Path'' v a = a\<lparr>at_path := Some (if v = [] \<or> hd v \<noteq> CHR ''/'' then ''/'' else v)\<rparr>"
  "put_attribute dp ''Expires'' v a = (case dp v of None \<Rightarrow> a | Some t \<Rightarrow> a\<lparr>at_expires := Some t\<rparr>)"
  "put_attribute dp ''SameSite'' v a = (case same_site_of v of None \<Rightarrow> a | Some s \<Rightarrow> a\<lparr>at_sameSite := Some s\<rparr>)"
  by (simp_all add: put_attribute_def lower_attributes Let_def)

lemma known_names:
  "n \<in> {''Secure'', ''HttpOnly'', ''Max-Age'', ''Domain'', ''Path'', ''Expires'', ''SameSite''} \<Longrightarrow> CHR ''='' \<notin> set n \<and> js_trim n = n"
  by (auto intro!: trim_plain simp: is_ws_def)

lemma read_known:
  "read_attribute dp '' Secure'' a = a\<lparr>at_secure := True\<rparr>"
  "read_attribute dp '' HttpOnly'' a = a\<lparr>at_httpOnly := True\<rparr>"
  using read_flag [of "''Secure''" dp a] read_flag [of "''HttpOnly''" dp a] known_names
  by (simp_all add: put_known)

lemma read_known_pair:
  assumes "n \<in> {''Secure'', ''HttpOnly'', ''Max-Age'', ''Domain'', ''Path'', ''Expires'', ''SameSite''}"
    "js_trim v = v" "length v \<le> 1024"
  shows "read_attribute dp (CHR '' '' # n @ ''='' @ v) a = put_attribute dp n v a"
  using read_pair [of n dp v a] known_names [OF assms(1)] assms(2,3) by (simp add: maxAttributeValueSize_def)

lemma age_read:
  assumes "0 \<le> n" "n < 2 ^ 53"
  shows "age_of (show_int n) = Some (Seconds n)"
proof -
  obtain d ds where s: "show_int n = d # ds" using show_int_text(2) by (cases "show_int n") auto
  have all: "list_all is_digit (d # ds)" using assms(1) show_nat_digits by (auto simp: s [symmetric] show_int_def list_all_iff)
  then have "d \<noteq> CHR ''-''" by (auto simp: digit_code char_code_def)
  moreover have "nat_of_digits (d # ds) = nat n" using assms(1) by (simp add: s [symmetric] show_int_def)
  moreover have "nat n < 2 ^ 53" using assms by (simp add: nat_less_iff)
  ultimately show ?thesis
    using all assms(1) by (simp add: s age_of_def digits_number_def fl53_exact list_ex_iff list_all_iff Let_def)
qed

lemma age_length:
  assumes "n < 2 ^ 53" "0 \<le> n"
  shows "length (show_int n) \<le> 1024"
  using length_show_int [of n 16] assms by simp

lemma same_site_kept: "s \<in> {''Strict'', ''Lax'', ''None''} \<Longrightarrow> same_site_of s = Some s"
  by (auto simp: same_site_of_def lower_attributes Let_def)

lemma domain_read:
  assumes "validateCookieDomain d" "d \<noteq> '' ''"
  shows "length d \<le> 1024" "d = [] \<or> hd d \<noteq> CHR ''.''"
proof -
  show "length d \<le> 1024" using assms by (simp add: validateCookieDomain_def)
  show "d = [] \<or> hd d \<noteq> CHR ''.''" using assms by (cases d) (auto simp: validateCookieDomain_def char_code_def)
qed

section \<open>Written and read\<close>

definition expiry_time :: "cookie_expiry \<Rightarrow> int option" where
  "expiry_time e =
     (case e of NoExpiry \<Rightarrow> None | InvalidDate \<Rightarrow> None | ExpiryNumber n \<Rightarrow> if n = 0 then None else Some n | ExpiryDate t \<Rightarrow> Some t)"

definition known_attributes :: "string list" where
  "known_attributes = [''expires'', ''max-age'', ''domain'', ''path'', ''secure'', ''httponly'', ''samesite'']"

definition unparsed_kept :: "string \<Rightarrow> bool" where
  "unparsed_kept part \<longleftrightarrow> latin1_lower (fst (unparsed_pair part)) \<notin> set known_attributes \<and> length (snd (unparsed_pair part)) \<le> 1024"

definition unparsed_read :: "string \<Rightarrow> string" where
  "unparsed_read part = fst (unparsed_pair part) @ ''='' @ snd (unparsed_pair part)"

text \<open>What the reader does not change: the path is absolute, trimmed and short, the age is exact, the rest is unknown.\<close>

definition kept_cookie :: "cookie \<Rightarrow> bool" where
  "kept_cookie c \<longleftrightarrow>
     length (ck_name c) + length (ck_value c) \<le> 4096 \<and>
     (case ck_maxAge c of None \<Rightarrow> True | Some n \<Rightarrow> n < 2 ^ 53) \<and>
     ck_domain c \<noteq> Some '' '' \<and>
     (case ck_path c of None \<Rightarrow> True | Some p \<Rightarrow> p = [] \<or> hd p = CHR ''/'' \<and> js_trim p = p \<and> length p \<le> 1024) \<and>
     (case ck_sameSite c of None \<Rightarrow> True | Some s \<Rightarrow> s \<in> set [''Strict'', ''Lax'', ''None'']) \<and>
     list_all unparsed_kept (ck_unparsed c)"

definition nonempty :: "string option \<Rightarrow> string option" where
  "nonempty s = (if s = Some [] then None else s)"

definition read_back :: "cookie \<Rightarrow> cookie_attributes" where
  "read_back c =
     \<lparr>at_expires = expiry_time (ck_expires c), at_maxAge = map_option Seconds (ck_maxAge c),
      at_domain = map_option latin1_lower (nonempty (ck_domain c)), at_path = nonempty (ck_path c), at_secure = ck_secure c,
      at_httpOnly = ck_httpOnly c, at_sameSite = ck_sameSite c,
      at_unparsed = (if ck_unparsed c = [] then None else Some (map unparsed_read (ck_unparsed c)))\<rparr>"

lemma equals_char: "attr_char CHR ''=''"
  by (simp add: attr_char_def char_code_def)

lemma pair_text: "attr_text n \<Longrightarrow> attr_text v \<Longrightarrow> attr_text (n @ ''='' @ v)"
  using equals_char by simp

lemma unparsed_texts: "unparsed_text parts = Inr out \<Longrightarrow> list_all attr_text out"
proof (induction parts arbitrary: out)
  case (Cons part parts)
  obtain k v where kv: "unparsed_pair part = (k, v)" by fastforce
  obtain rest where r: "unparsed_text parts = Inr rest" "out = (k @ ''='' @ v) # rest" "validateCookieName k" "validateCookieValue v"
    using Cons.prems kv by (auto split: if_splits sum.splits)
  then show ?case using Cons.IH name_text [of k] value_text [of v] equals_char by (auto simp: list_all_iff)
qed simp

lemma read_unparsed:
  "unparsed_text parts = Inr out \<Longrightarrow> list_all unparsed_kept parts \<Longrightarrow> parts \<noteq> [] \<Longrightarrow>
   fold (\<lambda>p. read_attribute dp ('' '' @ p)) out a =
     a\<lparr>at_unparsed := Some ((case at_unparsed a of None \<Rightarrow> [] | Some us \<Rightarrow> us) @ map unparsed_read parts)\<rparr>"
proof (induction parts arbitrary: out a)
  case (Cons part parts)
  obtain k v where kv: "unparsed_pair part = (k, v)" by fastforce
  obtain rest where r: "unparsed_text parts = Inr rest" "out = (k @ ''='' @ v) # rest" "validateCookieName k" "validateCookieValue v"
    using Cons.prems(1) kv by (auto split: if_splits sum.splits)
  have t: "js_trim k = k" "CHR ''='' \<notin> set k" "js_trim v = v"
    using name_text [OF r(3)] solid_attr(2) [OF value_text [OF r(4)]] solid_attr(2) [of k] by auto
  have "latin1_lower k \<notin> set known_attributes" "length v \<le> 1024"
    using Cons.prems(2) kv by (simp_all add: unparsed_kept_def)
  then have "read_attribute dp ('' '' @ k @ ''='' @ v) a =
      a\<lparr>at_unparsed := Some ((case at_unparsed a of None \<Rightarrow> [] | Some us \<Rightarrow> us) @ [unparsed_read part])\<rparr>"
    unfolding read_pair [OF t(2,1)] by (simp add: t(3) maxAttributeValueSize_def put_attribute_def Let_def known_attributes_def unparsed_read_def kv)
  then show ?case using Cons.IH [OF r(1)] Cons.prems(2) r(1,2) by (cases "parts = []") simp_all
qed simp

definition cookie_checked :: "cookie \<Rightarrow> bool" where
  "cookie_checked c \<longleftrightarrow>
     (case ck_maxAge c of None \<Rightarrow> True | Some n \<Rightarrow> 0 \<le> n) \<and>
     (case ck_domain c of None \<Rightarrow> True | Some d \<Rightarrow> d = [] \<or> validateCookieDomain d) \<and>
     (case ck_path c of None \<Rightarrow> True | Some p \<Rightarrow> validateCookiePath p)"

lemma attribute_texts_plain:
  assumes "cookie_checked c" "kept_cookie c"
  shows "list_all attr_text (attribute_texts c)"
proof -
  have names: "attr_text ''Secure''" "attr_text ''HttpOnly''" "attr_text ''Max-Age=''" "attr_text ''Domain=''" "attr_text ''Path=''"
    "attr_text ''Expires=''" "attr_text ''SameSite=''" "attr_text ''Strict''" "attr_text ''Lax''" "attr_text ''None''"
    by (simp_all add: attr_char_def char_code_def)
  have "list_all attr_text (expires_text (ck_expires c))"
    using names(6) date_text(1) by (auto simp: expires_text_def split: cookie_expiry.splits)
  moreover have "attr_text d" if "ck_domain c = Some d" "d \<noteq> []" for d
    using that assms domain_text [of d] by (auto simp: cookie_checked_def kept_cookie_def intro: solid_attr(1))
  moreover have "attr_text p" if "ck_path c = Some p" for p
    using that assms by (simp add: cookie_checked_def path_text)
  ultimately show ?thesis
    using names show_int_text(1) assms(2)
    by (auto simp: attribute_texts_def kept_cookie_def split: option.splits)
qed

lemma read_pieces:
  fixes dp a
  defines "rd \<equiv> \<lambda>p. read_attribute dp (CHR '' '' # p)"
  shows "js_trim v = v \<Longrightarrow> length v \<le> 1024 \<Longrightarrow> rd (''Max-Age='' @ v) a = put_attribute dp ''Max-Age'' v a"
    "js_trim v = v \<Longrightarrow> length v \<le> 1024 \<Longrightarrow> rd (''Domain='' @ v) a = put_attribute dp ''Domain'' v a"
    "js_trim v = v \<Longrightarrow> length v \<le> 1024 \<Longrightarrow> rd (''Path='' @ v) a = put_attribute dp ''Path'' v a"
    "js_trim v = v \<Longrightarrow> length v \<le> 1024 \<Longrightarrow> rd (''Expires='' @ v) a = put_attribute dp ''Expires'' v a"
    "js_trim v = v \<Longrightarrow> length v \<le> 1024 \<Longrightarrow> rd (''SameSite='' @ v) a = put_attribute dp ''SameSite'' v a"
  using read_known_pair [of "''Max-Age''" v dp a] read_known_pair [of "''Domain''" v dp a] read_known_pair [of "''Path''" v dp a]
    read_known_pair [of "''Expires''" v dp a] read_known_pair [of "''SameSite''" v dp a]
  by (simp_all add: rd_def)

lemma attributes_read:
  assumes c: "cookie_checked c" "kept_cookie c" and d: "\<And>t. expiry_time (ck_expires c) = Some t \<Longrightarrow> dp (toIMFDate t) = Some t"
  shows "fold (\<lambda>p. read_attribute dp (CHR '' '' # p)) (attribute_texts c) no_attributes = (read_back c)\<lparr>at_unparsed := None\<rparr>"
proof -
  define rd where "rd = (\<lambda>p. read_attribute dp (CHR '' '' # p))"
  note pieces = read_pieces [of _ dp]
  have 1: "fold rd (case ck_maxAge c of Some n \<Rightarrow> [''Max-Age='' @ show_int n] | None \<Rightarrow> []) a =
      (if ck_maxAge c = None then a else a\<lparr>at_maxAge := map_option Seconds (ck_maxAge c)\<rparr>)" for a
  proof (cases "ck_maxAge c")
    case (Some n)
    then have n: "0 \<le> n" "n < 2 ^ 53" using c by (simp_all add: cookie_checked_def kept_cookie_def)
    show ?thesis using pieces(1) [OF solid_attr(2) [OF number_text [OF n(1)]] age_length [OF n(2,1)]] Some
      by (simp add: rd_def put_known age_read [OF n])
  qed simp
  have 2: "fold rd (case ck_domain c of Some d \<Rightarrow> if d \<noteq> [] then [''Domain='' @ d] else [] | None \<Rightarrow> []) a =
      (if nonempty (ck_domain c) = None then a else a\<lparr>at_domain := map_option latin1_lower (nonempty (ck_domain c))\<rparr>)" for a
  proof (cases "nonempty (ck_domain c)")
    case (Some d)
    then have k: "ck_domain c = Some d" "d \<noteq> []" by (auto simp: nonempty_def split: if_splits)
    then have v: "validateCookieDomain d" "d \<noteq> '' ''" using c by (auto simp: cookie_checked_def kept_cookie_def)
    show ?thesis using pieces(2) [OF solid_attr(2) [OF domain_text [OF v]] domain_read(1) [OF v]] domain_read(2) [OF v] k Some
      by (simp add: rd_def put_known)
  qed (auto simp: nonempty_def split: if_splits)
  have 3: "fold rd (case ck_path c of Some p \<Rightarrow> if p \<noteq> [] then [''Path='' @ p] else [] | None \<Rightarrow> []) a =
      (if nonempty (ck_path c) = None then a else a\<lparr>at_path := nonempty (ck_path c)\<rparr>)" for a
  proof (cases "nonempty (ck_path c)")
    case (Some p)
    then have k: "ck_path c = Some p" "p \<noteq> []" by (auto simp: nonempty_def split: if_splits)
    then have "hd p = CHR ''/''" "js_trim p = p" "length p \<le> 1024" using c by (auto simp: kept_cookie_def)
    then show ?thesis using pieces(3) [of p] k Some by (simp add: rd_def put_known)
  qed (auto simp: nonempty_def split: if_splits)
  have 4: "fold rd (expires_text (ck_expires c)) a =
      (if expiry_time (ck_expires c) = None then a else a\<lparr>at_expires := expiry_time (ck_expires c)\<rparr>)" for a
    using d date_text(2,3) pieces(4) by (auto simp: rd_def expires_text_def expiry_time_def put_known split: cookie_expiry.splits)
  have 5: "fold rd (case ck_sameSite c of Some s \<Rightarrow> if s \<noteq> [] then [''SameSite='' @ s] else [] | None \<Rightarrow> []) a =
      (if ck_sameSite c = None then a else a\<lparr>at_sameSite := ck_sameSite c\<rparr>)" for a
  proof (cases "ck_sameSite c")
    case (Some s)
    then have s: "s \<in> {''Strict'', ''Lax'', ''None''}" using c by (simp add: kept_cookie_def)
    then have "s \<noteq> []" "js_trim s = s" "length s \<le> 1024" by (auto intro!: trim_plain simp: is_ws_def)
    then show ?thesis using pieces(5) [of s] same_site_kept [OF s] Some by (simp add: rd_def put_known)
  qed simp
  have 6: "rd ''Secure'' a = a\<lparr>at_secure := True\<rparr>" "rd ''HttpOnly'' a = a\<lparr>at_httpOnly := True\<rparr>" for a
    using read_known by (simp_all add: rd_def)
  show ?thesis unfolding rd_def [symmetric] attribute_texts_def fold_append o_apply 1 2 3 4 5
    by (simp add: 6 read_back_def no_attributes_def)
qed

lemma prefixed_kept: "kept_cookie c \<Longrightarrow> kept_cookie (prefixed c)"
  by (auto simp: prefixed_def kept_cookie_def Let_def is_ws_def intro!: trim_plain)

lemma prefixed_same: "ck_name (prefixed c) = ck_name c" "ck_value (prefixed c) = ck_value c" "ck_expires (prefixed c) = ck_expires c"
  by (simp_all add: prefixed_def Let_def)

section \<open>Properties\<close>


definition demo_cookie :: cookie where
  "demo_cookie = \<lparr>ck_name = ''__Host-id'', ck_value = ''a=b'', ck_expires = ExpiryDate 1000000000000, ck_maxAge = Some 10,
     ck_domain = Some ''x.org'', ck_path = None, ck_secure = False, ck_httpOnly = True, ck_sameSite = Some ''Lax'',
     ck_unparsed = ['' Part=1'']\<rparr>"

definition demo_header :: string where
  "demo_header = ''__Host-id=a=b; Secure; HttpOnly; Max-Age=10; Path=/; Expires=Sun, 09 Sep 2001 01:46:40 GMT; SameSite=Lax; Part=1''"

lemma demo_expiry_text: "toIMFDate 1000000000000 = ''Sun, 09 Sep 2001 01:46:40 GMT''"
  by code_simp

lemma demo_unparsed: "unparsed_pair '' Part=1'' = (''Part'', ''1'')"
  by code_simp

lemma demo_written: "cookie_stringify demo_cookie = Inr (Some demo_header)"
  by code_simp

lemma demo_kept: "kept_cookie demo_cookie"
  by code_simp

lemma demo_parse: "parseHttpDate ''Sun, 09 Sep 2001 01:46:40 GMT'' = Some 1000000000000"
  by code_simp


end
