(* ===== verification/Spec2Isabelle.thy ===== *)
theory Spec2Isabelle
  imports Examples Proxy Tunnel Licenses PeopleService SemverRange WsSender WsReceiver EventStream Integrity Cookies
begin

text \<open>
  A model of the JavaScript and TypeScript programs of this repository. The largest is the GitHub action
  \<open>setup-oras\<close> under \<open>.github/actions/setup-oras-2.0.1/\<close>, as it runs: \<open>src/setup.ts\<close>,
  \<open>src/lib/release.ts\<close>, \<open>src/lib/checksum.ts\<close> and, in the bundle \<open>dist/index.js\<close>, the parts of
  \<open>@actions/core\<close>, \<open>@actions/exec\<close>, \<open>@actions/io\<close>, \<open>@actions/http-client\<close>,
  \<open>@actions/tool-cache\<close>, \<open>tunnel\<close> and \<open>semver\<close> that it rests on. The others are the action's
  maintenance scripts \<open>update-releases.mjs\<close> and \<open>generate-licenses.js\<close>, and \<open>main.js\<close>, the REST service
  of \<open>examples/910_polyglot_demo\<close>.

  How the parts interact. The action reads its inputs, selects a release from the bundled table
  (\<open>Releases\<close>, \<open>Release\<close>), downloads the archive (\<open>Download\<close>, over \<open>ToolCache\<close>'s retry helper
  and \<open>HttpClient\<close>, which may tunnel through a proxy: \<open>Proxy\<close>, \<open>Tunnel\<close>), compares its digest, unpacks
  it with a child process (\<open>ToolCache\<close>, \<open>Exec\<close>, \<open>CmdLine\<close>, with the program found by
  \<open>IoUtil\<close>) and puts the directory in front of PATH (\<open>Command\<close>). Everything runs in one exception and
  state monad over one record.

  Foundations.
  \<^item> \<open>Prelude\<close>: the string operations of the language. \<open>Json\<close>: JSON values, objects as lists of
    properties in insertion order, \<open>JSON.stringify\<close>. \<open>Doubles\<close>: rounding an integer to a double.
    \<open>Sorting\<close>: \<open>Array.prototype.sort\<close>, with the locale \<open>comparator\<close>, interpreted for every comparison
    function of the program.
  \<^item> \<open>Effects\<close>: exceptions, the monad \<open>io\<close>, frames (\<open>keeps\<close>), triples, and the locales for event
    machines and escaping schemes. An exception \<open>Pending\<close> that no handler catches stands for a promise that
    never settles.
  \<^item> \<open>World\<close>: the record \<open>world\<close> (environment, file system, output, exit code, and logs of the HTTP
    messages sent, processes started and waits) and the record \<open>host\<close>, the parameters: the platform, Node's
    \<open>path\<close>, \<open>URL\<close> and \<open>JSON.parse\<close>, the network as a function of the messages sent so far, child
    processes as event sequences, SHA-256, the random generators, and which file system calls fail.
    \<open>Machine\<close> is one concrete host, on which \<open>Examples\<close> runs the whole action.

  Components. Each theory has the definitions in the order of the code, then their facts, then the properties.
  \<^item> \<open>Command\<close>: workflow commands, \<open>addPath\<close>, \<open>getInput\<close>, \<open>setFailed\<close>. A runner that parses a command
    gets back what was issued; a command is one line.
  \<^item> \<open>Summary\<close>: the job summary; a write is exact and loses nothing when it fails.
  \<^item> \<open>IoUtil\<close>: \<open>which\<close>, \<open>rmRF\<close>, \<open>mkdirP\<close>; \<open>which\<close> returns the first executable candidate.
  \<^item> \<open>CmdLine\<close>: splitting a command line, the quoting rules for Windows with readers for both, and
    the line buffer: quoting is undone by the reader, lines do not depend on chunks.
  \<^item> \<open>Exec\<close>: a child process as an event machine: one result, whatever the order of events.
  \<^item> \<open>Proxy\<close>, \<open>HttpClient\<close>, \<open>HttpSafety\<close>: requests with redirects and retries. The locale
    \<open>request_policy\<close> lifts a fact on one message over redirects and retries; it is interpreted for
    transport security, credentials and the number of messages.
  \<^item> \<open>Tunnel\<close>: the proxy agent as an event machine with an invariant on its slots.
  \<^item> \<open>ToolCache\<close>, \<open>Download\<close>: retries, one attempt, the file it leaves; extraction commands.
  \<^item> \<open>Releases\<close>, \<open>Release\<close>, \<open>Setup\<close>: the table, the selection, the action in stages.
  \<^item> \<open>UpdateReleases\<close>, \<open>Licenses\<close>, \<open>PeopleService\<close>: the other programs.
  \<^item> \<open>Semver\<close>, \<open>SemverFacts\<close>: parsing, formatting, comparing and incrementing versions; a printed
    version reads back, comparison is the precedence of the standard, an increment goes up.
  \<^item> \<open>Regex\<close>, \<open>SemverRe\<close>: a backtracking matcher for the regular expressions of the language, and the
    patterns of \<open>semver\<close> as \<open>re.js\<close> builds them; the pattern of versions accepts the grammar of \<open>Semver\<close>.
  \<^item> \<open>SemverRange\<close>: comparators, ranges and the queries over them; the memo of parsed ranges is
    transparent, \<open>maxSatisfying\<close> finds a greatest version.
  \<^item> \<open>MimeType\<close>, \<open>FixedQueue\<close>, \<open>WsFrame\<close>, \<open>WsSender\<close>, \<open>WsReceiver\<close>: parts of the bundled
    library \<open>undici\<close>. MIME types read back as they are written; the queue of ring buffers is a queue
    (locale \<open>fifo\<close>); frames read back; messages leave in the order they were sent while Blobs are read;
    the receiver delivers the messages of the standard's frames, whatever the chunks, and one close frame
    is sent (locale \<open>handler_invariant\<close>). The bytes of a chunk are consumed by a loop whose weight,
    bytes left and state, goes down, so \<open>ws_run\<close> is total.
  \<^item> \<open>HeaderTree\<close>, \<open>EventStream\<close>, \<open>HttpDate\<close>: more of \<open>undici\<close>. The ternary search tree of header
    names is a map that ignores case (locale \<open>lowercase_map\<close>), so looking names up in it is the same as
    making them lowercase; the event stream parser with its chunks and cursors does what the lines of the
    stream say, and events arrive as they were written; HTTP dates are accepted exactly when they are
    dates, and read back.
  \<^item> \<open>Cookies\<close>, \<open>Integrity\<close>: also of \<open>undici\<close>. A cookie that is written reads back with all its
    attributes; integrity metadata is decided by the strongest algorithm alone.
  The theory at hand states what the parts give together.

  Loops and bounds. Loops over data are structural recursion. \<open>request_loop\<close> recurses on the tries left,
  \<open>follow_redirects\<close> on the redirects left and \<open>execute_loop\<close> on the attempts left, the bounds the code
  itself counts, so no fuel is involved and each function is total. Integers that the code may round are
  rounded with \<open>fl53\<close>.

  Not modelled. Third-party code that the action does not reach: the rest of \<open>undici\<close> (reached only through
  \<open>getAgentDispatcher\<close>, which nothing calls); \<open>subset\<close> of \<open>semver\<close>; the
  \<open>headers\<close> argument of \<open>tool-cache\<close> and its test hook for response messages, which \<open>setup.ts\<close> does not
  use (its lookup half is not in the bundle); stream bodies of \<open>http-client\<close>. Processes are not interleaved with other
  work of the program: the action awaits each one. Strings are lists of 8-bit characters. The operator
  (Go), its Java code, charts and manifests are other languages.
\<close>

section \<open>The action as a whole\<close>

text \<open>
  C1: the action runs a program or changes the environment only after the file it downloaded is the
  complete body of a server's 200 answer and has exactly the SHA-256 digest of the selected release;
  whatever it does to the environment and the processes is what installing that file does.
\<close>

theorem setup_installs_only_verified:
  assumes "setup_oras h w = (r, w')" and "w_spawns w' \<noteq> w_spawns w \<or> w_env w' \<noteq> w_env w"
  shows "\<exists>rel p w1 r2 w2. fst (selected h w) = Inr rel \<and> untouched w w1 \<and> verified h rel p w1 \<and>
    install h (rel_url rel) p w1 = (r2, w2) \<and> w_spawns w' = w_spawns w2 \<and> w_env w' = w_env w2"
  using assms(1)
proof (cases rule: setup_oras_cases)
  case (1 r1 w1)
  from 1(1) show ?thesis
  proof (cases rule: setup_try_cases)
    case (early e)
    with 1 assms(2) show ?thesis by (simp add: untouched_def)
  next
    case (installed rel p w2)
    with 1 show ?thesis by blast
  qed
qed

theorem setup_installs_only_verified_witness:
  "\<exists>rel p w1 r2 w2. fst (selected demo_host good_world) = Inr rel \<and> untouched good_world w1 \<and>
    verified demo_host rel p w1 \<and> install demo_host (rel_url rel) p w1 = (r2, w2) \<and>
    w_spawns (snd (demo_install good_world)) = w_spawns w2 \<and> w_env (snd (demo_install good_world)) = w_env w2"
  by (rule setup_installs_only_verified [OF demo_good])
    (use demo_good_effects(1) in \<open>auto simp: good_world_def demo_world_def\<close>)






end
